(* ===== verification/Go_Float.thy ===== *)
theory Go_Float
  imports Qumomf_Prelude
begin

text \<open>
  Go's \<open>float64\<close> as the program uses it: comparison, subtraction and conversion
  from integers, with IEEE 754 rounding.

  Every finite binary64 number is an integral multiple of \<open>2 powr (-1074)\<close>, so \<open>FFin k\<close>
  stands for \<open>k * 2 powr (-1074)\<close>, exactly.  Arithmetic computes the exact result in those
  units and \<open>f64_round\<close> rounds it to 53 significant bits, ties to even, overflowing to an
  infinity.  \<open>FInf True\<close> is minus infinity.  The two zeros are one value: no operation of
  the program tells them apart.
\<close>

datatype float64 = FNaN | FInf bool | FFin int

fun bit_len :: "nat \<Rightarrow> nat" where
  "bit_len n = (if n = 0 then 0 else Suc (bit_len (n div 2)))"

declare bit_len.simps [simp del]

definition round_shift :: "nat \<Rightarrow> nat \<Rightarrow> nat" where
  "round_shift s m =
     (let q = m div 2 ^ s; r = m mod 2 ^ s
      in (q + (if 2 ^ s < 2 * r \<or> 2 * r = 2 ^ s \<and> odd q then 1 else 0)) * 2 ^ s)"

definition round_mag :: "nat \<Rightarrow> nat" where
  "round_mag m = round_shift (bit_len m - 53) m"

definition overflow_mag :: nat where
  "overflow_mag = 2 ^ 2098"

definition f64_round :: "int \<Rightarrow> float64" where
  "f64_round k =
     (let m = round_mag (nat \<bar>k\<bar>)
      in if overflow_mag \<le> m then FInf (k < 0) else FFin (if k < 0 then - int m else int m))"

fun f64_less :: "float64 \<Rightarrow> float64 \<Rightarrow> bool" where
  "f64_less (FFin a) (FFin b) = (a < b)"
| "f64_less (FFin _) (FInf n) = (\<not> n)"
| "f64_less (FInf n) (FFin _) = n"
| "f64_less (FInf m) (FInf n) = (m \<and> \<not> n)"
| "f64_less _ _ = False"

fun f64_eq :: "float64 \<Rightarrow> float64 \<Rightarrow> bool" where
  "f64_eq FNaN _ = False"
| "f64_eq _ FNaN = False"
| "f64_eq a b = (a = b)"

definition f64_le :: "float64 \<Rightarrow> float64 \<Rightarrow> bool" where
  "f64_le a b = (f64_less a b \<or> f64_eq a b)"

fun f64_neg :: "float64 \<Rightarrow> float64" where
  "f64_neg (FFin a) = FFin (- a)"
| "f64_neg (FInf n) = FInf (\<not> n)"
| "f64_neg FNaN = FNaN"

fun f64_sub :: "float64 \<Rightarrow> float64 \<Rightarrow> float64" where
  "f64_sub (FFin a) (FFin b) = f64_round (a - b)"
| "f64_sub (FFin _) (FInf n) = FInf (\<not> n)"
| "f64_sub (FInf n) (FFin _) = FInf n"
| "f64_sub (FInf m) (FInf n) = (if m = n then FNaN else FInf m)"
| "f64_sub _ _ = FNaN"

text \<open>\<open>float64(i)\<close> for an integer value; the constants of the source.\<close>

definition f64_of_int :: "int \<Rightarrow> float64" where
  "f64_of_int i = f64_round (i * 2 ^ 1074)"

definition MaxFloat64 :: float64 where
  "MaxFloat64 = FFin ((2 ^ 53 - 1) * 2 ^ 2045)"

definition f64_half :: float64 where
  "f64_half = FFin (2 ^ 1073)"

section \<open>Order\<close>

lemma f64_less_irrefl [simp]: "\<not> f64_less a a"
  by (cases a) auto

lemma f64_less_asym: "f64_less a b \<Longrightarrow> \<not> f64_less b a"
  by (cases "(a, b)" rule: f64_less.cases) auto

lemma f64_less_trans: "f64_less a b \<Longrightarrow> f64_less b c \<Longrightarrow> f64_less a c"
  by (cases a; cases b; cases c) auto

text \<open>NaN is what breaks negative transitivity; away from it \<open><\<close> is total up to \<open>=\<close>.\<close>

lemma f64_not_less_trans:
  "b \<noteq> FNaN \<Longrightarrow> \<not> f64_less a b \<Longrightarrow> \<not> f64_less b c \<Longrightarrow> \<not> f64_less a c"
  by (cases a; cases b; cases c) auto

lemma f64_not_less: "a \<noteq> FNaN \<Longrightarrow> b \<noteq> FNaN \<Longrightarrow> \<not> f64_less a b \<longleftrightarrow> f64_le b a"
  by (cases a; cases b) (auto simp: f64_le_def)

lemma f64_le_refl: "a \<noteq> FNaN \<Longrightarrow> f64_le a a"
  by (cases a) (auto simp: f64_le_def)

section \<open>Rounding\<close>

lemma bit_len_0 [simp]: "bit_len 0 = 0"
  by (simp add: bit_len.simps)

lemma bit_len_pos: "0 < n \<Longrightarrow> bit_len n = Suc (bit_len (n div 2))"
  by (subst bit_len.simps) simp

lemma bit_len_upper: "n < 2 ^ bit_len n"
proof (induction n rule: bit_len.induct)
  case (1 n)
  show ?case
  proof (cases "n = 0")
    case False
    with 1 have "n div 2 < 2 ^ bit_len (n div 2)" by simp
    then have "n < 2 * 2 ^ bit_len (n div 2)" by linarith
    with False show ?thesis by (simp add: bit_len_pos)
  qed simp
qed

lemma bit_len_lower: "0 < n \<Longrightarrow> 2 ^ (bit_len n - 1) \<le> n"
proof (induction n rule: bit_len.induct)
  case (1 n)
  show ?case
  proof (cases "n div 2 = 0")
    case True
    with 1(2) show ?thesis by (simp add: bit_len_pos)
  next
    case False
    then have "2 ^ (bit_len (n div 2) - 1) \<le> n div 2"
      using 1(1)[OF _ ] 1(2) by simp
    moreover have "bit_len (n div 2) = Suc (bit_len (n div 2) - 1)"
      using False by (simp add: bit_len_pos)
    ultimately have "2 * 2 ^ (bit_len (n div 2) - 1) \<le> n" and
      "(2::nat) ^ bit_len (n div 2) = 2 * 2 ^ (bit_len (n div 2) - 1)"
      by (linarith, metis power_Suc)
    then have "2 ^ bit_len (n div 2) \<le> n" by simp
    with 1(2) show ?thesis by (simp add: bit_len_pos)
  qed
qed

lemma bit_len_le: "n < 2 ^ k \<Longrightarrow> bit_len n \<le> k"
proof (rule ccontr)
  assume a: "n < 2 ^ k" and "\<not> bit_len n \<le> k"
  then have "k \<le> bit_len n - 1" and "0 < n" by (cases "n = 0"; simp)+
  then have "(2::nat) ^ k \<le> n"
    using bit_len_lower[of n] by (meson le_trans one_le_numeral power_increasing)
  with a show False by simp
qed

lemma bit_len_mono: "m \<le> n \<Longrightarrow> bit_len m \<le> bit_len n"
  by (rule bit_len_le) (use bit_len_upper[of n] in linarith)

lemma bit_len_mult_pow: "0 < n \<Longrightarrow> bit_len (n * 2 ^ s) = bit_len n + s"
proof (induction s)
  case (Suc s)
  have "bit_len (n * 2 ^ Suc s) = Suc (bit_len (n * 2 ^ Suc s div 2))"
    using Suc.prems by (simp add: bit_len_pos)
  also have "n * 2 ^ Suc s div 2 = n * 2 ^ s" by simp
  finally show ?case using Suc by simp
qed simp

lemma round_shift_exact: "2 ^ s dvd m \<Longrightarrow> round_shift s m = m"
  by (auto simp: round_shift_def Let_def dvd_def)

lemma round_shift_mono:
  assumes "m \<le> n"
  shows "round_shift s m \<le> round_shift s n"
proof -
  let ?p = "(2::nat) ^ s"
  let ?up = "\<lambda>m. if ?p < 2 * (m mod ?p) \<or> 2 * (m mod ?p) = ?p \<and> odd (m div ?p) then 1 else 0 :: nat"
  have q: "m div ?p \<le> n div ?p" using assms by (rule div_le_mono)
  have "m div ?p + ?up m \<le> n div ?p + ?up n"
  proof (cases "m div ?p = n div ?p")
    case True
    have "m = m div ?p * ?p + m mod ?p" and "n = n div ?p * ?p + n mod ?p"
      by (rule div_mult_mod_eq [symmetric])+
    with True assms have "m mod ?p \<le> n mod ?p" by (metis nat_add_left_cancel_le)
    with True show ?thesis by auto
  next
    case False
    with q show ?thesis by auto
  qed
  then show ?thesis by (simp add: round_shift_def Let_def)
qed

lemma round_mag_exact: "n < 2 ^ 53 \<Longrightarrow> round_mag (n * 2 ^ s) = n * 2 ^ s"
proof (cases "n = 0")
  case False
  assume "n < 2 ^ 53"
  then have "bit_len n \<le> 53" by (rule bit_len_le)
  then have "bit_len (n * 2 ^ s) - 53 \<le> s" using False by (simp add: bit_len_mult_pow)
  then show ?thesis
    unfolding round_mag_def by (intro round_shift_exact dvd_mult le_imp_power_dvd)
qed (simp add: round_mag_def round_shift_def)

lemma round_mag_bounds:
  assumes "53 < bit_len m"
  shows "2 ^ (bit_len m - 1) \<le> round_mag m" and "round_mag m \<le> 2 ^ bit_len m"
proof -
  let ?b = "bit_len m" and ?s = "bit_len m - 53"
  let ?q = "m div 2 ^ ?s"
  have m: "0 < m" using assms by (cases "m = 0") auto
  have s: "?s + 52 = ?b - 1" and b: "?s + 53 = ?b" using assms by auto
  have pb: "(2::nat) ^ ?b = 2 ^ 53 * 2 ^ ?s" and pb1: "(2::nat) ^ (?b - 1) = 2 ^ 52 * 2 ^ ?s"
    using s b by (metis mult.commute power_add)+
  have lo: "2 ^ 52 \<le> ?q"
    using bit_len_lower[OF m] by (simp only: pb1 less_eq_div_iff_mult_less_eq zero_less_power zero_less_numeral)
  have hi: "?q < 2 ^ 53"
    using bit_len_upper[of m] by (simp only: pb div_less_iff_less_mult zero_less_power zero_less_numeral)
  have r: "?q * 2 ^ ?s \<le> round_mag m" "round_mag m \<le> (?q + 1) * 2 ^ ?s"
    by (simp_all only: round_mag_def round_shift_def Let_def) (auto intro: mult_le_mono1)
  show "2 ^ (?b - 1) \<le> round_mag m"
    using r(1) mult_le_mono1[OF lo, of "2 ^ ?s"] by (simp only: pb1)
  show "round_mag m \<le> 2 ^ ?b"
    unfolding pb using hi by (intro le_trans [OF r(2)] mult_le_mono1) simp
qed

lemma round_mag_mono: "m \<le> n \<Longrightarrow> round_mag m \<le> round_mag n"
proof (cases "bit_len n - 53 = bit_len m - 53")
  case True
  assume "m \<le> n"
  then show ?thesis unfolding round_mag_def True by (rule round_shift_mono)
next
  case False
  assume mn: "m \<le> n"
  then have "bit_len m \<le> bit_len n" by (rule bit_len_mono)
  with False have n: "53 < bit_len n" and lt: "bit_len m \<le> bit_len n - 1" by auto
  have "round_mag m \<le> 2 ^ (bit_len n - 1)"
  proof (cases "53 < bit_len m")
    case True
    then show ?thesis
      using round_mag_bounds(2)[OF True] lt
      by (meson le_trans one_le_numeral power_increasing)
  next
    case False
    then have "round_mag m = m"
      by (simp add: round_mag_def round_shift_exact)
    moreover have "(2::nat) ^ bit_len m \<le> 2 ^ (bit_len n - 1)"
      by (rule power_increasing [OF lt]) simp
    ultimately show ?thesis
      using bit_len_upper[of m] by linarith
  qed
  then show ?thesis using round_mag_bounds(1)[OF n] by (rule le_trans)
qed

lemma f64_round_0 [simp]: "f64_round 0 = FFin 0"
  by (simp add: f64_round_def round_mag_def round_shift_def overflow_mag_def)

lemma f64_round_not_NaN [simp]: "f64_round k \<noteq> FNaN"
  by (simp add: f64_round_def Let_def)

lemma f64_round_minus: "f64_round (- k) = f64_neg (f64_round k)"
proof (cases "k < 0")
  case True
  then show ?thesis unfolding f64_round_def Let_def by simp
next
  case False
  then show ?thesis by (cases "k = 0") (simp_all add: f64_round_def [of k] f64_round_def [of "- k"] Let_def)
qed

text \<open>Numbers of at most 53 significant bits are represented exactly.\<close>

lemma f64_round_exact:
  assumes "\<bar>n\<bar> < 2 ^ 53" and "s \<le> 2045"
  shows "f64_round (n * 2 ^ s) = FFin (n * 2 ^ s)"
proof -
  have m: "nat \<bar>n * 2 ^ s\<bar> = nat \<bar>n\<bar> * 2 ^ s"
    by (simp add: abs_mult nat_mult_distrib nat_power_eq)
  have n: "nat \<bar>n\<bar> < 2 ^ 53" using assms(1) by (simp add: nat_less_iff)
  have e: "round_mag (nat \<bar>n * 2 ^ s\<bar>) = nat \<bar>n\<bar> * 2 ^ s"
    unfolding m using n by (rule round_mag_exact)
  have "nat \<bar>n\<bar> * 2 ^ s < 2 ^ 53 * 2 ^ s"
    using n by (intro mult_strict_right_mono) simp_all
  also have "\<dots> \<le> (2::nat) ^ 53 * 2 ^ 2045"
    using assms(2) by (intro mult_left_mono power_increasing) simp_all
  also have "\<dots> = overflow_mag" by (simp only: overflow_mag_def power_add [symmetric]) simp
  finally have "\<not> overflow_mag \<le> nat \<bar>n\<bar> * 2 ^ s" by (simp only: not_le)
  then have r: "f64_round (n * 2 ^ s) =
      FFin (if n * 2 ^ s < 0 then - int (nat \<bar>n\<bar> * 2 ^ s) else int (nat \<bar>n\<bar> * 2 ^ s))"
    unfolding f64_round_def e Let_def by (simp only: if_False)
  show ?thesis unfolding r by (auto simp: mult_less_0_iff)
qed

text \<open>Rounding is monotone, so a comparison of exact values survives it.\<close>

lemma f64_round_mono: "k \<le> l \<Longrightarrow> f64_le (f64_round k) (f64_round l)"
proof -
  assume kl: "k \<le> l"
  have neg: "round_mag (nat \<bar>l\<bar>) \<le> round_mag (nat \<bar>k\<bar>)" if "l < 0"
    using that kl by (intro round_mag_mono) simp
  have pos: "round_mag (nat \<bar>k\<bar>) \<le> round_mag (nat \<bar>l\<bar>)" if "0 \<le> k"
    using that kl by (intro round_mag_mono) simp
  show ?thesis
  proof (cases "l < 0 \<or> 0 \<le> k")
    case True
    with neg pos kl show ?thesis
      unfolding f64_round_def Let_def f64_le_def by (auto split: if_split_asm)
  next
    case False
    then show ?thesis
      unfolding f64_round_def Let_def f64_le_def by (auto split: if_split_asm)
  qed
qed

lemma f64_of_int_exact:
  "\<bar>n\<bar> < 2 ^ 53 \<Longrightarrow> f64_of_int n = FFin (n * 2 ^ 1074)"
  unfolding f64_of_int_def by (rule f64_round_exact) simp_all

lemma f64_of_int_0 [simp]: "f64_of_int 0 = FFin 0"
  by (simp add: f64_of_int_def)

end
