(* ===== verification/Go_Strings.thy ===== *)
theory Go_Strings
  imports Qumomf_Prelude
begin

text \<open>
  The functions of Go's \<open>strings\<close> and \<open>strconv\<close> packages the program calls, on byte
  strings: a HOL \<open>char\<close> is one byte, as an element of a Go string is.  Comparison of
  strings is bytewise, which is the order of \<open>HOL-Library.List_Lexorder\<close>.
\<close>

section \<open>Prefixes and replacement\<close>

fun strip_prefix :: "string \<Rightarrow> string \<Rightarrow> string option" where
  "strip_prefix [] s = Some s"
| "strip_prefix (_ # _) [] = None"
| "strip_prefix (p # ps) (c # s) = (if p = c then strip_prefix ps s else None)"

lemma strip_prefix_Some: "strip_prefix p s = Some r \<longleftrightarrow> s = p @ r"
  by (induction p s rule: strip_prefix.induct) auto

lemma strip_prefix_append [simp]: "strip_prefix p (p @ r) = Some r"
  by (simp add: strip_prefix_Some)

lemma strip_prefix_length: "strip_prefix p s = Some r \<Longrightarrow> length s = length p + length r"
  by (auto simp: strip_prefix_Some)

text \<open>
  \<open>strings.Replace(s, old, new, -1)\<close> and \<open>strings.ReplaceAll\<close>: the occurrences of a
  nonempty \<open>old\<close> are found from left to right without overlap.  Every call of the program
  has a nonempty literal for \<open>old\<close>.
\<close>

function (sequential) replace_all :: "string \<Rightarrow> string \<Rightarrow> string \<Rightarrow> string" where
  "replace_all old new [] = []"
| "replace_all old new (c # s) =
     (if old = [] then c # s
      else case strip_prefix old (c # s) of
             Some r \<Rightarrow> new @ replace_all old new r
           | None \<Rightarrow> c # replace_all old new s)"
  by pat_completeness auto
termination
  by (relation "measure (\<lambda>(old, new, s). length s)")
    (auto dest!: strip_prefix_length simp: neq_Nil_conv)

lemma replace_all_hit:
  "old \<noteq> [] \<Longrightarrow> replace_all old new (old @ s) = new @ replace_all old new s"
proof -
  assume "old \<noteq> []"
  then obtain c ps where old: "old = c # ps" by (cases old) auto
  have "strip_prefix old (c # ps @ s) = Some s"
    unfolding strip_prefix_Some old by simp
  then show ?thesis by (simp add: old)
qed

lemma replace_all_skip:
  "c \<noteq> hd old \<Longrightarrow> old \<noteq> [] \<Longrightarrow> replace_all old new (c # s) = c # replace_all old new s"
  by (cases old) auto

text \<open>Text that does not hold the placeholder's first character is copied.\<close>

lemma replace_all_copy:
  "hd old \<notin> set s \<Longrightarrow> old \<noteq> [] \<Longrightarrow> replace_all old new (s @ t) = s @ replace_all old new t"
  by (induction s) (auto simp: replace_all_skip simp del: replace_all.simps(2))

lemma replace_all_id: "hd old \<notin> set s \<Longrightarrow> old \<noteq> [] \<Longrightarrow> replace_all old new s = s"
  using replace_all_copy[of old s new "[]"] by simp

section \<open>Trimming\<close>

text \<open>
  \<open>strings.TrimSpace\<close> removes what \<open>unicode.IsSpace\<close> accepts: the six ASCII spaces, and
  U+0085, U+00A0, U+1680, U+2000 to U+200A, U+2028, U+2029, U+202F, U+205F and U+3000,
  here by their UTF-8 bytes.
\<close>

definition utf8 :: "nat list \<Rightarrow> string" where
  "utf8 bs = map char_of bs"

definition unicode_spaces :: "string list" where
  "unicode_spaces =
     map utf8
       ([[9], [10], [11], [12], [13], [32], [194, 133], [194, 160], [225, 154, 128]]
        @ map (\<lambda>b. [226, 128, b]) ([128..<139] @ [168, 169, 175])
        @ [[226, 129, 159], [227, 128, 128]])"

fun strip_any :: "string list \<Rightarrow> string \<Rightarrow> string option" where
  "strip_any [] s = None"
| "strip_any (p # ps) s = (case strip_prefix p s of Some r \<Rightarrow> Some r | None \<Rightarrow> strip_any ps s)"

function trim_left :: "string list \<Rightarrow> string \<Rightarrow> string" where
  "trim_left ps s =
     (case strip_any ps s of
        Some r \<Rightarrow> if length r < length s then trim_left ps r else s
      | None \<Rightarrow> s)"
  by pat_completeness auto
termination
  by (relation "measure (\<lambda>(ps, s). length s)") auto

declare trim_left.simps [simp del]

definition trim_right :: "string list \<Rightarrow> string \<Rightarrow> string" where
  "trim_right ps s = rev (trim_left (map rev ps) (rev s))"

definition TrimSpace :: "string \<Rightarrow> string" where
  "TrimSpace s = trim_right unicode_spaces (trim_left unicode_spaces s)"

text \<open>\<open>strings.HasPrefix\<close> and \<open>strings.TrimLeft\<close> with a one-character cutset.\<close>

definition HasPrefix :: "string \<Rightarrow> string \<Rightarrow> bool" where
  "HasPrefix s p = (strip_prefix p s \<noteq> None)"

definition TrimLeft1 :: "char \<Rightarrow> string \<Rightarrow> string" where
  "TrimLeft1 c s = dropWhile ((=) c) s"

lemma HasPrefix_iff: "HasPrefix s p \<longleftrightarrow> (\<exists>r. s = p @ r)"
  by (simp add: HasPrefix_def strip_prefix_Some)

lemma trim_left_suffix: "\<exists>p. s = p @ trim_left ps s"
proof (induction ps s rule: trim_left.induct)
  case (1 ps s)
  have any: "strip_any qs s = Some r \<Longrightarrow> \<exists>p. s = p @ r" for qs r
    by (induction qs) (auto simp: strip_prefix_Some split: option.splits)
  show ?case
  proof (cases "strip_any ps s")
    case (Some r)
    then obtain p where p: "s = p @ r" using any by blast
    show ?thesis
    proof (cases "length r < length s")
      case True
      with 1 Some obtain q where "r = q @ trim_left ps r" by blast
      with p have "s = (p @ q) @ trim_left ps r" by (metis append.assoc)
      moreover have "trim_left ps s = trim_left ps r"
        using Some True by (subst trim_left.simps) simp
      ultimately show ?thesis by metis
    next
      case False
      with Some show ?thesis by (subst trim_left.simps) simp
    qed
  qed (subst trim_left.simps, simp)
qed

section \<open>Decimal numbers\<close>

fun nat_digits :: "nat \<Rightarrow> string" where
  "nat_digits n =
     (if n < 10 then [char_of (48 + n)] else nat_digits (n div 10) @ [char_of (48 + n mod 10)])"

declare nat_digits.simps [simp del]

text \<open>\<open>strconv.Itoa\<close>, \<open>strconv.FormatInt(i, 10)\<close> and the verb \<open>%d\<close>.\<close>

definition Itoa :: "int \<Rightarrow> string" where
  "Itoa i = (if i < 0 then ''-'' @ nat_digits (nat (- i)) else nat_digits (nat i))"

text \<open>\<open>strconv.FormatBool\<close>, \<open>fmt.Sprint\<close> of a bool and the verb \<open>%t\<close>.\<close>

definition FormatBool :: "bool \<Rightarrow> string" where
  "FormatBool b = (if b then ''true'' else ''false'')"

lemma nat_digits_nonempty [simp]: "nat_digits n \<noteq> []"
  by (subst nat_digits.simps) simp

lemma nat_digits_decimal: "\<forall>c \<in> set (nat_digits n). c \<in> set ''0123456789''"
proof (induction n rule: nat_digits.induct)
  case (1 n)
  have "\<forall>k \<in> set [0..<10]. char_of (48 + k) \<in> set ''0123456789''"
    by code_simp
  then have d: "char_of (48 + k) \<in> set ''0123456789''" if "k < 10" for k :: nat
    using that by (simp only: set_upt) simp
  show ?case
  proof (cases "n < 10")
    case True
    then show ?thesis using d by (subst nat_digits.simps) simp
  next
    case False
    then show ?thesis using 1 d[of "n mod 10"] by (subst nat_digits.simps) auto
  qed
qed

end
