(* ===== verification/Vshard_Instance.thy ===== *)
theory Vshard_Instance
  imports Go_Float Go_Strings "HOL-Library.Word" "HOL-Library.List_Lexorder" "HOL-Library.Char_ord"
begin

text \<open>
  The data of internal/vshard/instance.go and internal/vshard/alert.go and the methods of
  \<open>Instance\<close>.

  Status strings come from the database and are kept as strings, so values outside the
  listed constants stay possible.  \<open>HealthLevel\<close> only takes the five values the code writes
  and is a datatype, ordered by severity.  A Go \<open>int64\<close> or \<open>int\<close> is the integer it
  denotes (the program only compares and copies them; conversions wrap in the parser), the
  \<open>uint64\<close> fields are 64-bit words, and a nil pointer is \<open>None\<close>.
\<close>

type_synonym InstanceUUID = string
type_synonym ReplicaSetUUID = string
type_synonym ReplicationStatus = string
type_synonym UpstreamStatus = string
type_synonym DownstreamStatus = string
type_synonym HealthCode = int
type_synonym uint64 = "64 word"

section \<open>Constants\<close>

definition StatusFollow :: ReplicationStatus where [simp]: "StatusFollow = ''follow''"
definition StatusMaster :: ReplicationStatus where [simp]: "StatusMaster = ''master''"
definition StatusDisconnected :: ReplicationStatus where
  [simp]: "StatusDisconnected = ''disconnected''"

definition UpstreamAuth :: UpstreamStatus where [simp]: "UpstreamAuth = ''auth''"
definition UpstreamConnecting :: UpstreamStatus where [simp]: "UpstreamConnecting = ''connecting''"
definition UpstreamDisconnected :: UpstreamStatus where
  [simp]: "UpstreamDisconnected = ''disconnected''"
definition UpstreamFollow :: UpstreamStatus where [simp]: "UpstreamFollow = ''follow''"
definition UpstreamRunning :: UpstreamStatus where [simp]: "UpstreamRunning = ''running''"
definition UpstreamStopped :: UpstreamStatus where [simp]: "UpstreamStopped = ''stopped''"
definition UpstreamOrphan :: UpstreamStatus where [simp]: "UpstreamOrphan = ''orphan''"
definition UpstreamSync :: UpstreamStatus where [simp]: "UpstreamSync = ''sync''"

definition DownstreamFollow :: DownstreamStatus where [simp]: "DownstreamFollow = ''follow''"
definition DownstreamStopped :: DownstreamStatus where [simp]: "DownstreamStopped = ''stopped''"

definition HealthCodeGreen :: HealthCode where [simp]: "HealthCodeGreen = 0"
definition HealthCodeYellow :: HealthCode where [simp]: "HealthCodeYellow = 1"
definition HealthCodeOrange :: HealthCode where [simp]: "HealthCodeOrange = 2"
definition HealthCodeRed :: HealthCode where [simp]: "HealthCodeRed = 3"
definition HealthCodeUnknown :: HealthCode where [simp]: "HealthCodeUnknown = 4"

datatype HealthLevel =
  HealthLevelGreen | HealthLevelYellow | HealthLevelOrange | HealthLevelRed | HealthLevelUnknown

definition AlertUnreachableMaster :: string where
  [simp]: "AlertUnreachableMaster = ''UNREACHABLE_MASTER''"
definition AlertUnreachableReplica :: string where
  [simp]: "AlertUnreachableReplica = ''UNREACHABLE_REPLICA''"

text \<open>The Go constants of type \<open>HealthLevel\<close> are strings.\<close>

fun HealthLevel_string :: "HealthLevel \<Rightarrow> string" where
  "HealthLevel_string HealthLevelGreen = ''green''"
| "HealthLevel_string HealthLevelYellow = ''yellow''"
| "HealthLevel_string HealthLevelOrange = ''orange''"
| "HealthLevel_string HealthLevelRed = ''red''"
| "HealthLevel_string HealthLevelUnknown = ''unknown''"

section \<open>Records\<close>

record Alert =
  alert_Type :: string
  alert_Description :: string

record Upstream =
  up_Peer :: string
  up_Status :: UpstreamStatus
  up_Idle :: float64
  up_Lag :: float64
  up_Message :: string

record Downstream =
  down_Status :: DownstreamStatus

record InstanceBucket =
  bkt_Active :: int
  bkt_Garbage :: int
  bkt_Pinned :: int
  bkt_Receiving :: int
  bkt_Sending :: int
  bkt_Total :: int

record StorageInfo =
  si_Status :: HealthCode
  si_Replication_Status :: ReplicationStatus
  si_Bucket :: InstanceBucket
  si_Alerts :: "Alert list"

record InstanceInfo =
  info_Readonly :: bool
  info_VShardFingerprint :: uint64
  info_StorageInfo :: StorageInfo

record Instance =
  inst_ID :: uint64
  inst_UUID :: InstanceUUID
  inst_URI :: string
  inst_Readonly :: bool
  inst_LastCheckValid :: bool
  inst_LSN :: int
  inst_LSNBehindMaster :: int
  inst_Upstream :: "Upstream option"
  inst_Downstream :: "Downstream option"
  inst_StorageInfo :: StorageInfo
  inst_VShardFingerprint :: uint64
  inst_Priority :: int

record InstanceIdent =
  ident_UUID :: InstanceUUID
  ident_URI :: string

text \<open>Go's zero values, which functions return beside an error and composite literals leave
  in the fields they do not name.\<close>

definition zero_InstanceBucket :: InstanceBucket where
  "zero_InstanceBucket = \<lparr>bkt_Active = 0, bkt_Garbage = 0, bkt_Pinned = 0, bkt_Receiving = 0,
     bkt_Sending = 0, bkt_Total = 0\<rparr>"

definition zero_StorageInfo :: StorageInfo where
  "zero_StorageInfo = \<lparr>si_Status = 0, si_Replication_Status = '''', si_Bucket = zero_InstanceBucket,
     si_Alerts = []\<rparr>"

definition zero_Instance :: Instance where
  "zero_Instance = \<lparr>inst_ID = 0, inst_UUID = '''', inst_URI = '''', inst_Readonly = False,
     inst_LastCheckValid = False, inst_LSN = 0, inst_LSNBehindMaster = 0, inst_Upstream = None,
     inst_Downstream = None, inst_StorageInfo = zero_StorageInfo, inst_VShardFingerprint = 0,
     inst_Priority = 0\<rparr>"

section \<open>Methods\<close>

definition Alert_String :: "Alert \<Rightarrow> string" where
  "Alert_String a = alert_Type a @ '': '' @ ''\"'' @ alert_Description a @ ''\"''"

definition InstanceIdent_String :: "InstanceIdent \<Rightarrow> string" where
  "InstanceIdent_String ident = ident_UUID ident @ ''/'' @ ident_URI ident"

definition Ident :: "Instance \<Rightarrow> InstanceIdent" where
  "Ident i = \<lparr>ident_UUID = inst_UUID i, ident_URI = inst_URI i\<rparr>"

fun has_alert_in :: "Alert list \<Rightarrow> string \<Rightarrow> bool" where
  "has_alert_in [] t = False"
| "has_alert_in (a # as) t = (if alert_Type a = t then True else has_alert_in as t)"

definition HasAlert :: "Instance \<Rightarrow> string \<Rightarrow> bool" where
  "HasAlert i t = has_alert_in (si_Alerts (inst_StorageInfo i)) t"

definition CriticalCode :: "Instance \<Rightarrow> HealthCode" where
  "CriticalCode i = si_Status (inst_StorageInfo i)"

definition CriticalLevel :: "Instance \<Rightarrow> HealthLevel" where
  "CriticalLevel i =
     (if CriticalCode i = HealthCodeGreen then HealthLevelGreen
      else if CriticalCode i = HealthCodeYellow then HealthLevelYellow
      else if CriticalCode i = HealthCodeOrange then HealthLevelOrange
      else if CriticalCode i = HealthCodeRed then HealthLevelRed
      else HealthLevelUnknown)"

definition Idle :: "Instance \<Rightarrow> float64" where
  "Idle i = (case inst_Upstream i of None \<Rightarrow> f64_of_int 0 | Some u \<Rightarrow> up_Idle u)"

definition Instance_SameAs :: "Instance \<Rightarrow> Instance \<Rightarrow> bool" where
  "Instance_SameAs i another =
     (inst_UUID i = inst_UUID another \<and>
      inst_URI i = inst_URI another \<and>
      inst_VShardFingerprint i = inst_VShardFingerprint another \<and>
      inst_ID i = inst_ID another \<and>
      inst_Readonly i = inst_Readonly another \<and>
      si_Replication_Status (inst_StorageInfo i) = si_Replication_Status (inst_StorageInfo another) \<and>
      si_Status (inst_StorageInfo i) = si_Status (inst_StorageInfo another))"

section \<open>Severity order on health levels\<close>

fun severity :: "HealthLevel \<Rightarrow> nat" where
  "severity HealthLevelGreen = 0"
| "severity HealthLevelYellow = 1"
| "severity HealthLevelOrange = 2"
| "severity HealthLevelRed = 3"
| "severity HealthLevelUnknown = 4"

lemma severity_inj: "severity a = severity b \<longleftrightarrow> a = b"
  by (cases a; cases b) auto

instantiation HealthLevel :: linorder
begin

definition less_eq_HealthLevel :: "HealthLevel \<Rightarrow> HealthLevel \<Rightarrow> bool" where
  "less_eq_HealthLevel a b = (severity a \<le> severity b)"

definition less_HealthLevel :: "HealthLevel \<Rightarrow> HealthLevel \<Rightarrow> bool" where
  "less_HealthLevel a b = (severity a < severity b)"

instance
  by standard (auto simp: less_eq_HealthLevel_def less_HealthLevel_def severity_inj)

end

section \<open>Lemmas\<close>

lemma HasAlert_iff: "HasAlert i t \<longleftrightarrow> (\<exists>a \<in> set (si_Alerts (inst_StorageInfo i)). alert_Type a = t)"
proof -
  have "has_alert_in as t \<longleftrightarrow> (\<exists>a \<in> set as. alert_Type a = t)" for as
    by (induction as) auto
  then show ?thesis by (simp add: HasAlert_def)
qed

lemma Idle_simps:
  "inst_Upstream i = None \<Longrightarrow> Idle i = FFin 0"
  "inst_Upstream i = Some u \<Longrightarrow> Idle i = up_Idle u"
  by (simp_all add: Idle_def)

lemma Ident_simps [simp]:
  "ident_UUID (Ident i) = inst_UUID i"
  "ident_URI (Ident i) = inst_URI i"
  by (simp_all add: Ident_def)

lemma Instance_SameAs_refl [simp]: "Instance_SameAs i i"
  by (simp add: Instance_SameAs_def)

lemma Instance_SameAs_sym: "Instance_SameAs i j \<Longrightarrow> Instance_SameAs j i"
  by (simp add: Instance_SameAs_def)

lemma Instance_SameAs_trans:
  "Instance_SameAs i j \<Longrightarrow> Instance_SameAs j k \<Longrightarrow> Instance_SameAs i k"
  by (simp add: Instance_SameAs_def)

lemma Instance_SameAs_UUID: "Instance_SameAs i j \<Longrightarrow> inst_UUID i = inst_UUID j"
  by (simp add: Instance_SameAs_def)

lemma Instance_SameAs_CriticalLevel: "Instance_SameAs i j \<Longrightarrow> CriticalLevel i = CriticalLevel j"
  by (simp add: Instance_SameAs_def CriticalLevel_def CriticalCode_def)

end
