(* ===== verification/Go_Sort.thy ===== *)
theory Go_Sort
  imports Qumomf_Prelude
begin

text \<open>
  The contract of Go's \<open>sort.Sort\<close> and \<open>sort.Slice\<close>.

  The comparison \<open>Less\<close> of the program may panic, so a comparator returns \<open>None\<close> for a
  panic and \<open>Some b\<close> otherwise, and so does the sort.  The package documents no algorithm
  and no stability; the locale \<open>sort_contract\<close> states what it does document: the result is
  a rearrangement of the input; the call returns when no comparison can panic; and for a
  comparator that is a strict weak order no element precedes a smaller one.  The last
  law says that sorting two or more elements compares at least once.  Definitions of the
  model take the sort as an argument, and \<open>insertion_sort\<close>, the algorithm the package
  runs on short slices, is shown to obey the contract.
\<close>

type_synonym 'a comparator = "'a \<Rightarrow> 'a \<Rightarrow> bool option"
type_synonym 'a sorter = "'a comparator \<Rightarrow> 'a list \<Rightarrow> 'a list option"

definition strict_weak :: "'a set \<Rightarrow> ('a \<Rightarrow> 'a \<Rightarrow> bool) \<Rightarrow> bool" where
  "strict_weak A R \<longleftrightarrow>
     (\<forall>x \<in> A. \<forall>y \<in> A. R x y \<longrightarrow> \<not> R y x) \<and>
     (\<forall>x \<in> A. \<forall>y \<in> A. \<forall>z \<in> A. \<not> R x y \<longrightarrow> \<not> R y z \<longrightarrow> \<not> R x z)"

lemma strict_weakI:
  assumes "\<And>x y. x \<in> A \<Longrightarrow> y \<in> A \<Longrightarrow> R x y \<Longrightarrow> \<not> R y x"
    and "\<And>x y z. x \<in> A \<Longrightarrow> y \<in> A \<Longrightarrow> z \<in> A \<Longrightarrow> \<not> R x y \<Longrightarrow> \<not> R y z \<Longrightarrow> \<not> R x z"
  shows "strict_weak A R"
  unfolding strict_weak_def by (intro conjI ballI impI) (erule (2) assms(1), erule (4) assms(2))

lemma strict_weak_asym:
  assumes "strict_weak A R" and "x \<in> A" and "y \<in> A" and "R x y"
  shows "\<not> R y x"
proof -
  have "\<forall>x \<in> A. \<forall>y \<in> A. R x y \<longrightarrow> \<not> R y x"
    using assms(1) unfolding strict_weak_def by (rule conjunct1)
  with assms(2-4) show ?thesis by blast
qed

lemma strict_weak_negtrans:
  assumes "strict_weak A R" and "x \<in> A" and "y \<in> A" and "z \<in> A"
    and "\<not> R x y" and "\<not> R y z"
  shows "\<not> R x z"
proof -
  have "\<forall>x \<in> A. \<forall>y \<in> A. \<forall>z \<in> A. \<not> R x y \<longrightarrow> \<not> R y z \<longrightarrow> \<not> R x z"
    using assms(1) unfolding strict_weak_def by (rule conjunct2)
  from this[THEN bspec, OF assms(2), THEN bspec, OF assms(3), THEN bspec, OF assms(4)]
  have "\<not> R x y \<longrightarrow> \<not> R y z \<longrightarrow> \<not> R x z" .
  with assms(5-6) show ?thesis by blast
qed

lemma strict_weak_trans:
  "strict_weak A R \<Longrightarrow> x \<in> A \<Longrightarrow> y \<in> A \<Longrightarrow> z \<in> A \<Longrightarrow> R x y \<Longrightarrow> R y z \<Longrightarrow> R x z"
  using strict_weak_negtrans[of A R x z y] strict_weak_asym[of A R y z] by blast

lemma strict_weak_mono: "strict_weak A R \<Longrightarrow> B \<subseteq> A \<Longrightarrow> strict_weak B R"
  unfolding strict_weak_def by blast

text \<open>A key into a linear order gives a strict weak order.\<close>

lemma strict_weak_key:
  fixes k :: "'a \<Rightarrow> 'b::linorder"
  shows "strict_weak A (\<lambda>x y. k x < k y)"
  by (rule strict_weakI) auto

text \<open>
  The comparison idiom of the program: decide on a first criterion where it separates the
  two, on the next one otherwise.
\<close>

definition lex_then :: "('a \<Rightarrow> 'a \<Rightarrow> bool) \<Rightarrow> ('a \<Rightarrow> 'a \<Rightarrow> bool) \<Rightarrow> 'a \<Rightarrow> 'a \<Rightarrow> bool" where
  "lex_then R S x y = (R x y \<or> \<not> R y x \<and> S x y)"

lemma strict_weak_lex:
  assumes R: "strict_weak A R" and S: "strict_weak A S"
  shows "strict_weak A (lex_then R S)"
proof (rule strict_weakI)
  fix x y assume "x \<in> A" "y \<in> A" "lex_then R S x y"
  then show "\<not> lex_then R S y x"
    using strict_weak_asym[OF R] strict_weak_asym[OF S] by (auto simp: lex_then_def)
next
  fix x y z
  assume A: "x \<in> A" "y \<in> A" "z \<in> A"
    and xy: "\<not> lex_then R S x y" and yz: "\<not> lex_then R S y z"
  have nR: "\<not> R x z"
    using A xy yz strict_weak_negtrans[OF R, of x y z] by (auto simp: lex_then_def)
  show "\<not> lex_then R S x z"
  proof (cases "R z x")
    case True
    with nR show ?thesis by (simp add: lex_then_def)
  next
    case zx: False
    have "\<not> R y x \<and> \<not> R z y"
      using A xy yz zx strict_weak_trans[OF R] strict_weak_negtrans[OF R]
      unfolding lex_then_def by meson
    with xy yz have "\<not> S x y" "\<not> S y z" by (auto simp: lex_then_def)
    with A have "\<not> S x z" using strict_weak_negtrans[OF S] by blast
    with nR show ?thesis by (simp add: lex_then_def)
  qed
qed

section \<open>The contract\<close>

locale sort_contract =
  fixes srt :: "'a sorter"
  assumes srt_perm: "srt cmp xs = Some ys \<Longrightarrow> mset ys = mset xs"
    and srt_returns: "\<forall>x \<in> set xs. \<forall>y \<in> set xs. cmp x y \<noteq> None \<Longrightarrow> srt cmp xs \<noteq> None"
    and srt_sorted: "srt cmp xs = Some ys \<Longrightarrow>
          strict_weak (set xs) (\<lambda>x y. cmp x y = Some True) \<Longrightarrow>
          sorted_wrt (\<lambda>x y. cmp y x \<noteq> Some True) ys"
    and srt_panics: "2 \<le> length xs \<Longrightarrow> \<forall>x \<in> set xs. \<forall>y \<in> set xs. cmp x y = None \<Longrightarrow>
          srt cmp xs = None"
begin

lemma set_eq: "srt cmp xs = Some ys \<Longrightarrow> set ys = set xs"
  by (metis srt_perm set_mset_mset)

lemma length_eq: "srt cmp xs = Some ys \<Longrightarrow> length ys = length xs"
  by (metis srt_perm size_mset)

lemma head_minimal:
  assumes "srt cmp xs = Some (y # ys)"
    and "strict_weak (set xs) (\<lambda>x y. cmp x y = Some True)"
  shows "y \<in> set xs \<and> (\<forall>x \<in> set xs. cmp x y \<noteq> Some True)"
proof -
  have s: "sorted_wrt (\<lambda>x y. cmp y x \<noteq> Some True) (y # ys)" and e: "set (y # ys) = set xs"
    using srt_sorted[OF assms] set_eq[OF assms(1)] by blast+
  have yy: "cmp y y \<noteq> Some True"
    using strict_weak_asym[OF assms(2), of y y] e by auto
  show ?thesis using s yy e by auto
qed

lemma empty_iff: "srt cmp xs = Some ys \<Longrightarrow> ys = [] \<longleftrightarrow> xs = []"
  using length_eq by (metis length_0_conv)

end

text \<open>A sort by a comparison that cannot panic.\<close>

definition sort_by :: "'a sorter \<Rightarrow> ('a \<Rightarrow> 'a \<Rightarrow> bool) \<Rightarrow> 'a list \<Rightarrow> 'a list" where
  "sort_by srt cmp xs =
     (case srt (\<lambda>x y. Some (cmp x y)) xs of Some ys \<Rightarrow> ys | None \<Rightarrow> xs)"

context sort_contract
begin

lemma sort_by_Some: "srt (\<lambda>x y. Some (cmp x y)) xs = Some (sort_by srt cmp xs)"
  using srt_returns[of xs "\<lambda>x y. Some (cmp x y)"] by (auto simp: sort_by_def)

lemma sort_by_perm: "mset (sort_by srt cmp xs) = mset xs"
  using srt_perm[OF sort_by_Some] .

lemma sort_by_set: "set (sort_by srt cmp xs) = set xs"
  using set_eq[OF sort_by_Some] .

lemma sort_by_length: "length (sort_by srt cmp xs) = length xs"
  using length_eq[OF sort_by_Some] .

lemma sort_by_sorted:
  "strict_weak (set xs) cmp \<Longrightarrow> sorted_wrt (\<lambda>x y. \<not> cmp y x) (sort_by srt cmp xs)"
  using srt_sorted[OF sort_by_Some] by simp

lemma sort_by_distinct: "distinct (sort_by srt cmp xs) = distinct xs"
  using sort_by_perm mset_eq_imp_distinct_iff by metis

text \<open>With distinct keys the result depends on the elements only, not on their order.\<close>

lemma sort_by_key_unique:
  fixes k :: "'a \<Rightarrow> 'b::linorder"
  assumes perm: "mset xs = mset zs" and dist: "distinct (map k xs)"
  shows "sort_by srt (\<lambda>x y. k x < k y) xs = sort_by srt (\<lambda>x y. k x < k y) zs"
proof -
  let ?s = "sort_by srt (\<lambda>x y. k x < k y)"
  have sorted: "sorted (map k (?s us))" for us
    using sort_by_sorted[OF strict_weak_key[where k = k], of us]
    by (simp add: sorted_map not_less)
  have m: "mset (?s xs) = mset (?s zs)" by (simp add: sort_by_perm perm)
  then have "mset (map k (?s xs)) = mset (map k (?s zs))" by simp
  then have keys: "map k (?s xs) = map k (?s zs)"
    using sorted by (metis properties_for_sort)
  have "mset (map k (?s xs)) = mset (map k xs)" by (simp add: sort_by_perm)
  then have "distinct (map k (?s xs))"
    using dist by (metis mset_eq_imp_distinct_iff)
  then have "inj_on k (set (?s xs) \<union> set (?s zs))"
    using mset_eq_setD[OF m] by (simp add: distinct_map)
  with keys show ?thesis by (rule map_inj_on)
qed

end

section \<open>Insertion sort\<close>

text \<open>
  The inner loop moves \<open>x\<close> left past the larger elements; \<open>ys\<close> is the sorted prefix,
  last element first.
\<close>

fun insert_left :: "'a comparator \<Rightarrow> 'a \<Rightarrow> 'a list \<Rightarrow> 'a list option" where
  "insert_left cmp x [] = Some [x]"
| "insert_left cmp x (y # ys) =
     (case cmp x y of
        None \<Rightarrow> None
      | Some True \<Rightarrow> map_option ((#) y) (insert_left cmp x ys)
      | Some False \<Rightarrow> Some (x # y # ys))"

fun insertion_loop :: "'a comparator \<Rightarrow> 'a list \<Rightarrow> 'a list \<Rightarrow> 'a list option" where
  "insertion_loop cmp pre [] = Some pre"
| "insertion_loop cmp pre (x # xs) =
     Option.bind (insert_left cmp x pre) (\<lambda>pre'. insertion_loop cmp pre' xs)"

definition insertion_sort :: "'a sorter" where
  "insertion_sort cmp xs = map_option rev (insertion_loop cmp [] xs)"

lemma insert_left_perm: "insert_left cmp x ys = Some zs \<Longrightarrow> mset zs = add_mset x (mset ys)"
proof (induction ys arbitrary: zs)
  case (Cons y ys)
  then show ?case by (auto split: option.splits bool.splits)
qed simp

lemma insertion_loop_perm:
  "insertion_loop cmp pre xs = Some zs \<Longrightarrow> mset zs = mset pre + mset xs"
  by (induction xs arbitrary: pre) (auto simp: bind_eq_Some_conv dest!: insert_left_perm)

lemma insert_left_returns:
  "\<forall>y \<in> set ys. cmp x y \<noteq> None \<Longrightarrow> insert_left cmp x ys \<noteq> None"
  by (induction ys) (auto split: option.splits bool.splits)

lemma insertion_loop_returns:
  "\<forall>x \<in> set pre \<union> set xs. \<forall>y \<in> set pre \<union> set xs. cmp x y \<noteq> None \<Longrightarrow>
   insertion_loop cmp pre xs \<noteq> None"
proof (induction xs arbitrary: pre)
  case (Cons x xs)
  then obtain pre' where p: "insert_left cmp x pre = Some pre'"
    using insert_left_returns[of pre cmp x] by auto
  then have "set pre' = insert x (set pre)"
    using insert_left_perm[OF p] by (metis set_mset_add_mset_insert set_mset_mset)
  with Cons.prems have "insertion_loop cmp pre' xs \<noteq> None" by (intro Cons.IH) auto
  with p show ?case by simp
qed simp

lemma insert_left_sorted:
  assumes "strict_weak (insert x (set ys)) (\<lambda>x y. cmp x y = Some True)"
    and "sorted_wrt (\<lambda>a b. cmp a b \<noteq> Some True) ys"
    and "insert_left cmp x ys = Some zs"
  shows "sorted_wrt (\<lambda>a b. cmp a b \<noteq> Some True) zs"
  using assms
proof (induction ys arbitrary: zs)
  case (Cons y ys)
  let ?R = "\<lambda>x y. cmp x y = Some True"
  have sw: "strict_weak (insert x (set ys)) ?R"
    by (rule strict_weak_mono[OF Cons.prems(1)]) auto
  show ?case
  proof (cases "?R x y")
    case True
    then obtain us where us: "insert_left cmp x ys = Some us" and zs: "zs = y # us"
      using Cons.prems(3) by auto
    have "set us = insert x (set ys)"
      using insert_left_perm[OF us] by (metis set_mset_add_mset_insert set_mset_mset)
    moreover have "\<not> ?R y x"
      using strict_weak_asym[OF Cons.prems(1), of x y] True by auto
    ultimately show ?thesis
      using Cons.IH[OF sw _ us] Cons.prems(2) zs by auto
  next
    case False
    with Cons.prems(3) have zs: "zs = x # y # ys" by (auto split: option.splits bool.splits)
    have "\<not> ?R x b" if "b \<in> set ys" for b
      using strict_weak_negtrans[OF Cons.prems(1), of x y b] that False Cons.prems(2) by auto
    with False Cons.prems(2) zs show ?thesis by auto
  qed
qed auto

lemma insertion_loop_sorted:
  assumes "strict_weak (set pre \<union> set xs) (\<lambda>x y. cmp x y = Some True)"
    and "sorted_wrt (\<lambda>a b. cmp a b \<noteq> Some True) pre"
    and "insertion_loop cmp pre xs = Some zs"
  shows "sorted_wrt (\<lambda>a b. cmp a b \<noteq> Some True) zs"
  using assms
proof (induction xs arbitrary: pre)
  case (Cons x xs)
  from Cons.prems(3) obtain pre' where p: "insert_left cmp x pre = Some pre'"
    and l: "insertion_loop cmp pre' xs = Some zs" by (auto simp: bind_eq_Some_conv)
  have e: "set pre' = insert x (set pre)"
    using insert_left_perm[OF p] by (metis set_mset_add_mset_insert set_mset_mset)
  have "strict_weak (insert x (set pre)) (\<lambda>x y. cmp x y = Some True)"
    by (rule strict_weak_mono[OF Cons.prems(1)]) auto
  then have s: "sorted_wrt (\<lambda>a b. cmp a b \<noteq> Some True) pre'"
    using Cons.prems(2) p by (rule insert_left_sorted)
  show ?case by (rule Cons.IH[OF _ s l]) (use Cons.prems(1) e in simp)
qed simp

lemma insertion_loop_panics:
  assumes "2 \<le> length xs" and "\<forall>x \<in> set xs. \<forall>y \<in> set xs. cmp x y = None"
  shows "insertion_loop cmp [] xs = None"
proof -
  from assms(1) obtain a b zs where "xs = a # b # zs"
    by (cases xs; cases "tl xs") auto
  with assms(2) show ?thesis by simp
qed

lemma insertion_sort_contract: "sort_contract insertion_sort"
proof
  fix cmp :: "'a comparator" and xs ys
  assume s: "insertion_sort cmp xs = Some ys"
  then obtain zs where zs: "insertion_loop cmp [] xs = Some zs" "ys = rev zs"
    by (auto simp: insertion_sort_def)
  show "mset ys = mset xs" using insertion_loop_perm[OF zs(1)] zs(2) by simp
  assume "strict_weak (set xs) (\<lambda>x y. cmp x y = Some True)"
  then have "sorted_wrt (\<lambda>a b. cmp a b \<noteq> Some True) zs"
    using insertion_loop_sorted[of "[]" xs cmp zs] zs(1) by simp
  with zs(2) show "sorted_wrt (\<lambda>x y. cmp y x \<noteq> Some True) ys" by (simp add: sorted_wrt_rev)
next
  fix cmp :: "'a comparator" and xs
  assume "\<forall>x \<in> set xs. \<forall>y \<in> set xs. cmp x y \<noteq> None"
  then show "insertion_sort cmp xs \<noteq> None"
    using insertion_loop_returns[of "[]" xs cmp] by (simp add: insertion_sort_def)
next
  fix cmp :: "'a comparator" and xs
  assume "2 \<le> length xs" "\<forall>x \<in> set xs. \<forall>y \<in> set xs. cmp x y = None"
  then show "insertion_sort cmp xs = None"
    by (simp add: insertion_sort_def insertion_loop_panics)
qed

interpretation isort: sort_contract insertion_sort
  by (rule insertion_sort_contract)

end
