(* ===== verification/Vshard_ReplicaSet.thy ===== *)
theory Vshard_ReplicaSet
  imports Vshard_Instance Go_Sort
begin

text \<open>
  internal/vshard/replicaset.go: a replica set as seen from its master, the follower and
  master selections the electors and the analysis use, its health and its rendering.

  \<open>SameAs\<close> sorts the instance slices of both replica sets in place.  A slice is shared with
  whoever else holds it, so the model returns both replica sets with the order they have
  after the call.
\<close>

record ReplicaSet =
  set_UUID :: ReplicaSetUUID
  set_MasterUUID :: InstanceUUID
  set_MasterURI :: string
  set_Instances :: "Instance list"

datatype master_error = ErrInvalidTopology ReplicaSetUUID InstanceUUID

definition zero_ReplicaSet :: ReplicaSet where
  "zero_ReplicaSet = \<lparr>set_UUID = '''', set_MasterUUID = '''', set_MasterURI = '''',
     set_Instances = []\<rparr>"

definition ReplicaSet_Copy :: "ReplicaSet \<Rightarrow> ReplicaSet" where
  "ReplicaSet_Copy rs = \<lparr>set_UUID = set_UUID rs, set_MasterUUID = set_MasterUUID rs,
     set_MasterURI = set_MasterURI rs, set_Instances = set_Instances rs\<rparr>"

definition sortInstances :: "Instance sorter \<Rightarrow> Instance list \<Rightarrow> Instance list" where
  "sortInstances srt instances = sort_by srt (\<lambda>l r. inst_UUID l < inst_UUID r) instances"

fun instances_same :: "Instance list \<Rightarrow> Instance list \<Rightarrow> bool" where
  "instances_same (i # is) (j # js) =
     (if \<not> Instance_SameAs i j then False else instances_same is js)"
| "instances_same _ _ = True"

definition SameAs :: "Instance sorter \<Rightarrow> ReplicaSet \<Rightarrow> ReplicaSet \<Rightarrow> bool \<times> ReplicaSet \<times> ReplicaSet" where
  "SameAs srt rs another =
     (if set_UUID rs \<noteq> set_UUID another then (False, rs, another)
      else if set_MasterUUID rs \<noteq> set_MasterUUID another \<or>
              length (set_Instances rs) \<noteq> length (set_Instances another)
      then (False, rs, another)
      else let instances = sortInstances srt (set_Instances rs);
               anotherInstances = sortInstances srt (set_Instances another)
           in (instances_same instances anotherInstances,
               rs\<lparr>set_Instances := instances\<rparr>, another\<lparr>set_Instances := anotherInstances\<rparr>))"

definition Followers :: "ReplicaSet \<Rightarrow> Instance list" where
  "Followers rs =
     (if set_Instances rs = [] then []
      else filter (\<lambda>inst. inst_UUID inst \<noteq> set_MasterUUID rs) (set_Instances rs))"

definition alive_follower :: "InstanceUUID \<Rightarrow> Instance \<Rightarrow> bool" where
  "alive_follower master inst =
     (if inst_UUID inst = master then False
      else if \<not> inst_LastCheckValid inst then False
      else case inst_Upstream inst of
             Some u \<Rightarrow> up_Status u \<noteq> UpstreamDisconnected \<and> up_Status u \<noteq> UpstreamStopped
           | None \<Rightarrow> (case inst_Downstream inst of
                       None \<Rightarrow> False
                     | Some d \<Rightarrow> down_Status d \<noteq> DownstreamStopped))"

definition AliveFollowers :: "ReplicaSet \<Rightarrow> Instance list" where
  "AliveFollowers rs =
     (if set_Instances rs = [] then []
      else filter (alive_follower (set_MasterUUID rs)) (set_Instances rs))"

definition Master :: "ReplicaSet \<Rightarrow> (master_error, Instance) go_result" where
  "Master rs =
     (case find (\<lambda>inst. inst_UUID inst = set_MasterUUID rs) (set_Instances rs) of
        Some inst \<Rightarrow> Inr inst
      | None \<Rightarrow> Inl (ErrInvalidTopology (set_UUID rs) (set_MasterUUID rs)))"

text \<open>The idiom \<open>master, _ := set.Master()\<close>: with an error the value is the zero instance.\<close>

definition Master_or_zero :: "ReplicaSet \<Rightarrow> Instance" where
  "Master_or_zero rs = (case Master rs of Inr m \<Rightarrow> m | Inl _ \<Rightarrow> zero_Instance)"

definition HealthStatus :: "ReplicaSet \<Rightarrow> HealthCode \<times> HealthLevel" where
  "HealthStatus rs =
     (case Master rs of
        Inl _ \<Rightarrow> (HealthCodeUnknown, HealthLevelUnknown)
      | Inr master \<Rightarrow> (CriticalCode master, CriticalLevel master))"

fun alerts_text :: "Alert list \<Rightarrow> string" where
  "alerts_text [] = ''''"
| "alerts_text [a] = Alert_String a"
| "alerts_text (a # b # as) = Alert_String a @ '', '' @ alerts_text (b # as)"

fun instances_text :: "bool \<Rightarrow> Instance list \<Rightarrow> string" where
  "instances_text prettyList [] = ''''"
| "instances_text prettyList (inst # is) =
     (let alerts = si_Alerts (inst_StorageInfo inst)
      in if alerts \<noteq> []
         then (if prettyList then '', '' else '''') @ inst_URI inst @ '' -> '' @ alerts_text alerts
              @ instances_text True is
         else instances_text prettyList is)"

definition ReplicaSet_String :: "ReplicaSet \<Rightarrow> string" where
  "ReplicaSet_String rs =
     (let head = ''id: '' @ set_UUID rs @ ''; master_uuid: '' @ set_MasterUUID rs
                 @ ''; master_uri: '' @ set_MasterURI rs
                 @ ''; size: '' @ Itoa (int (length (set_Instances rs)))
                 @ ''; health: '' @ HealthLevel_string (snd (HealthStatus rs))
      in if snd (HealthStatus rs) = HealthLevelGreen then head
         else head @ ''; alerts: ['' @ instances_text False (set_Instances rs) @ '']'')"

section \<open>Master and followers\<close>

lemma Master_Inr:
  "Master rs = Inr m \<Longrightarrow> m \<in> set (set_Instances rs) \<and> inst_UUID m = set_MasterUUID rs"
  by (auto simp: Master_def split: option.splits dest: find_SomeD)

lemma Master_Inl_iff:
  "(\<exists>e. Master rs = Inl e) \<longleftrightarrow> set_MasterUUID rs \<notin> inst_UUID ` set (set_Instances rs)"
proof (cases "find (\<lambda>inst. inst_UUID inst = set_MasterUUID rs) (set_Instances rs)")
  case None
  then have "\<forall>x \<in> set (set_Instances rs). inst_UUID x \<noteq> set_MasterUUID rs"
    by (auto simp: find_None_iff)
  with None show ?thesis by (force simp: Master_def)
next
  case (Some m)
  with find_SomeD[OF Some] show ?thesis by (force simp: Master_def)
qed

lemma Followers_eq:
  "Followers rs = filter (\<lambda>inst. inst_UUID inst \<noteq> set_MasterUUID rs) (set_Instances rs)"
  by (simp add: Followers_def)

lemma AliveFollowers_eq:
  "AliveFollowers rs = filter (alive_follower (set_MasterUUID rs)) (set_Instances rs)"
  by (simp add: AliveFollowers_def)

lemma alive_follower_iff:
  "alive_follower master inst \<longleftrightarrow>
     inst_UUID inst \<noteq> master \<and> inst_LastCheckValid inst \<and>
     ((\<exists>u. inst_Upstream inst = Some u \<and> up_Status u \<notin> {UpstreamDisconnected, UpstreamStopped}) \<or>
      (inst_Upstream inst = None \<and>
       (\<exists>d. inst_Downstream inst = Some d \<and> down_Status d \<noteq> DownstreamStopped)))"
  by (auto simp: alive_follower_def split: option.splits)

text \<open>The alive followers are followers, in the same order.\<close>

lemma AliveFollowers_of_Followers:
  "AliveFollowers rs = filter (alive_follower (set_MasterUUID rs)) (Followers rs)"
  by (simp add: AliveFollowers_eq Followers_eq)
    (rule filter_cong, auto simp: alive_follower_def)

lemma AliveFollowers_subset: "set (AliveFollowers rs) \<subseteq> set (Followers rs)"
  by (auto simp: AliveFollowers_of_Followers)

lemma Followers_subset: "set (Followers rs) \<subseteq> set (set_Instances rs)"
  by (auto simp: Followers_eq)

lemma length_Followers_le: "length (Followers rs) \<le> length (set_Instances rs)"
  by (simp add: Followers_eq)

section \<open>Comparing replica sets\<close>

lemma instances_same_iff:
  "length is = length js \<Longrightarrow> instances_same is js \<longleftrightarrow> list_all2 Instance_SameAs is js"
  by (induction "is" js rule: instances_same.induct) auto

lemma sortInstances_mset: "sort_contract srt \<Longrightarrow> mset (sortInstances srt xs) = mset xs"
  unfolding sortInstances_def by (rule sort_contract.sort_by_perm)

lemma sortInstances_length: "sort_contract srt \<Longrightarrow> length (sortInstances srt xs) = length xs"
  unfolding sortInstances_def by (rule sort_contract.sort_by_length)

lemma sortInstances_unique:
  "sort_contract srt \<Longrightarrow> mset xs = mset ys \<Longrightarrow> distinct (map inst_UUID xs) \<Longrightarrow>
   sortInstances srt xs = sortInstances srt ys"
  unfolding sortInstances_def by (rule sort_contract.sort_by_key_unique)

lemma SameAs_frame:
  assumes "SameAs srt rs another = (b, rs', another')" and "sort_contract srt"
  shows "set_UUID rs' = set_UUID rs" "set_MasterUUID rs' = set_MasterUUID rs"
    "set_MasterURI rs' = set_MasterURI rs"
    "mset (set_Instances rs') = mset (set_Instances rs)"
    "set_UUID another' = set_UUID another" "set_MasterUUID another' = set_MasterUUID another"
    "set_MasterURI another' = set_MasterURI another"
    "mset (set_Instances another') = mset (set_Instances another)"
  using assms by (auto simp: SameAs_def Let_def sortInstances_mset split: if_splits)

lemma sorted_by_UUID:
  "sort_contract srt \<Longrightarrow> sorted (map inst_UUID (sortInstances srt xs))"
  unfolding sortInstances_def
  using sort_contract.sort_by_sorted[OF _ strict_weak_key[where k = inst_UUID], of srt xs]
  by (simp add: sorted_map not_less)

text \<open>Two sorted lists over the same distinct keys agree position by position.\<close>

lemma sorted_same_keys:
  assumes c: "sort_contract srt"
    and dx: "distinct (map inst_UUID xs)" and dy: "distinct (map inst_UUID ys)"
    and keys: "inst_UUID ` set xs = inst_UUID ` set ys"
  shows "map inst_UUID (sortInstances srt xs) = map inst_UUID (sortInstances srt ys)"
proof (rule sorted_distinct_set_unique)
  note perm = sortInstances_mset[OF c]
  have d: "distinct (map inst_UUID (sortInstances srt zs)) = distinct (map inst_UUID zs)" for zs
    using arg_cong[OF perm[of zs], of "image_mset inst_UUID"]
    by (metis mset_eq_imp_distinct_iff mset_map)
  show "distinct (map inst_UUID (sortInstances srt xs))"
    and "distinct (map inst_UUID (sortInstances srt ys))" using d dx dy by simp_all
  show "set (map inst_UUID (sortInstances srt xs)) = set (map inst_UUID (sortInstances srt ys))"
    using keys mset_eq_setD[OF perm[of xs]] mset_eq_setD[OF perm[of ys]] by simp
qed (rule sorted_by_UUID[OF c])+

lemma instances_same_sorted:
  assumes c: "sort_contract srt"
    and dx: "distinct (map inst_UUID xs)" and dy: "distinct (map inst_UUID ys)"
    and len: "length xs = length ys"
  shows "instances_same (sortInstances srt xs) (sortInstances srt ys) \<longleftrightarrow>
     (\<forall>x \<in> set xs. \<exists>y \<in> set ys. Instance_SameAs x y)" (is "?L \<longleftrightarrow> ?R")
proof -
  let ?xs = "sortInstances srt xs" and ?ys = "sortInstances srt ys"
  have sx: "set ?xs = set xs" and sy: "set ?ys = set ys"
    using sortInstances_mset[OF c] by (metis mset_eq_setD)+
  have l: "length ?xs = length ?ys" using len by (simp add: sortInstances_length[OF c])
  have L: "?L \<longleftrightarrow> (\<forall>k < length ?xs. Instance_SameAs (?xs ! k) (?ys ! k))"
    using l by (simp add: instances_same_iff list_all2_conv_all_nth)
  show ?thesis
  proof
    assume ?L
    then show ?R
      unfolding L using sx sy l by (metis in_set_conv_nth)
  next
    assume R: ?R
    have "inst_UUID ` set xs \<subseteq> inst_UUID ` set ys"
      using R by (force dest: Instance_SameAs_UUID)
    moreover have "card (inst_UUID ` set xs) = card (inst_UUID ` set ys)"
      using dx dy len by (metis distinct_card length_map set_map)
    ultimately have "inst_UUID ` set xs = inst_UUID ` set ys" by (simp add: card_subset_eq)
    then have keys: "map inst_UUID ?xs = map inst_UUID ?ys" by (rule sorted_same_keys[OF c dx dy])
    have "Instance_SameAs (?xs ! k) (?ys ! k)" if k: "k < length ?xs" for k
    proof -
      have "?xs ! k \<in> set xs" using k sx by (metis nth_mem)
      with R obtain y where y: "y \<in> set ys" "Instance_SameAs (?xs ! k) y" by blast
      have "inst_UUID (?xs ! k) = inst_UUID (?ys ! k)"
        using keys k l by (metis nth_map)
      moreover have "?ys ! k \<in> set ys" using k l sy by (metis nth_mem)
      ultimately have "y = ?ys ! k"
        using y dy Instance_SameAs_UUID[OF y(2)] by (metis distinct_map inj_onD)
      with y(2) show ?thesis by simp
    qed
    then show ?L unfolding L by blast
  qed
qed

section \<open>Properties\<close>

text \<open>With distinct instance UUIDs, two replica sets compare equal exactly when they have
  the same UUID, master and size and every instance has an equal counterpart; the order in
  which the instances were discovered does not matter.  Of the call, only the order of the two
  slices remains.\<close>

theorem SameAs_order_insensitive:
  assumes "sort_contract srt"
    and "distinct (map inst_UUID (set_Instances rs))"
    and "distinct (map inst_UUID (set_Instances another))"
  shows "(fst (SameAs srt rs another) \<longleftrightarrow>
      set_UUID rs = set_UUID another \<and> set_MasterUUID rs = set_MasterUUID another \<and>
      length (set_Instances rs) = length (set_Instances another) \<and>
      (\<forall>x \<in> set (set_Instances rs). \<exists>y \<in> set (set_Instances another). Instance_SameAs x y)) \<and>
    mset (set_Instances (fst (snd (SameAs srt rs another)))) = mset (set_Instances rs) \<and>
    mset (set_Instances (snd (snd (SameAs srt rs another)))) = mset (set_Instances another)"
proof (cases "length (set_Instances rs) = length (set_Instances another)")
  case True
  show ?thesis
    unfolding SameAs_def Let_def using True instances_same_sorted[OF assms True]
    by (simp add: sortInstances_mset[OF assms(1)])
qed (simp add: SameAs_def)

theorem SameAs_order_insensitive_witness:
  "let a = zero_Instance\<lparr>inst_UUID := ''a''\<rparr>; b = zero_Instance\<lparr>inst_UUID := ''b'', inst_LSN := 4\<rparr>;
       b' = b\<lparr>inst_LSN := 7\<rparr>
   in fst (SameAs insertion_sort (zero_ReplicaSet\<lparr>set_Instances := [b, a]\<rparr>)
        (zero_ReplicaSet\<lparr>set_Instances := [a, b']\<rparr>))"
  unfolding Let_def
  by (subst SameAs_order_insensitive[OF insertion_sort_contract, THEN conjunct1])
    (simp_all add: zero_ReplicaSet_def zero_Instance_def Instance_SameAs_def)

text \<open>The alive followers are exactly the instances other than the master whose last check
  succeeded and whose upstream is neither disconnected nor stopped, or which have no upstream
  but a downstream that is not stopped; they keep the order of the snapshot.\<close>

theorem AliveFollowers_exact:
  "(inst \<in> set (AliveFollowers rs) \<longleftrightarrow>
     inst \<in> set (set_Instances rs) \<and> inst_UUID inst \<noteq> set_MasterUUID rs \<and> inst_LastCheckValid inst \<and>
     ((\<exists>u. inst_Upstream inst = Some u \<and> up_Status u \<notin> {UpstreamDisconnected, UpstreamStopped}) \<or>
      (inst_Upstream inst = None \<and>
       (\<exists>d. inst_Downstream inst = Some d \<and> down_Status d \<noteq> DownstreamStopped)))) \<and>
   (\<exists>P. AliveFollowers rs = filter P (set_Instances rs))"
  using AliveFollowers_eq[of rs] by (auto simp: alive_follower_iff)

end
