(* ===== verification/Vshard_Snapshot.thy ===== *)
theory Vshard_Snapshot
  imports Vshard_ReplicaSet
begin

text \<open>
  internal/vshard/router.go and internal/vshard/snapshot.go: what is known of the routers,
  and a copy of the cluster topology at a given time.

  The map of replica sets a router reports is the list of its entries, in the order an
  iteration meets them.  The priorities are a partial function; looking a missing key up
  is the \<open>ok = false\<close> of Go's two-value map read.
\<close>

type_synonym InstanceStatus = string

definition InstanceAvailable :: InstanceStatus where [simp]: "InstanceAvailable = ''available''"
definition InstanceUnreachable :: InstanceStatus where
  [simp]: "InstanceUnreachable = ''unreachable''"
definition InstanceMissing :: InstanceStatus where [simp]: "InstanceMissing = ''missing''"

record RouterInstanceParameters =
  rip_UUID :: InstanceUUID
  rip_Status :: InstanceStatus
  rip_URI :: string
  rip_NetworkTimeout :: float64

record RouterBucket =
  rb_AvailableRO :: int
  rb_AvailableRW :: int
  rb_Unknown :: int
  rb_Unreachable :: int

type_synonym RouterReplicaSetParameters = "(ReplicaSetUUID \<times> RouterInstanceParameters) list"

record RouterInfo =
  ri_LastSeen :: int
  ri_ReplicaSets :: RouterReplicaSetParameters
  ri_Bucket :: RouterBucket
  ri_Status :: int
  ri_Alerts :: "Alert list"

record Router =
  rt_URI :: string
  rt_Info :: RouterInfo

definition NewRouter :: "string \<Rightarrow> Router" where
  "NewRouter uri = \<lparr>rt_URI = uri,
     rt_Info = \<lparr>ri_LastSeen = 0, ri_ReplicaSets = [],
       ri_Bucket = \<lparr>rb_AvailableRO = 0, rb_AvailableRW = 0, rb_Unknown = 0, rb_Unreachable = 0\<rparr>,
       ri_Status = -1, ri_Alerts = []\<rparr>\<rparr>"

section \<open>Snapshots\<close>

record Snapshot =
  sn_Created :: int
  sn_Routers :: "Router list"
  sn_ReplicaSets :: "ReplicaSet list"
  sn_priorities :: "string \<rightharpoonup> int"

datatype snapshot_error = ErrReplicaSetNotFound

fun worst_code :: "HealthCode \<Rightarrow> ReplicaSet list \<Rightarrow> HealthCode" where
  "worst_code hc [] = hc"
| "worst_code hc (rs # sets) =
     (let gotHC = fst (HealthStatus rs)
      in worst_code (if hc < gotHC then gotHC else hc) sets)"

definition healthLevel :: "HealthCode \<Rightarrow> HealthLevel" where
  "healthLevel c =
     (if c = HealthCodeGreen then HealthLevelGreen
      else if c = HealthCodeYellow then HealthLevelYellow
      else if c = HealthCodeOrange then HealthLevelOrange
      else if c = HealthCodeRed then HealthLevelRed
      else HealthLevelUnknown)"

definition ClusterHealthLevel :: "Snapshot \<Rightarrow> HealthLevel" where
  "ClusterHealthLevel s = healthLevel (worst_code HealthCodeGreen (sn_ReplicaSets s))"

definition Snapshot_Copy :: "Snapshot \<Rightarrow> Snapshot" where
  "Snapshot_Copy s = \<lparr>sn_Created = sn_Created s, sn_Routers = sn_Routers s,
     sn_ReplicaSets = map ReplicaSet_Copy (sn_ReplicaSets s), sn_priorities = sn_priorities s\<rparr>"

definition TopologyOf :: "Snapshot \<Rightarrow> ReplicaSetUUID \<Rightarrow> (snapshot_error, Instance list) go_result" where
  "TopologyOf s uuid =
     (case find (\<lambda>rs. set_UUID rs = uuid) (sn_ReplicaSets s) of
        Some rs \<Rightarrow> Inr (set_Instances rs)
      | None \<Rightarrow> Inl ErrReplicaSetNotFound)"

definition Snapshot_ReplicaSet :: "Snapshot \<Rightarrow> ReplicaSetUUID \<Rightarrow> (snapshot_error, ReplicaSet) go_result" where
  "Snapshot_ReplicaSet s uuid =
     (case find (\<lambda>rs. set_UUID rs = uuid) (sn_ReplicaSets s) of
        Some rs \<Rightarrow> Inr rs
      | None \<Rightarrow> Inl ErrReplicaSetNotFound)"

definition set_priority :: "(string \<rightharpoonup> int) \<Rightarrow> Instance \<Rightarrow> Instance" where
  "set_priority priorities inst =
     (case priorities (inst_UUID inst) of
        Some priority \<Rightarrow> inst\<lparr>inst_Priority := priority\<rparr>
      | None \<Rightarrow> inst\<lparr>inst_Priority := 0\<rparr>)"

definition UpdatePriorities :: "(string \<rightharpoonup> int) \<Rightarrow> Snapshot \<Rightarrow> Snapshot" where
  "UpdatePriorities priorities s =
     s\<lparr>sn_priorities := priorities,
       sn_ReplicaSets :=
         map (\<lambda>rs. rs\<lparr>set_Instances := map (set_priority priorities) (set_Instances rs)\<rparr>)
           (sn_ReplicaSets s)\<rparr>"

section \<open>Lemmas\<close>

lemma ReplicaSet_Copy_id [simp]: "ReplicaSet_Copy rs = rs"
  by (simp add: ReplicaSet_Copy_def)

lemma Snapshot_Copy_id [simp]: "Snapshot_Copy s = s"
proof -
  have "map ReplicaSet_Copy xs = xs" for xs by (induction xs) auto
  then show ?thesis by (simp add: Snapshot_Copy_def)
qed

lemma worst_code_Max: "worst_code hc sets = Max (insert hc ((fst \<circ> HealthStatus) ` set sets))"
proof (induction sets arbitrary: hc)
  case (Cons rs sets)
  let ?c = "fst (HealthStatus rs)" and ?C = "(fst \<circ> HealthStatus) ` set sets"
  have "(if hc < ?c then ?c else hc) = max hc ?c" by simp
  then have "worst_code hc (rs # sets) = Max (insert (max hc ?c) ?C)"
    using Cons[of "max hc ?c"] by (simp only: worst_code.simps Let_def)
  also have "\<dots> = Max (insert hc (insert ?c ?C))"
    by (cases "?C = {}") (simp_all add: max.assoc)
  finally show ?case by simp
qed simp

lemma TopologyOf_ReplicaSet:
  "TopologyOf s uuid = bindR (Snapshot_ReplicaSet s uuid) (\<lambda>rs. Inr (set_Instances rs))"
  by (simp add: TopologyOf_def Snapshot_ReplicaSet_def split: option.split)

lemma Snapshot_ReplicaSet_Inr:
  "Snapshot_ReplicaSet s uuid = Inr rs \<Longrightarrow> rs \<in> set (sn_ReplicaSets s) \<and> set_UUID rs = uuid"
  by (auto simp: Snapshot_ReplicaSet_def split: option.splits dest: find_SomeD)

lemma set_priority_simps [simp]:
  "inst_Priority (set_priority p i) = (case p (inst_UUID i) of Some v \<Rightarrow> v | None \<Rightarrow> 0)"
  "inst_UUID (set_priority p i) = inst_UUID i"
  "inst_URI (set_priority p i) = inst_URI i"
  "inst_Upstream (set_priority p i) = inst_Upstream i"
  "inst_Downstream (set_priority p i) = inst_Downstream i"
  "inst_LastCheckValid (set_priority p i) = inst_LastCheckValid i"
  "inst_StorageInfo (set_priority p i) = inst_StorageInfo i"
  "inst_VShardFingerprint (set_priority p i) = inst_VShardFingerprint i"
  "inst_LSNBehindMaster (set_priority p i) = inst_LSNBehindMaster i"
  by (auto simp: set_priority_def split: option.split)

lemma UpdatePriorities_simps [simp]:
  "sn_Created (UpdatePriorities p s) = sn_Created s"
  "sn_Routers (UpdatePriorities p s) = sn_Routers s"
  "sn_priorities (UpdatePriorities p s) = p"
  "length (sn_ReplicaSets (UpdatePriorities p s)) = length (sn_ReplicaSets s)"
  by (simp_all add: UpdatePriorities_def)

text \<open>
  The state invariant of a snapshot: every instance carries the priority configured for its
  UUID, and 0 without one.
\<close>

definition priorities_applied :: "Snapshot \<Rightarrow> bool" where
  "priorities_applied s \<longleftrightarrow>
     (\<forall>rs \<in> set (sn_ReplicaSets s). \<forall>inst \<in> set (set_Instances rs).
        inst_Priority inst = (case sn_priorities s (inst_UUID inst) of Some v \<Rightarrow> v | None \<Rightarrow> 0))"

lemma UpdatePriorities_applied [go_inv, simp]: "priorities_applied (UpdatePriorities p s)"
  by (auto simp: priorities_applied_def UpdatePriorities_def)

lemma ClusterHealthLevel_max:
  "ClusterHealthLevel s =
     healthLevel (Max (insert HealthCodeGreen ((\<lambda>rs. fst (HealthStatus rs)) ` set (sn_ReplicaSets s))))"
  using worst_code_Max[of HealthCodeGreen "sn_ReplicaSets s"] by (simp add: ClusterHealthLevel_def comp_def)

section \<open>Properties\<close>

text \<open>C21: when every master reports one of the documented codes, a cluster is at least as ill as
  each of its replica sets, and no worse than the worst of them; a set whose master is missing
  counts as unknown, the worst level.\<close>

theorem ClusterHealthLevel_bounds:
  assumes "\<forall>rs \<in> set (sn_ReplicaSets s). 0 \<le> fst (HealthStatus rs) \<and> fst (HealthStatus rs) \<le> 4"
  shows "(\<forall>rs \<in> set (sn_ReplicaSets s). snd (HealthStatus rs) \<le> ClusterHealthLevel s) \<and>
    (sn_ReplicaSets s = [] \<or>
     (\<exists>rs \<in> set (sn_ReplicaSets s). snd (HealthStatus rs) = ClusterHealthLevel s))"
proof -
  let ?C = "(\<lambda>rs. fst (HealthStatus rs)) ` set (sn_ReplicaSets s)"
  have lev: "snd (HealthStatus rs) = healthLevel (fst (HealthStatus rs))" for rs
    by (auto simp: HealthStatus_def healthLevel_def CriticalLevel_def split: sum.split)
  have mono: "healthLevel a \<le> healthLevel b" if "a \<le> b" "0 \<le> a" "b \<le> 4" for a b
    using that by (auto simp: healthLevel_def less_eq_HealthLevel_def)
  define M where "M = Max (insert 0 ?C)"
  have M: "ClusterHealthLevel s = healthLevel M"
    using ClusterHealthLevel_max[of s] by (simp add: M_def)
  have in_M: "M \<in> insert 0 ?C" unfolding M_def by (rule Max_in) simp_all
  with assms have b: "0 \<le> M" "M \<le> 4" by auto
  have up: "c \<le> M" if "c \<in> ?C" for c unfolding M_def using that by (intro Max_ge) auto
  have "\<forall>rs \<in> set (sn_ReplicaSets s). snd (HealthStatus rs) \<le> ClusterHealthLevel s"
    using assms up b unfolding M lev by (auto intro!: mono)
  moreover have "\<exists>rs \<in> set (sn_ReplicaSets s). snd (HealthStatus rs) = ClusterHealthLevel s"
    if r0: "rs0 \<in> set (sn_ReplicaSets s)" for rs0
  proof -
    have "M \<in> ?C"
    proof (cases "M = 0")
      case True
      with r0 assms up have "fst (HealthStatus rs0) = M" by (metis antisym imageI)
      with r0 show ?thesis by (metis imageI)
    next
      case False
      with in_M show ?thesis by simp
    qed
    then show ?thesis unfolding M lev by auto
  qed
  ultimately show ?thesis by (metis list.set_intros(1) neq_Nil_conv)
qed

theorem ClusterHealthLevel_bounds_witness:
  "let m = zero_Instance\<lparr>inst_UUID := ''a''\<rparr>;
       r = zero_ReplicaSet\<lparr>set_MasterUUID := ''a'', set_Instances := [m]\<rparr>
   in HealthLevelUnknown \<le> ClusterHealthLevel
        \<lparr>sn_Created = 1, sn_Routers = [], sn_ReplicaSets = [r, zero_ReplicaSet], sn_priorities = Map.empty\<rparr>"
proof -
  let ?m = "zero_Instance\<lparr>inst_UUID := ''a''\<rparr>"
  let ?r = "zero_ReplicaSet\<lparr>set_MasterUUID := ''a'', set_Instances := [?m]\<rparr>"
  let ?s = "\<lparr>sn_Created = 1, sn_Routers = [], sn_ReplicaSets = [?r, zero_ReplicaSet],
    sn_priorities = Map.empty\<rparr> :: Snapshot"
  have h: "HealthStatus ?r = (0, HealthLevelGreen)" "HealthStatus zero_ReplicaSet = (4, HealthLevelUnknown)"
    by (simp_all add: HealthStatus_def Master_def zero_ReplicaSet_def zero_Instance_def CriticalCode_def
        CriticalLevel_def zero_StorageInfo_def)
  have "\<forall>rs \<in> set (sn_ReplicaSets ?s). snd (HealthStatus rs) \<le> ClusterHealthLevel ?s"
    by (rule ClusterHealthLevel_bounds[THEN conjunct1]) (simp add: h)
  then show ?thesis by (simp add: Let_def h)
qed

end
