(* ===== verification/Orch_Analysis.thy ===== *)
theory Orch_Analysis
  imports Vshard_Snapshot
begin

text \<open>
  internal/vshard/orchestrator/analysis.go, the function \<open>analyze\<close> of monitor.go and
  sampler.go: the diagnosis of one replica set and the sampling of its log line.

  \<open>analyze\<close> returns nil (here \<open>None\<close>) when the master is not among the instances.  Its
  loop over the followers is \<open>tally_step\<close> folded over them, its chain of conditions
  \<open>decide_state\<close>.  Counters never exceed a slice length, so they are natural numbers.
  The state type has only the ten constants of the source, so it is a datatype.
\<close>

datatype ReplicaSetState =
    NoProblem
  | DeadMaster
  | DeadMasterAndFollowers
  | DeadMasterAndSomeFollowers
  | DeadMasterWithoutFollowers
  | DeadFollowers
  | AllMasterFollowersNotReplicating
  | NetworkProblems
  | MasterMasterReplication
  | InconsistentVShardConfiguration

definition ReplicaSetStateEnum :: "ReplicaSetState list" where
  "ReplicaSetStateEnum =
     [NoProblem, DeadMaster, DeadMasterAndFollowers, DeadMasterAndSomeFollowers,
      DeadMasterWithoutFollowers, DeadFollowers, AllMasterFollowersNotReplicating,
      NetworkProblems, MasterMasterReplication, InconsistentVShardConfiguration]"

fun state_string :: "ReplicaSetState \<Rightarrow> string" where
  "state_string NoProblem = ''NoProblem''"
| "state_string DeadMaster = ''DeadMaster''"
| "state_string DeadMasterAndFollowers = ''DeadMasterAndFollowers''"
| "state_string DeadMasterAndSomeFollowers = ''DeadMasterAndSomeFollowers''"
| "state_string DeadMasterWithoutFollowers = ''DeadMasterWithoutFollowers''"
| "state_string DeadFollowers = ''DeadFollowers''"
| "state_string AllMasterFollowersNotReplicating = ''AllMasterFollowersNotReplicating''"
| "state_string NetworkProblems = ''NetworkProblems''"
| "state_string MasterMasterReplication = ''MasterMasterReplication''"
| "state_string InconsistentVShardConfiguration = ''InconsistentVShardConfiguration''"

record ReplicationAnalysis =
  an_Set :: ReplicaSet
  an_CountReplicas :: nat
  an_CountWorkingReplicas :: nat
  an_CountReplicatingReplicas :: nat
  an_CountInconsistentVShardConf :: nat
  an_State :: ReplicaSetState
  an_DeadFollowers :: "string list"

definition Analysis_String :: "ReplicationAnalysis \<Rightarrow> string" where
  "Analysis_String a =
     ''[State: '' @ state_string (an_State a)
     @ ''; CountReplicas: '' @ Itoa (int (an_CountReplicas a))
     @ ''; CountWorkingReplicas: '' @ Itoa (int (an_CountWorkingReplicas a))
     @ ''; CountReplicatingReplicas: '' @ Itoa (int (an_CountReplicatingReplicas a)) @ '']''"

text \<open>
  \<open>GetHash\<close> writes these strings to a SHA-256 digest, whose writes do not fail, and
  encodes the sum; \<open>sha256_hex\<close> stands for that library function of the bytes written.
\<close>

definition GetHash_bytes :: "ReplicationAnalysis \<Rightarrow> string" where
  "GetHash_bytes a =
     concat [state_string (an_State a),
             Itoa (int (an_CountReplicas a)),
             Itoa (int (an_CountWorkingReplicas a)),
             Itoa (int (an_CountReplicatingReplicas a)),
             Itoa (int (an_CountInconsistentVShardConf a)),
             ReplicaSet_String (an_Set a)]"

definition GetHash :: "(string \<Rightarrow> string) \<Rightarrow> ReplicationAnalysis \<Rightarrow> string" where
  "GetHash sha256_hex a = sha256_hex (GetHash_bytes a)"

section \<open>The analysis\<close>

record tally =
  countReplicas :: nat
  countWorkingReplicas :: nat
  countReplicatingReplicas :: nat
  countInconsistentVShardConf :: nat
  masterMasterReplication :: bool
  deadFollowers :: "string list"

definition tally0 :: tally where
  "tally0 = \<lparr>countReplicas = 0, countWorkingReplicas = 0, countReplicatingReplicas = 0,
     countInconsistentVShardConf = 0, masterMasterReplication = False, deadFollowers = []\<rparr>"

definition tally_status :: "Instance \<Rightarrow> tally \<Rightarrow> tally" where
  "tally_status r t =
     (let status = si_Replication_Status (inst_StorageInfo r)
      in if status = StatusFollow
         then t\<lparr>countReplicatingReplicas := countReplicatingReplicas t + 1\<rparr>
         else if status = StatusMaster
         then t\<lparr>countReplicatingReplicas := countReplicatingReplicas t + 1,
                masterMasterReplication := True\<rparr>
         else t\<lparr>deadFollowers := deadFollowers t @ [inst_UUID r]\<rparr>)"

definition tally_step :: "Instance \<Rightarrow> Instance \<Rightarrow> tally \<Rightarrow> tally" where
  "tally_step master r t =
     (let t = t\<lparr>countReplicas := countReplicas t + 1\<rparr>
      in if inst_LastCheckValid r
         then let t = t\<lparr>countWorkingReplicas := countWorkingReplicas t + 1\<rparr>;
                  t = tally_status r t
              in if inst_VShardFingerprint r \<noteq> inst_VShardFingerprint master
                 then t\<lparr>countInconsistentVShardConf := countInconsistentVShardConf t + 1\<rparr>
                 else t
         else t)"

definition decide_state :: "bool \<Rightarrow> tally \<Rightarrow> ReplicaSetState" where
  "decide_state isMasterDead t =
     (if isMasterDead \<and> countWorkingReplicas t = countReplicas t \<and> countReplicatingReplicas t = 0
      then if countReplicas t = 0 then DeadMasterWithoutFollowers else DeadMaster
      else if isMasterDead \<and> countWorkingReplicas t \<le> countReplicas t \<and>
              countReplicatingReplicas t = 0
      then if countWorkingReplicas t = 0 then DeadMasterAndFollowers
           else DeadMasterAndSomeFollowers
      else if isMasterDead \<and> countReplicatingReplicas t \<noteq> 0 then NetworkProblems
      else if \<not> isMasterDead \<and> countReplicas t > 0 \<and> countReplicatingReplicas t = 0
      then AllMasterFollowersNotReplicating
      else if countInconsistentVShardConf t > 0
      then if masterMasterReplication t then MasterMasterReplication
           else InconsistentVShardConfiguration
      else if \<not> isMasterDead \<and> countReplicas t > 0 \<and>
              countReplicatingReplicas t < countReplicas t
      then DeadFollowers
      else NoProblem)"

definition analyze :: "ReplicaSet \<Rightarrow> ReplicationAnalysis option" where
  "analyze rs =
     (case Master rs of
        Inl _ \<Rightarrow> None
      | Inr master \<Rightarrow>
          let t = fold (tally_step master) (Followers rs) tally0;
              isMasterDead = (\<not> inst_LastCheckValid master)
          in Some \<lparr>an_Set = rs,
                   an_CountReplicas = countReplicas t,
                   an_CountWorkingReplicas = countWorkingReplicas t,
                   an_CountReplicatingReplicas = countReplicatingReplicas t,
                   an_CountInconsistentVShardConf = countInconsistentVShardConf t,
                   an_State = decide_state isMasterDead t,
                   an_DeadFollowers = deadFollowers t\<rparr>)"

section \<open>The log sampler\<close>

datatype log_level = DebugLevel | InfoLevel

record sampler =
  smp_enabled :: bool
  smp_fingerprints :: "string \<rightharpoonup> string"

definition sample :: "(string \<Rightarrow> string) \<Rightarrow> ReplicationAnalysis \<Rightarrow> sampler \<Rightarrow> log_level \<times> sampler" where
  "sample sha256_hex analysis s =
     (if \<not> smp_enabled s then (InfoLevel, s)
      else let got = GetHash sha256_hex analysis; key = set_UUID (an_Set analysis)
           in if smp_fingerprints s key = Some got then (DebugLevel, s)
              else (InfoLevel, s\<lparr>smp_fingerprints := (smp_fingerprints s)(key \<mapsto> got)\<rparr>))"

section \<open>What the tally counts\<close>

definition replicating :: "Instance \<Rightarrow> bool" where
  "replicating r \<longleftrightarrow> inst_LastCheckValid r \<and>
     si_Replication_Status (inst_StorageInfo r) \<in> {StatusFollow, StatusMaster}"

definition claims_master :: "Instance \<Rightarrow> bool" where
  "claims_master r \<longleftrightarrow> inst_LastCheckValid r \<and>
     si_Replication_Status (inst_StorageInfo r) = StatusMaster"

definition inconsistent :: "Instance \<Rightarrow> Instance \<Rightarrow> bool" where
  "inconsistent master r \<longleftrightarrow> inst_LastCheckValid r \<and>
     inst_VShardFingerprint r \<noteq> inst_VShardFingerprint master"

definition not_replicating :: "Instance \<Rightarrow> bool" where
  "not_replicating r \<longleftrightarrow> inst_LastCheckValid r \<and>
     si_Replication_Status (inst_StorageInfo r) \<notin> {StatusFollow, StatusMaster}"

lemma tally_step_simps [simp]:
  "countReplicas (tally_step m r t) = Suc (countReplicas t)"
  "countWorkingReplicas (tally_step m r t) =
     countWorkingReplicas t + (if inst_LastCheckValid r then 1 else 0)"
  "countReplicatingReplicas (tally_step m r t) =
     countReplicatingReplicas t + (if replicating r then 1 else 0)"
  "countInconsistentVShardConf (tally_step m r t) =
     countInconsistentVShardConf t + (if inconsistent m r then 1 else 0)"
  "masterMasterReplication (tally_step m r t) = (masterMasterReplication t \<or> claims_master r)"
  "deadFollowers (tally_step m r t) =
     deadFollowers t @ (if not_replicating r then [inst_UUID r] else [])"
  by (simp_all add: tally_step_def tally_status_def Let_def replicating_def inconsistent_def
      claims_master_def not_replicating_def)

lemma tally_fold:
  "countReplicas (fold (tally_step m) fs t) = countReplicas t + length fs"
  "countWorkingReplicas (fold (tally_step m) fs t) =
     countWorkingReplicas t + length (filter inst_LastCheckValid fs)"
  "countReplicatingReplicas (fold (tally_step m) fs t) =
     countReplicatingReplicas t + length (filter replicating fs)"
  "countInconsistentVShardConf (fold (tally_step m) fs t) =
     countInconsistentVShardConf t + length (filter (inconsistent m) fs)"
  "masterMasterReplication (fold (tally_step m) fs t) =
     (masterMasterReplication t \<or> (\<exists>r \<in> set fs. claims_master r))"
  "deadFollowers (fold (tally_step m) fs t) =
     deadFollowers t @ map inst_UUID (filter not_replicating fs)"
  by (induction fs arbitrary: t) simp_all

lemma tally0_simps [simp]:
  "countReplicas tally0 = 0" "countWorkingReplicas tally0 = 0"
  "countReplicatingReplicas tally0 = 0" "countInconsistentVShardConf tally0 = 0"
  "masterMasterReplication tally0 = False" "deadFollowers tally0 = []"
  by (simp_all add: tally0_def)

lemmas tally_counts = tally_fold[where t = tally0, simplified]

text \<open>The analysis, with its counters spelled out.\<close>

lemma analyze_Some:
  assumes "analyze rs = Some a"
  obtains m where "Master rs = Inr m" "an_Set a = rs"
    "an_CountReplicas a = length (Followers rs)"
    "an_CountWorkingReplicas a = length (filter inst_LastCheckValid (Followers rs))"
    "an_CountReplicatingReplicas a = length (filter replicating (Followers rs))"
    "an_CountInconsistentVShardConf a = length (filter (inconsistent m) (Followers rs))"
    "an_DeadFollowers a = map inst_UUID (filter not_replicating (Followers rs))"
    "an_State a = decide_state (\<not> inst_LastCheckValid m) (fold (tally_step m) (Followers rs) tally0)"
  using assms by (auto simp: analyze_def Let_def tally_counts split: sum.splits)

lemma length_filter_replicating:
  "length (filter replicating fs) \<le> length (filter inst_LastCheckValid fs)"
  by (induction fs) (auto simp: replicating_def)

text \<open>
  The diagnosis as a reader would state it, over the followers rather than over counters.
\<close>

definition diagnosis :: "Instance \<Rightarrow> Instance list \<Rightarrow> ReplicaSetState" where
  "diagnosis m fs =
     (if \<not> inst_LastCheckValid m then
        if \<exists>f \<in> set fs. replicating f then NetworkProblems
        else if fs = [] then DeadMasterWithoutFollowers
        else if \<forall>f \<in> set fs. inst_LastCheckValid f then DeadMaster
        else if \<exists>f \<in> set fs. inst_LastCheckValid f then DeadMasterAndSomeFollowers
        else DeadMasterAndFollowers
      else
        if fs \<noteq> [] \<and> \<not> (\<exists>f \<in> set fs. replicating f) then AllMasterFollowersNotReplicating
        else if \<exists>f \<in> set fs. inconsistent m f then
          if \<exists>f \<in> set fs. claims_master f then MasterMasterReplication
          else InconsistentVShardConfiguration
        else if \<exists>f \<in> set fs. \<not> replicating f then DeadFollowers
        else NoProblem)"

lemma length_filter_eq_iff: "length (filter P xs) = length xs \<longleftrightarrow> (\<forall>x \<in> set xs. P x)"
  by (metis filter_True length_filter_less less_irrefl)

lemma length_filter_0_iff: "length (filter P xs) = 0 \<longleftrightarrow> \<not> (\<exists>x \<in> set xs. P x)"
  by (auto simp: filter_empty_conv)

lemma length_filter_less_iff: "length (filter P xs) < length xs \<longleftrightarrow> (\<exists>x \<in> set xs. \<not> P x)"
  using length_filter_le[of P xs] length_filter_eq_iff[of P xs] by (auto simp: le_less)

lemma decide_state_diagnosis:
  "decide_state (\<not> inst_LastCheckValid m) (fold (tally_step m) fs tally0) = diagnosis m fs"
proof -
  have w: "length (filter inst_LastCheckValid fs) \<le> length fs" by simp
  have z: "0 < length (filter (inconsistent m) fs) \<longleftrightarrow> (\<exists>f \<in> set fs. inconsistent m f)"
    using length_filter_0_iff[of "inconsistent m" fs] by linarith
  show ?thesis
    unfolding decide_state_def diagnosis_def tally_counts length_filter_eq_iff
      length_filter_0_iff length_filter_less_iff z
    using w by auto
qed

lemma analyze_diagnosis:
  "Master rs = Inr m \<Longrightarrow> \<exists>a. analyze rs = Some a \<and> an_State a = diagnosis m (Followers rs)"
  by (simp add: analyze_def Let_def decide_state_diagnosis)

section \<open>Properties\<close>

text \<open>C11: a replica set is analysed exactly when its master is among its instances, and the state
  is the documented diagnosis: it is decided by whether the master answers, whether followers
  answer, replicate, claim to be master or disagree with the master's configuration.\<close>

theorem analyze_states:
  "(case Master rs of
      Inl _ \<Rightarrow> analyze rs = None
    | Inr m \<Rightarrow> \<exists>a. analyze rs = Some a \<and> an_Set a = rs \<and> an_State a = diagnosis m (Followers rs))"
  by (simp add: analyze_def Let_def decide_state_diagnosis split: sum.split)

text \<open>C12: the counters of an analysis count the followers, those that answered, those among them
  that replicate and those whose configuration differs from the master's; so replicating
  followers are working ones and working ones are followers, and the list of dead followers
  names exactly the working followers that do not replicate.\<close>

theorem analyze_counters:
  assumes "analyze rs = Some a"
  shows "an_CountReplicas a = length (Followers rs) \<and>
     an_CountWorkingReplicas a = length (filter inst_LastCheckValid (Followers rs)) \<and>
     an_CountReplicatingReplicas a + length (an_DeadFollowers a) = an_CountWorkingReplicas a \<and>
     an_CountWorkingReplicas a \<le> an_CountReplicas a \<and>
     an_CountInconsistentVShardConf a \<le> an_CountWorkingReplicas a \<and>
     set (an_DeadFollowers a) = inst_UUID ` {f \<in> set (Followers rs). not_replicating f}"
proof -
  have split: "length (filter replicating fs) + length (filter not_replicating fs) =
      length (filter inst_LastCheckValid fs)" for fs
    by (induction fs) (auto simp: replicating_def not_replicating_def)
  have inc: "length (filter (inconsistent m) fs) \<le> length (filter inst_LastCheckValid fs)" for m fs
    by (induction fs) (auto simp: inconsistent_def)
  from assms show ?thesis
    by (rule analyze_Some) (simp add: split inc)
qed

theorem analyze_counters_witness:
  "let m = zero_Instance\<lparr>inst_UUID := ''m'', inst_LastCheckValid := True\<rparr>;
       f = zero_Instance\<lparr>inst_UUID := ''f'', inst_LastCheckValid := True\<rparr>;
       rs = \<lparr>set_UUID = ''s'', set_MasterUUID = ''m'', set_MasterURI = '''', set_Instances = [m, f]\<rparr>
   in \<exists>a. analyze rs = Some a \<and> set (an_DeadFollowers a) = {''f''} \<and> an_CountReplicas a = 1"
proof -
  let ?m = "zero_Instance\<lparr>inst_UUID := ''m'', inst_LastCheckValid := True\<rparr>"
  let ?f = "zero_Instance\<lparr>inst_UUID := ''f'', inst_LastCheckValid := True\<rparr>"
  let ?rs = "\<lparr>set_UUID = ''s'', set_MasterUUID = ''m'', set_MasterURI = '''', set_Instances = [?m, ?f]\<rparr>"
  have "Master ?rs = Inr ?m" by (simp add: Master_def)
  then obtain a where a: "analyze ?rs = Some a" using analyze_diagnosis by blast
  have "Followers ?rs = [?f]" by (simp add: Followers_eq zero_Instance_def)
  moreover have "not_replicating ?f"
    by (simp add: not_replicating_def zero_Instance_def zero_StorageInfo_def)
  ultimately have "{g \<in> set (Followers ?rs). not_replicating g} = {?f}" by auto
  then show ?thesis
    using analyze_counters[OF a] a \<open>Followers ?rs = [?f]\<close> by (simp add: Let_def)
qed

text \<open>The states on which a follower is promoted, DeadMaster and DeadMasterAndSomeFollowers,
  are diagnosed only when the last check of the master failed, at least one follower answered,
  and no follower that answered replicates from anybody or claims to be master.\<close>

theorem promotion_states_sound:
  assumes "analyze rs = Some a" and "an_State a \<in> {DeadMaster, DeadMasterAndSomeFollowers}"
  shows "\<exists>m. Master rs = Inr m \<and> \<not> inst_LastCheckValid m \<and>
     (\<exists>f \<in> set (Followers rs). inst_LastCheckValid f) \<and>
     (\<forall>f \<in> set (Followers rs). inst_LastCheckValid f \<longrightarrow>
        si_Replication_Status (inst_StorageInfo f) \<notin> {StatusFollow, StatusMaster})"
proof -
  from assms(1) obtain m where m: "Master rs = Inr m" and s: "an_State a = diagnosis m (Followers rs)"
    by (rule analyze_Some) (simp add: decide_state_diagnosis)
  have "\<not> inst_LastCheckValid m"
    using assms(2) s by (auto simp: diagnosis_def split: if_splits)
  moreover have "\<not> (\<exists>f \<in> set (Followers rs). replicating f)"
    using assms(2) s by (auto simp: diagnosis_def split: if_splits)
  moreover have "\<exists>f \<in> set (Followers rs). inst_LastCheckValid f"
    using assms(2) s by (cases "Followers rs") (auto simp: diagnosis_def split: if_splits)
  ultimately show ?thesis using m unfolding replicating_def by blast
qed

theorem promotion_states_sound_witness:
  "let m = zero_Instance\<lparr>inst_UUID := ''m''\<rparr>;
       f = zero_Instance\<lparr>inst_UUID := ''f'', inst_LastCheckValid := True\<rparr>;
       rs = \<lparr>set_UUID = ''s'', set_MasterUUID = ''m'', set_MasterURI = '''', set_Instances = [m, f]\<rparr>
   in \<exists>a. analyze rs = Some a \<and> an_State a = DeadMaster \<and>
        (\<exists>m'. Master rs = Inr m' \<and> \<not> inst_LastCheckValid m')"
proof -
  let ?m = "zero_Instance\<lparr>inst_UUID := ''m''\<rparr>"
  let ?f = "zero_Instance\<lparr>inst_UUID := ''f'', inst_LastCheckValid := True\<rparr>"
  let ?rs = "\<lparr>set_UUID = ''s'', set_MasterUUID = ''m'', set_MasterURI = '''', set_Instances = [?m, ?f]\<rparr>"
  have "Master ?rs = Inr ?m" by (simp add: Master_def)
  then obtain a where a: "analyze ?rs = Some a" "an_State a = diagnosis ?m (Followers ?rs)"
    using analyze_diagnosis by blast
  moreover have "Followers ?rs = [?f]" by (simp add: Followers_eq zero_Instance_def)
  ultimately have "an_State a = DeadMaster"
    by (simp add: diagnosis_def replicating_def zero_Instance_def zero_StorageInfo_def)
  with promotion_states_sound[OF a(1)] a(1) show ?thesis by (auto simp: Let_def)
qed

text \<open>The sampler lowers a log line to debug exactly when it is enabled and the last
  analysis of the same replica set had the same hash; afterwards, when enabled, it remembers
  this hash for that replica set and what it had for all others.\<close>

theorem sample_debug_iff_unchanged:
  "(fst (sample h a s) = DebugLevel \<longleftrightarrow>
      smp_enabled s \<and> smp_fingerprints s (set_UUID (an_Set a)) = Some (GetHash h a)) \<and>
   smp_fingerprints (snd (sample h a s)) =
     (if smp_enabled s then (smp_fingerprints s)(set_UUID (an_Set a) \<mapsto> GetHash h a)
      else smp_fingerprints s)"
  by (auto simp: sample_def Let_def fun_eq_iff)

end
