(* ===== verification/Vshard_Tarantool.thy ===== *)
theory Vshard_Tarantool
  imports Vshard_Instance
begin

text \<open>
  internal/vshard/tarantool.go: connection strings, connectors and the retry loop around a
  query.  The pool of connectors is in \<open>Vshard_Pool\<close>.

  The client library is not part of the program.  What a connector's three calls do in
  one round of the loop is an \<open>attempt\<close> the environment chooses, and the two error codes
  that are retried are the fields of \<open>tnt_codes\<close>.
\<close>

section \<open>Values and results\<close>

text \<open>The dynamic types of \<open>interface{}\<close> values in a response; \<open>VOther\<close> is any other type.\<close>

datatype ivalue =
    VNil
  | VBool bool
  | VInt64 uint64
  | VUint64 uint64
  | VFloat float64
  | VStr string
  | VArr "ivalue list"
  | VMap "(string \<times> ivalue) list"
  | VOther string

record tnt_result =
  res_Error :: "string option"
  res_ErrorCode :: nat
  res_Data :: "ivalue list list"

record tnt_codes =
  tc_ErrNoConnection :: nat
  tc_ErrTimeout :: nat

section \<open>Connection strings\<close>

definition removeUserInfo :: "string \<Rightarrow> string" where
  "removeUserInfo uri =
     (case dropWhile (\<lambda>c. c \<noteq> CHR ''@'') uri of
        [] \<Rightarrow> uri
      | _ # rest \<Rightarrow> rest)"

definition overrideURI :: "string \<Rightarrow> (string \<rightharpoonup> string) \<Rightarrow> string" where
  "overrideURI uri rules = (case rules uri of Some u \<Rightarrow> u | None \<Rightarrow> uri)"

definition pool_key :: "(string \<rightharpoonup> string) \<Rightarrow> string \<Rightarrow> string" where
  "pool_key rules uri = (let u = removeUserInfo uri in overrideURI u rules)"

lemma removeUserInfo_none: "CHR ''@'' \<notin> set uri \<Longrightarrow> removeUserInfo uri = uri"
proof -
  assume "CHR ''@'' \<notin> set uri"
  then have "dropWhile (\<lambda>c. c \<noteq> CHR ''@'') uri = []" by (auto simp: dropWhile_eq_Nil_conv)
  then show ?thesis by (simp only: removeUserInfo_def list.case)
qed

lemma removeUserInfo_user:
  "CHR ''@'' \<notin> set user \<Longrightarrow> removeUserInfo (user @ ''@'' @ host) = host"
proof -
  assume "CHR ''@'' \<notin> set user"
  then have "dropWhile (\<lambda>c. c \<noteq> CHR ''@'') (user @ ''@'' @ host) = ''@'' @ host"
    by (subst dropWhile_append2) auto
  then show ?thesis by (simp only: removeUserInfo_def) simp
qed

section \<open>Connectors\<close>

record ConnOptions =
  co_User :: string
  co_Password :: string
  co_ConnectTimeout :: duration
  co_QueryTimeout :: duration

text \<open>
  The driver's connector behind a \<open>Connector\<close> is known by what it was made with, the options having
  been copied field by field, and by whether it was closed.
\<close>

record Connector =
  con_uri :: string
  con_opts :: ConnOptions
  con_closed :: bool

definition setupConnection :: "string \<Rightarrow> ConnOptions \<Rightarrow> Connector" where
  "setupConnection uri c =
     (let cfg = \<lparr>co_User = co_User c, co_Password = co_Password c, co_ConnectTimeout = co_ConnectTimeout c,
                 co_QueryTimeout = co_QueryTimeout c\<rparr>
      in \<lparr>con_uri = uri, con_opts = cfg, con_closed = False\<rparr>)"

definition Connector_Close :: "Connector \<Rightarrow> Connector" where
  "Connector_Close c = c\<lparr>con_closed := True\<rparr>"

lemma connector_simps [simp]:
  "con_uri (setupConnection uri c) = uri" "con_opts (setupConnection uri c) = c"
  "\<not> con_closed (setupConnection uri c)" "con_closed (Connector_Close x)"
  "con_uri (Connector_Close x) = con_uri x" "con_opts (Connector_Close x) = con_opts x"
  by (simp_all add: setupConnection_def Connector_Close_def Let_def)

section \<open>The retry loop\<close>

definition maxRetries :: nat where "maxRetries = 2"

definition tntRetryableErrors :: "tnt_codes \<Rightarrow> nat list" where
  "tntRetryableErrors codes = [tc_ErrNoConnection codes, tc_ErrTimeout codes]"

fun code_in :: "nat list \<Rightarrow> nat \<Rightarrow> bool" where
  "code_in [] code = False"
| "code_in (rc # rcs) code = (if rc = code then True else code_in rcs code)"

definition isRetryable :: "tnt_codes \<Rightarrow> nat \<Rightarrow> bool" where
  "isRetryable codes code = code_in (tntRetryableErrors codes) code"

datatype attempt = ConnectFailed string | ContextDone string | Responded tnt_result

definition error_result :: "string \<Rightarrow> nat \<Rightarrow> tnt_result" where
  "error_result e code = \<lparr>res_Error = Some e, res_ErrorCode = code, res_Data = []\<rparr>"

text \<open>
  \<open>exec_loop\<close> has \<open>k\<close> rounds left; \<open>attempts i\<close> is what round \<open>i\<close> meets.  It returns the
  response (\<open>None\<close> is the nil pointer \<open>resp\<close> starts as) and how many connections it closed.
\<close>

fun exec_loop :: "tnt_codes \<Rightarrow> (nat \<Rightarrow> attempt) \<Rightarrow> nat \<Rightarrow> nat \<Rightarrow> tnt_result option \<Rightarrow> nat
    \<Rightarrow> tnt_result option \<times> nat" where
  "exec_loop codes attempts 0 i resp closed = (resp, closed)"
| "exec_loop codes attempts (Suc k) i resp closed =
     (case attempts i of
        ConnectFailed e \<Rightarrow> (Some (error_result e 0), closed)
      | ContextDone e \<Rightarrow> (Some (error_result e (tc_ErrTimeout codes)), closed)
      | Responded r \<Rightarrow>
          if res_Error r \<noteq> None \<and> isRetryable codes (res_ErrorCode r)
          then exec_loop codes attempts k (Suc i) (Some r) (Suc closed)
          else (Some r, closed))"

definition Exec :: "tnt_codes \<Rightarrow> (nat \<Rightarrow> attempt) \<Rightarrow> tnt_result option \<times> nat" where
  "Exec codes attempts = exec_loop codes attempts maxRetries 0 None 0"

lemma isRetryable_iff:
  "isRetryable codes c \<longleftrightarrow> c = tc_ErrNoConnection codes \<or> c = tc_ErrTimeout codes"
  by (auto simp: isRetryable_def tntRetryableErrors_def)

definition retried :: "tnt_codes \<Rightarrow> attempt \<Rightarrow> bool" where
  "retried codes a =
     (case a of Responded r \<Rightarrow> res_Error r \<noteq> None \<and> isRetryable codes (res_ErrorCode r) | _ \<Rightarrow> False)"

definition attempt_result :: "tnt_codes \<Rightarrow> attempt \<Rightarrow> tnt_result" where
  "attempt_result codes a =
     (case a of ConnectFailed e \<Rightarrow> error_result e 0
      | ContextDone e \<Rightarrow> error_result e (tc_ErrTimeout codes)
      | Responded r \<Rightarrow> r)"

lemma retried_iff:
  "retried codes a \<longleftrightarrow>
     (\<exists>r e. a = Responded r \<and> res_Error r = Some e \<and>
        (res_ErrorCode r = tc_ErrNoConnection codes \<or> res_ErrorCode r = tc_ErrTimeout codes))"
  by (auto simp: retried_def isRetryable_iff split: attempt.split)

lemma exec_loop_Suc:
  "exec_loop codes attempts (Suc k) i resp closed =
     (if retried codes (attempts i)
      then exec_loop codes attempts k (Suc i) (Some (attempt_result codes (attempts i))) (Suc closed)
      else (Some (attempt_result codes (attempts i)), closed))"
  by (simp add: retried_def attempt_result_def split: attempt.split)

section \<open>Properties\<close>

text \<open>C19: a query makes at most two attempts.  The answer is that of the first attempt unless
  that one came back with an error coded \<open>ErrNoConnection\<close> or \<open>ErrTimeout\<close>; then its
  connection is closed and the answer is that of the second, whatever it is.  A failed connect
  or an expired context is final.  The result is never the nil pointer.\<close>

theorem Exec_attempts:
  "let again = (\<lambda>a. \<exists>r e. a = Responded r \<and> res_Error r = Some e \<and>
         (res_ErrorCode r = tc_ErrNoConnection codes \<or> res_ErrorCode r = tc_ErrTimeout codes))
   in Exec codes attempts =
     (if again (attempts 0)
      then (Some (attempt_result codes (attempts 1)), if again (attempts 1) then 2 else 1)
      else (Some (attempt_result codes (attempts 0)), 0))"
  unfolding Let_def retried_iff[symmetric] Exec_def maxRetries_def numeral_2_eq_2 exec_loop_Suc
  by simp

text \<open>The key under which a connector is kept has no user information of the URI, and the
  override rules are applied to it.\<close>

theorem pool_key_strips_user:
  assumes "CHR ''@'' \<notin> set user" and "CHR ''@'' \<notin> set host"
  shows "pool_key rules (user @ ''@'' @ host) = pool_key rules host \<and>
     pool_key rules host = (case rules host of Some h \<Rightarrow> h | None \<Rightarrow> host)"
  using assms by (simp add: pool_key_def Let_def removeUserInfo_user removeUserInfo_none overrideURI_def
      del: append_Cons)

theorem pool_key_strips_user_witness:
  "pool_key [''h:1'' \<mapsto> ''l:2''] ''qumomf:pw@h:1'' = ''l:2''"
  using pool_key_strips_user[of "''qumomf:pw''" "''h:1''" "[''h:1'' \<mapsto> ''l:2'']"] by simp

end
