(* ===== verification/Vshard_Parser.thy ===== *)
theory Vshard_Parser
  imports Vshard_Snapshot Vshard_Tarantool
begin

text \<open>
  internal/vshard/parser.go: reading the decoded responses of routers and instances.

  A \<open>map[string]interface{}\<close> is the list of its entries in the order an iteration meets
  them; its keys are distinct, and reading a missing key gives nil, which no type switch of
  the file accepts.  Error values keep which check failed; the texts of the messages are not
  modelled.  The conversions \<open>int64(t)\<close> and \<open>uint64(t)\<close> reinterpret the 64 bits.
\<close>

datatype parse_error =
    ErrEmptyResponse
  | ErrNoRouterInfo
  | ErrNoInstanceInfo
  | ErrNoReplicationInfo
  | ErrCast
  | ErrField string
  | ErrAlertsType
  | ErrAlertStrings

type_synonym container = "(string \<times> ivalue) list"
type_synonym 'a parsed = "(parse_error, 'a) go_result"

section \<open>Typed access to a container\<close>

definition field :: "container \<Rightarrow> string \<Rightarrow> ivalue" where
  "field c key = (case map_of c key of Some v \<Rightarrow> v | None \<Rightarrow> VNil)"

definition has_key :: "container \<Rightarrow> string \<Rightarrow> bool" where
  "has_key c key = (map_of c key \<noteq> None)"

fun castToContainer :: "ivalue \<Rightarrow> container parsed" where
  "castToContainer (VMap dt) = Inr dt"
| "castToContainer _ = Inl ErrCast"

definition getInt64 :: "container \<Rightarrow> string \<Rightarrow> int parsed" where
  "getInt64 c key =
     (case field c key of
        VInt64 t \<Rightarrow> Inr (sint t)
      | VUint64 t \<Rightarrow> Inr (sint t)
      | _ \<Rightarrow> Inl (ErrField key))"

definition getUInt64 :: "container \<Rightarrow> string \<Rightarrow> uint64 parsed" where
  "getUInt64 c key =
     (case field c key of
        VInt64 t \<Rightarrow> Inr t
      | VUint64 t \<Rightarrow> Inr t
      | _ \<Rightarrow> Inl (ErrField key))"

definition getFloat64 :: "container \<Rightarrow> string \<Rightarrow> float64 parsed" where
  "getFloat64 c key =
     (case field c key of
        VFloat t \<Rightarrow> Inr t
      | VUint64 t \<Rightarrow> Inr (f64_of_int (uint t))
      | VInt64 t \<Rightarrow> Inr (f64_of_int (sint t))
      | _ \<Rightarrow> Inl (ErrField key))"

definition getArray :: "container \<Rightarrow> string \<Rightarrow> ivalue list parsed" where
  "getArray c key = (case field c key of VArr v \<Rightarrow> Inr v | _ \<Rightarrow> Inl (ErrField key))"

definition getContainer :: "container \<Rightarrow> string \<Rightarrow> container parsed" where
  "getContainer c key =
     (case castToContainer (field c key) of Inl _ \<Rightarrow> Inl (ErrField key) | Inr v \<Rightarrow> Inr v)"

definition getString :: "container \<Rightarrow> string \<Rightarrow> string parsed" where
  "getString c key = (case field c key of VStr v \<Rightarrow> Inr v | _ \<Rightarrow> Inl (ErrField key))"

definition getBool :: "container \<Rightarrow> string \<Rightarrow> bool parsed" where
  "getBool c key = (case field c key of VBool v \<Rightarrow> Inr v | _ \<Rightarrow> Inl (ErrField key))"

section \<open>Alerts\<close>

fun parse_alert_list :: "ivalue list \<Rightarrow> Alert list \<Rightarrow> Alert list parsed" where
  "parse_alert_list [] alerts = Inr alerts"
| "parse_alert_list (VArr arr # mp) alerts =
     (case arr of
        a0 # a1 # _ \<Rightarrow>
          (case a0 of
             VStr aType \<Rightarrow>
               (case a1 of
                  VStr aDesc \<Rightarrow>
                    parse_alert_list mp
                      (alerts @ [\<lparr>alert_Type = aType, alert_Description = aDesc\<rparr>])
                | _ \<Rightarrow> Inl ErrAlertStrings)
           | _ \<Rightarrow> Inl ErrAlertStrings)
      | _ \<Rightarrow> parse_alert_list mp alerts)"
| "parse_alert_list (_ # mp) alerts = Inl ErrAlertsType"

definition parseAlerts :: "container \<Rightarrow> Alert list parsed" where
  "parseAlerts dt = bindR (getArray dt ''alerts'') (\<lambda>mp. parse_alert_list mp [])"

section \<open>Router info\<close>

definition parseRouterBucket :: "container \<Rightarrow> RouterBucket parsed" where
  "parseRouterBucket dt =
     bindR (getContainer dt ''bucket'') (\<lambda>mp.
     bindR (getInt64 mp ''available_ro'') (\<lambda>availableRO.
     bindR (getInt64 mp ''available_rw'') (\<lambda>availableRW.
     bindR (getInt64 mp ''unknown'') (\<lambda>unknown.
     bindR (getInt64 mp ''unreachable'') (\<lambda>unreachable.
     Inr \<lparr>rb_AvailableRO = availableRO, rb_AvailableRW = availableRW, rb_Unknown = unknown,
          rb_Unreachable = unreachable\<rparr>)))))"

definition parseRouterInstance :: "container \<Rightarrow> RouterInstanceParameters parsed" where
  "parseRouterInstance dt =
     bindR (getContainer dt ''master'') (\<lambda>mp.
     bindR (getString mp ''uuid'') (\<lambda>uuid.
     bindR (getString mp ''uri'') (\<lambda>uri.
     bindR (getString mp ''status'') (\<lambda>status.
     bindR (getFloat64 mp ''network_timeout'') (\<lambda>timeout.
     Inr \<lparr>rip_UUID = uuid, rip_Status = status, rip_URI = removeUserInfo uri,
          rip_NetworkTimeout = timeout\<rparr>)))))"

fun parse_replicaset_entries :: "container \<Rightarrow> RouterReplicaSetParameters parsed" where
  "parse_replicaset_entries [] = Inr []"
| "parse_replicaset_entries ((uuid, v) # mp) =
     bindR (castToContainer v) (\<lambda>vc.
     bindR (parseRouterInstance vc) (\<lambda>params.
     bindR (parse_replicaset_entries mp) (\<lambda>result.
     Inr ((uuid, params) # result))))"

definition parseRouterReplicaSets :: "container \<Rightarrow> RouterReplicaSetParameters parsed" where
  "parseRouterReplicaSets dt = bindR (getContainer dt ''replicasets'') parse_replicaset_entries"

definition ParseRouterInfo :: "ivalue list list \<Rightarrow> RouterInfo parsed" where
  "ParseRouterInfo data =
     (case data of
        [] \<Rightarrow> Inl ErrEmptyResponse
      | [] # _ \<Rightarrow> Inl ErrNoRouterInfo
      | (v # _) # _ \<Rightarrow>
          bindR (castToContainer v) (\<lambda>dt.
          bindR (parseAlerts dt) (\<lambda>alerts.
          bindR (getInt64 dt ''status'') (\<lambda>status.
          bindR (parseRouterBucket dt) (\<lambda>bucket.
          bindR (parseRouterReplicaSets dt) (\<lambda>sets.
          Inr \<lparr>ri_LastSeen = 0, ri_ReplicaSets = sets, ri_Bucket = bucket, ri_Status = status,
               ri_Alerts = alerts\<rparr>))))))"

section \<open>Instance info\<close>

definition parseInstanceBucket :: "container \<Rightarrow> InstanceBucket parsed" where
  "parseInstanceBucket dt =
     bindR (getContainer dt ''bucket'') (\<lambda>mp.
     bindR (getInt64 mp ''active'') (\<lambda>active.
     bindR (getInt64 mp ''garbage'') (\<lambda>garbage.
     bindR (getInt64 mp ''pinned'') (\<lambda>pinned.
     bindR (getInt64 mp ''receiving'') (\<lambda>receiving.
     bindR (getInt64 mp ''sending'') (\<lambda>sending.
     bindR (getInt64 mp ''total'') (\<lambda>total.
     Inr \<lparr>bkt_Active = active, bkt_Garbage = garbage, bkt_Pinned = pinned,
          bkt_Receiving = receiving, bkt_Sending = sending, bkt_Total = total\<rparr>)))))))"

definition parseStorageInfo :: "container \<Rightarrow> StorageInfo parsed" where
  "parseStorageInfo dt =
     (if \<not> has_key dt ''storage'' then Inr zero_StorageInfo
      else
        bindR (getContainer dt ''storage'') (\<lambda>s.
        bindR (getInt64 s ''status'') (\<lambda>setStatus.
        bindR (parseAlerts s) (\<lambda>alerts.
        bindR (getContainer s ''replication'') (\<lambda>replication.
        bindR (getString replication ''status'') (\<lambda>replStatus.
        bindR (parseInstanceBucket s) (\<lambda>bucket.
        Inr \<lparr>si_Status = setStatus, si_Replication_Status = replStatus, si_Bucket = bucket,
             si_Alerts = alerts\<rparr>)))))))"

definition ParseInstanceInfo :: "ivalue list list \<Rightarrow> InstanceInfo parsed" where
  "ParseInstanceInfo data =
     (case data of
        [] \<Rightarrow> Inl ErrEmptyResponse
      | [] # _ \<Rightarrow> Inl ErrNoInstanceInfo
      | (v # _) # _ \<Rightarrow>
          bindR (castToContainer v) (\<lambda>dt.
          bindR (getBool dt ''read_only'') (\<lambda>readonly.
          bindR (getUInt64 dt ''vshard_fingerprint'') (\<lambda>fingerprint.
          bindR (parseStorageInfo dt) (\<lambda>storageInfo.
          Inr \<lparr>info_Readonly = readonly, info_VShardFingerprint = fingerprint,
               info_StorageInfo = storageInfo\<rparr>)))))"

section \<open>Replication\<close>

definition parseUpstream :: "container \<Rightarrow> Upstream option parsed" where
  "parseUpstream dt =
     (if \<not> has_key dt ''upstream'' then Inr None
      else
        bindR (getContainer dt ''upstream'') (\<lambda>u.
        bindR (getString u ''peer'') (\<lambda>peer.
        bindR (getString u ''status'') (\<lambda>status.
        bindR (getFloat64 u ''idle'') (\<lambda>idle.
        bindR (getFloat64 u ''lag'') (\<lambda>lag.
        bindR (if has_key u ''message'' then getString u ''message'' else Inr '''') (\<lambda>message.
        Inr (Some \<lparr>up_Peer = peer, up_Status = status, up_Idle = idle, up_Lag = lag,
                   up_Message = message\<rparr>))))))))"

definition parseDownstream :: "container \<Rightarrow> Downstream option parsed" where
  "parseDownstream dt =
     (if \<not> has_key dt ''downstream'' then Inr None
      else
        bindR (getContainer dt ''downstream'') (\<lambda>u.
        bindR (getString u ''status'') (\<lambda>status.
        Inr (Some \<lparr>down_Status = status\<rparr>))))"

definition parse_replica :: "ivalue \<Rightarrow> Instance parsed" where
  "parse_replica t =
     bindR (castToContainer t) (\<lambda>mp.
     bindR (getUInt64 mp ''id'') (\<lambda>id.
     bindR (getString mp ''uuid'') (\<lambda>uuid.
     bindR (getInt64 mp ''lsn'') (\<lambda>lsn.
     bindR (if has_key mp ''lsn_behind_master'' then getInt64 mp ''lsn_behind_master''
            else Inr 0) (\<lambda>lsnBehindMaster.
     bindR (parseUpstream mp) (\<lambda>upstream.
     bindR (parseDownstream mp) (\<lambda>downstream.
     let uri = (case upstream of None \<Rightarrow> '''' | Some u \<Rightarrow> removeUserInfo (up_Peer u))
     in Inr (zero_Instance\<lparr>inst_ID := id, inst_UUID := uuid, inst_URI := uri, inst_LSN := lsn,
          inst_LSNBehindMaster := lsnBehindMaster, inst_Upstream := upstream,
          inst_Downstream := downstream\<rparr>))))))))"

fun parse_replicas :: "ivalue list \<Rightarrow> Instance list parsed" where
  "parse_replicas [] = Inr []"
| "parse_replicas (VNil # tuple) = parse_replicas tuple"
| "parse_replicas (t # tuple) =
     bindR (parse_replica t) (\<lambda>inst.
     bindR (parse_replicas tuple) (\<lambda>instances.
     Inr (inst # instances)))"

definition ParseReplication :: "ivalue list list \<Rightarrow> Instance list parsed" where
  "ParseReplication data =
     (case data of
        [] \<Rightarrow> Inl ErrEmptyResponse
      | [] # _ \<Rightarrow> Inl ErrNoReplicationInfo
      | tuple # _ \<Rightarrow> parse_replicas tuple)"

section \<open>Lemmas\<close>

lemma sint_bounds64: "- (2 ^ 63) \<le> sint (w :: uint64)" "sint (w :: uint64) < 2 ^ 63"
  using sint_ge[of w] sint_lt[of w] by simp_all

lemma sint_wrap64: "sint (w :: uint64) = (if uint w < 2 ^ 63 then uint w else uint w - 2 ^ 64)"
proof -
  have b: "0 \<le> uint w" "uint w < 2 ^ 64" using uint_lt2p[of w] by simp_all
  have s: "sint w = (uint w + 2 ^ 63) mod 2 ^ 64 - 2 ^ 63"
    by (simp add: sint_uint signed_take_bit_eq_take_bit_shift take_bit_eq_mod)
  show ?thesis
  proof (cases "uint w < 2 ^ 63")
    case True
    then have "(uint w + 2 ^ 63) mod 2 ^ 64 = uint w + 2 ^ 63"
      using b by (intro mod_pos_pos_trivial) simp_all
    with s True show ?thesis by simp
  next
    case False
    have "(uint w + 2 ^ 63) mod 2 ^ 64 = ((uint w - 2 ^ 63) + 2 ^ 64) mod 2 ^ 64" by (simp add: add.commute)
    also have "\<dots> = (uint w - 2 ^ 63) mod 2 ^ 64" by (rule mod_add_self2)
    also have "\<dots> = uint w - 2 ^ 63"
      using b False by (intro mod_pos_pos_trivial) simp_all
    finally have "(uint w + 2 ^ 63) mod 2 ^ 64 = uint w - 2 ^ 63" .
    with s False show ?thesis by simp
  qed
qed

lemma getInt64_Inr:
  "getInt64 c key = Inr n \<longleftrightarrow>
     (\<exists>w. (field c key = VInt64 w \<or> field c key = VUint64 w) \<and> n = sint w)"
  by (auto simp: getInt64_def split: ivalue.splits)

lemma getContainer_Inr: "getContainer c key = Inr m \<longleftrightarrow> field c key = VMap m"
  by (cases "field c key") (auto simp: getContainer_def)

lemma getString_Inr: "getString c key = Inr m \<longleftrightarrow> field c key = VStr m"
  by (cases "field c key") (auto simp: getString_def)

lemma parse_replicas_gaps: "parse_replicas ts = parse_replicas (filter (\<lambda>t. t \<noteq> VNil) ts)"
  by (induction ts rule: parse_replicas.induct) auto

lemma parse_replicas_Inr:
  "parse_replicas ts = Inr insts \<Longrightarrow>
     list_all2 (\<lambda>t inst. parse_replica t = Inr inst) (filter (\<lambda>t. t \<noteq> VNil) ts) insts"
  by (induction ts arbitrary: insts rule: parse_replicas.induct) (auto simp: bindR_Inr_iff)

lemma parse_replicaset_entries_keys:
  "parse_replicaset_entries mp = Inr res \<Longrightarrow> map fst res = map fst mp"
  by (induction mp arbitrary: res rule: parse_replicaset_entries.induct) (auto simp: bindR_Inr_iff)

lemma parse_replica_fields:
  assumes "parse_replica t = Inr inst"
  shows "inst_LastCheckValid inst = False" "inst_Priority inst = 0"
    "inst_StorageInfo inst = zero_StorageInfo"
    "inst_URI inst = (case inst_Upstream inst of None \<Rightarrow> '''' | Some u \<Rightarrow> removeUserInfo (up_Peer u))"
  using assms by (auto simp: parse_replica_def bindR_Inr_iff zero_Instance_def)

section \<open>The wire format\<close>

text \<open>
  The responses written back: what a router or an instance sends for given data.  The
  optional parts (an upstream message, a downstream) are sent when there is something in
  them, integers as \<open>int64\<close> where the field is one.
\<close>

definition int64 :: "int \<Rightarrow> ivalue" where "int64 n = VInt64 (word_of_int n)"

definition in_int64 :: "int \<Rightarrow> bool" where "in_int64 n \<longleftrightarrow> - (2 ^ 63) \<le> n \<and> n < 2 ^ 63"

definition encode_alerts :: "Alert list \<Rightarrow> ivalue" where
  "encode_alerts as = VArr (map (\<lambda>a. VArr [VStr (alert_Type a), VStr (alert_Description a)]) as)"

definition encode_upstream :: "Upstream \<Rightarrow> ivalue" where
  "encode_upstream u = VMap
     ([(''peer'', VStr (up_Peer u)), (''status'', VStr (up_Status u)), (''idle'', VFloat (up_Idle u)),
       (''lag'', VFloat (up_Lag u))]
      @ (if up_Message u = '''' then [] else [(''message'', VStr (up_Message u))]))"

definition encode_replica :: "Instance \<Rightarrow> ivalue" where
  "encode_replica i = VMap
     ([(''id'', VUint64 (inst_ID i)), (''uuid'', VStr (inst_UUID i)), (''lsn'', int64 (inst_LSN i)),
       (''lsn_behind_master'', int64 (inst_LSNBehindMaster i))]
      @ (case inst_Upstream i of None \<Rightarrow> [] | Some u \<Rightarrow> [(''upstream'', encode_upstream u)])
      @ (case inst_Downstream i of None \<Rightarrow> []
         | Some d \<Rightarrow> [(''downstream'', VMap [(''status'', VStr (down_Status d))])]))"

definition encode_info :: "InstanceInfo \<Rightarrow> ivalue" where
  "encode_info i = (let s = info_StorageInfo i; b = si_Bucket s in VMap
     [(''read_only'', VBool (info_Readonly i)),
      (''vshard_fingerprint'', VUint64 (info_VShardFingerprint i)),
      (''storage'', VMap
        [(''status'', int64 (si_Status s)), (''alerts'', encode_alerts (si_Alerts s)),
         (''replication'', VMap [(''status'', VStr (si_Replication_Status s))]),
         (''bucket'', VMap
           [(''active'', int64 (bkt_Active b)), (''garbage'', int64 (bkt_Garbage b)),
            (''pinned'', int64 (bkt_Pinned b)), (''receiving'', int64 (bkt_Receiving b)),
            (''sending'', int64 (bkt_Sending b)), (''total'', int64 (bkt_Total b))])])])"

definition encode_router_set :: "RouterInstanceParameters \<Rightarrow> ivalue" where
  "encode_router_set r = VMap [(''master'', VMap
     [(''uuid'', VStr (rip_UUID r)), (''uri'', VStr (rip_URI r)), (''status'', VStr (rip_Status r)),
      (''network_timeout'', VFloat (rip_NetworkTimeout r))])]"

definition encode_router_info :: "RouterInfo \<Rightarrow> ivalue" where
  "encode_router_info i = (let b = ri_Bucket i in VMap
     [(''alerts'', encode_alerts (ri_Alerts i)), (''status'', int64 (ri_Status i)),
      (''bucket'', VMap
        [(''available_ro'', int64 (rb_AvailableRO b)), (''available_rw'', int64 (rb_AvailableRW b)),
         (''unknown'', int64 (rb_Unknown b)), (''unreachable'', int64 (rb_Unreachable b))]),
      (''replicasets'', VMap (map (\<lambda>(uuid, r). (uuid, encode_router_set r)) (ri_ReplicaSets i)))])"

text \<open>The data a response can carry: numbers in range, and nothing the response does not say.\<close>

definition wf_replica :: "Instance \<Rightarrow> bool" where
  "wf_replica i \<longleftrightarrow> in_int64 (inst_LSN i) \<and> in_int64 (inst_LSNBehindMaster i) \<and>
     inst_URI i = (case inst_Upstream i of None \<Rightarrow> '''' | Some u \<Rightarrow> removeUserInfo (up_Peer u)) \<and>
     \<not> inst_Readonly i \<and> \<not> inst_LastCheckValid i \<and> inst_StorageInfo i = zero_StorageInfo \<and>
     inst_VShardFingerprint i = 0 \<and> inst_Priority i = 0"

definition wf_info :: "InstanceInfo \<Rightarrow> bool" where
  "wf_info i \<longleftrightarrow> (let s = info_StorageInfo i; b = si_Bucket s in
     list_all in_int64 [si_Status s, bkt_Active b, bkt_Garbage b, bkt_Pinned b, bkt_Receiving b,
       bkt_Sending b, bkt_Total b])"

definition wf_router_info :: "RouterInfo \<Rightarrow> bool" where
  "wf_router_info i \<longleftrightarrow> (let b = ri_Bucket i in
     ri_LastSeen i = 0 \<and>
     list_all in_int64 [ri_Status i, rb_AvailableRO b, rb_AvailableRW b, rb_Unknown b, rb_Unreachable b] \<and>
     list_all (\<lambda>(_, r). CHR ''@'' \<notin> set (rip_URI r)) (ri_ReplicaSets i))"

lemma sint_int64: "in_int64 n \<Longrightarrow> sint (word_of_int n :: uint64) = n"
  by (simp add: in_int64_def sint_sbintrunc' signed_take_bit_int_eq_self)

lemmas getters = getInt64_def getUInt64_def getFloat64_def getArray_def getContainer_def
  getString_def getBool_def field_def has_key_def int64_def sint_int64

lemma parse_alert_list_encode:
  "parse_alert_list (map (\<lambda>a. VArr [VStr (alert_Type a), VStr (alert_Description a)]) as) acc
     = Inr (acc @ as)"
  by (induction as arbitrary: acc) simp_all

lemma parseUpstream_encode:
  "map_of dt ''upstream'' = Some (encode_upstream u) \<Longrightarrow> parseUpstream dt = Inr (Some u)"
  by (cases "up_Message u = ''''") (simp_all add: parseUpstream_def encode_upstream_def getters)

lemma parseUpstream_missing: "map_of dt ''upstream'' = None \<Longrightarrow> parseUpstream dt = Inr None"
  by (simp add: parseUpstream_def getters)

lemma parseDownstream_missing: "map_of dt ''downstream'' = None \<Longrightarrow> parseDownstream dt = Inr None"
  by (simp add: parseDownstream_def getters)

lemma parseDownstream_encode:
  "map_of dt ''downstream'' = Some (VMap [(''status'', VStr (down_Status d))]) \<Longrightarrow>
   parseDownstream dt = Inr (Some d)"
  by (simp add: parseDownstream_def getters)

lemma parse_replica_encode:
  assumes "wf_replica i"
  shows "parse_replica (encode_replica i) = Inr i"
proof -
  obtain dt where dt: "encode_replica i = VMap dt" by (simp add: encode_replica_def)
  have up: "parseUpstream dt = Inr (inst_Upstream i)"
    using dt by (cases "inst_Upstream i"; cases "inst_Downstream i")
      (auto simp: encode_replica_def intro!: parseUpstream_encode parseUpstream_missing)
  have down: "parseDownstream dt = Inr (inst_Downstream i)"
    using dt by (cases "inst_Upstream i"; cases "inst_Downstream i")
      (auto simp: encode_replica_def intro!: parseDownstream_encode parseDownstream_missing)
  have keys: "map_of dt ''id'' = Some (VUint64 (inst_ID i))"
    "map_of dt ''uuid'' = Some (VStr (inst_UUID i))" "map_of dt ''lsn'' = Some (int64 (inst_LSN i))"
    "map_of dt ''lsn_behind_master'' = Some (int64 (inst_LSNBehindMaster i))"
    using dt by (auto simp: encode_replica_def)
  show ?thesis
    unfolding dt parse_replica_def using assms keys up down
    by (simp add: getters wf_replica_def zero_Instance_def)
qed

lemma parse_replicas_encode:
  "list_all wf_replica insts \<Longrightarrow> filter (\<lambda>t. t \<noteq> VNil) ts = map encode_replica insts \<Longrightarrow>
   parse_replicas ts = Inr insts"
proof -
  assume wf: "list_all wf_replica insts"
  have "parse_replicas (map encode_replica insts) = Inr insts"
    using wf
  proof (induction insts)
    case (Cons i insts)
    obtain dt where "encode_replica i = VMap dt" by (simp add: encode_replica_def)
    with Cons parse_replica_encode[of i] show ?case by simp
  qed simp
  then show "filter (\<lambda>t. t \<noteq> VNil) ts = map encode_replica insts \<Longrightarrow> ?thesis"
    by (subst parse_replicas_gaps) simp
qed

lemma parse_storage_encode:
  assumes "wf_info i" and "encode_info i = VMap dt"
  shows "parseStorageInfo dt = Inr (info_StorageInfo i)"
  using assms
  by (auto simp: encode_info_def wf_info_def Let_def parseStorageInfo_def parseInstanceBucket_def
      parseAlerts_def encode_alerts_def parse_alert_list_encode getters)

lemma parse_replicaset_entries_encode:
  "list_all (\<lambda>(_, r). CHR ''@'' \<notin> set (rip_URI r)) rs \<Longrightarrow>
   parse_replicaset_entries (map (\<lambda>(uuid, r). (uuid, encode_router_set r)) rs) = Inr rs"
proof (induction rs)
  case (Cons e rs)
  obtain uuid r where e: "e = (uuid, r)" by (cases e)
  have "parseRouterInstance [(''master'', VMap
     [(''uuid'', VStr (rip_UUID r)), (''uri'', VStr (rip_URI r)), (''status'', VStr (rip_Status r)),
      (''network_timeout'', VFloat (rip_NetworkTimeout r))])] = Inr r"
    using Cons.prems e by (simp add: parseRouterInstance_def getters removeUserInfo_none)
  with Cons e show ?case by (simp add: encode_router_set_def)
qed simp

lemma ParseReplication_encode:
  "list_all wf_replica insts \<Longrightarrow> filter (\<lambda>t. t \<noteq> VNil) ts = map encode_replica insts \<Longrightarrow> ts \<noteq> [] \<Longrightarrow>
   ParseReplication (ts # rest) = Inr insts"
  using parse_replicas_encode[of insts ts] by (cases ts) (simp_all add: ParseReplication_def)

lemma ParseInstanceInfo_encode:
  assumes "wf_info i"
  shows "ParseInstanceInfo ((encode_info i # xs) # rest) = Inr i"
proof -
  obtain dt where dt: "encode_info i = VMap dt" by (simp add: encode_info_def Let_def)
  have "field dt ''read_only'' = VBool (info_Readonly i)"
    "field dt ''vshard_fingerprint'' = VUint64 (info_VShardFingerprint i)"
    using dt by (auto simp: encode_info_def Let_def field_def)
  with parse_storage_encode[OF assms dt] dt show ?thesis
    by (simp add: ParseInstanceInfo_def getBool_def getUInt64_def)
qed

lemma ParseRouterInfo_encode:
  "wf_router_info i \<Longrightarrow> ParseRouterInfo ((encode_router_info i # xs) # rest) = Inr i"
  by (simp add: ParseRouterInfo_def encode_router_info_def wf_router_info_def Let_def
      parseAlerts_def encode_alerts_def parse_alert_list_encode parseRouterBucket_def
      parseRouterReplicaSets_def parse_replicaset_entries_encode getters)

section \<open>Properties\<close>

text \<open>Reading back a replication response gives exactly the instances it was written for,
  in order, whatever gaps the Lua table has between them.\<close>

theorem ParseReplication_roundtrip:
  assumes "list_all wf_replica insts"
    and "filter (\<lambda>t. t \<noteq> VNil) ts = map encode_replica insts" and "ts \<noteq> []"
  shows "ParseReplication (ts # rest) = Inr insts"
  using assms by (rule ParseReplication_encode)

theorem ParseReplication_roundtrip_witness:
  "let i = zero_Instance\<lparr>inst_UUID := ''u1'', inst_LSNBehindMaster := -5, inst_URI := ''h:1'',
         inst_Upstream := Some \<lparr>up_Peer = ''a@h:1'', up_Status = ''follow'', up_Idle = FFin 0,
           up_Lag = FFin 0, up_Message = ''''\<rparr>\<rparr>
   in ParseReplication [[VNil, encode_replica i, VNil]] = Inr [i]"
  unfolding Let_def
  by (rule ParseReplication_roundtrip)
    (simp_all add: wf_replica_def in_int64_def zero_Instance_def removeUserInfo_def encode_replica_def)

text \<open>A replication response is taken whole or not at all: it is accepted exactly when it
  has a first tuple, that tuple is not empty, and every entry of it that is not a gap is a
  readable instance.\<close>

theorem ParseReplication_all_or_nothing:
  "(\<exists>insts. ParseReplication data = Inr insts) \<longleftrightarrow>
   data \<noteq> [] \<and> hd data \<noteq> [] \<and>
   list_all (\<lambda>t. \<exists>inst. parse_replica t = Inr inst) (filter (\<lambda>t. t \<noteq> VNil) (hd data))"
proof -
  have "(\<exists>insts. parse_replicas ts = Inr insts) \<longleftrightarrow>
      list_all (\<lambda>t. \<exists>inst. parse_replica t = Inr inst) (filter (\<lambda>t. t \<noteq> VNil) ts)" for ts
    by (induction ts rule: parse_replicas.induct) (auto simp: bindR_Inr_iff)
  then show ?thesis by (auto simp: ParseReplication_def split: list.split)
qed

text \<open>Reading back an instance response gives the read-only flag, the fingerprint and the
  whole storage section it was written for.\<close>

theorem ParseInstanceInfo_roundtrip:
  assumes "wf_info i"
  shows "ParseInstanceInfo ((encode_info i # xs) # rest) = Inr i"
  using assms by (rule ParseInstanceInfo_encode)

theorem ParseInstanceInfo_roundtrip_witness:
  "let i = \<lparr>info_Readonly = True, info_VShardFingerprint = 42,
            info_StorageInfo = zero_StorageInfo\<lparr>si_Status := 3, si_Replication_Status := ''follow'',
              si_Alerts := [\<lparr>alert_Type = ''T'', alert_Description = ''D''\<rparr>]\<rparr>\<rparr>
   in ParseInstanceInfo [[encode_info i]] = Inr i"
  unfolding Let_def
  by (rule ParseInstanceInfo_roundtrip)
    (simp add: wf_info_def in_int64_def zero_StorageInfo_def zero_InstanceBucket_def)

text \<open>C20: reading back a router response gives every replica set with its master, the bucket
  counters, the status and the alerts, when the master URIs carry no user information.\<close>

theorem ParseRouterInfo_roundtrip:
  assumes "wf_router_info i"
  shows "ParseRouterInfo ((encode_router_info i # xs) # rest) = Inr i"
  using assms by (rule ParseRouterInfo_encode)

theorem ParseRouterInfo_roundtrip_witness:
  "let i = \<lparr>ri_LastSeen = 0,
            ri_ReplicaSets = [(''s1'', \<lparr>rip_UUID = ''u1'', rip_Status = ''available'',
              rip_URI = ''h:1'', rip_NetworkTimeout = f64_half\<rparr>)],
            ri_Bucket = \<lparr>rb_AvailableRO = 0, rb_AvailableRW = 7, rb_Unknown = 0, rb_Unreachable = 1\<rparr>,
            ri_Status = -1, ri_Alerts = []\<rparr>
   in ParseRouterInfo [[encode_router_info i]] = Inr i"
  unfolding Let_def
  by (rule ParseRouterInfo_roundtrip) (simp add: wf_router_info_def in_int64_def)

text \<open>An unsigned 64-bit number in a signed field wraps, and every number read lies in the
  signed range.\<close>

theorem getInt64_wraps:
  "getInt64 [(k, VUint64 w)] k = Inr (if uint w < 2 ^ 63 then uint w else uint w - 2 ^ 64) \<and>
   (\<forall>c n. getInt64 c k = Inr n \<longrightarrow> in_int64 n)"
  using sint_bounds64
  by (auto simp: getInt64_def field_def sint_wrap64 in_int64_def split: ivalue.splits)

theorem getInt64_wraps_witness:
  "getInt64 [(''lsn'', VUint64 (2 ^ 64 - 5))] ''lsn'' = Inr (- 5) \<and> in_int64 (- 5)"
  using getInt64_wraps[of "''lsn''" "2 ^ 64 - 5"] by (simp add: in_int64_def)

end
