(* ===== verification/Qumomf_Config.thy ===== *)
theory Qumomf_Config
  imports Qumomf_Prelude
begin

text \<open>
  internal/config: the configuration, its defaults, the inheritance of global options by the
  clusters and the validation.

  Pointer fields are options, durations are nanoseconds, the map of clusters is the list of
  its entries in the order an iteration meets them.  Reading the file and decoding YAML over
  the defaults are the arguments \<open>read\<close> and \<open>unmarshal\<close> of \<open>Setup\<close>.  A function that may
  dereference a nil \<open>Connection\<close> returns \<open>None\<close> for the panic.
\<close>

definition Millisecond :: duration where [simp]: "Millisecond = 1000000"
definition Second :: duration where [simp]: "Second = 1000 * Millisecond"
definition Minute :: duration where [simp]: "Minute = 60 * Second"

record Logging =
  log_Level :: string
  log_SysLogEnabled :: bool
  log_FileLoggingEnabled :: bool
  log_Filename :: string
  log_MaxSize :: int
  log_MaxBackups :: int
  log_MaxAge :: int

record ConnectConfig =
  cc_User :: "string option"
  cc_Password :: "string option"
  cc_ConnectTimeout :: "duration option"
  cc_RequestTimeout :: "duration option"

record RouterConfig =
  rc_Name :: string
  rc_Addr :: string

record ClusterConfig =
  cfg_Connection :: "ConnectConfig option"
  cfg_ReadOnly :: "bool option"
  cfg_ElectionMode :: "string option"
  cfg_OverrideURIRules :: "string \<rightharpoonup> string"
  cfg_Priorities :: "string \<rightharpoonup> int"
  cfg_Routers :: "RouterConfig list"

record HooksConfig =
  hk_Shell :: string
  hk_PreFailover :: "string list"
  hk_PostSuccessfulFailover :: "string list"
  hk_PostUnsuccessfulFailover :: "string list"
  hk_Timeout :: duration
  hk_TimeoutAsync :: duration

record StorageConfig =
  st_Filename :: string
  st_QueryTimeout :: duration
  st_ConnectTimeout :: duration

record QumomfConfig =
  q_Port :: string
  q_Logging :: Logging
  q_ReadOnly :: bool
  q_ClusterDiscoveryTime :: duration
  q_ClusterRecoveryTime :: duration
  q_ShardRecoveryBlockTime :: duration
  q_InstanceRecoveryBlockTime :: duration
  q_ElectionMode :: string
  q_ReasonableFollowerLSNLag :: int
  q_ReasonableFollowerIdle :: duration
  q_Hooks :: HooksConfig
  q_Storage :: StorageConfig

record Config =
  c_Qumomf :: QumomfConfig
  c_Connection :: "ConnectConfig option"
  c_Clusters :: "(string \<times> ClusterConfig) list"

text \<open>\<open>var cfg Config\<close>\<close>

definition zero_Config :: Config where
  "zero_Config = \<lparr>c_Qumomf = \<lparr>q_Port = '''',
       q_Logging = \<lparr>log_Level = '''', log_SysLogEnabled = False, log_FileLoggingEnabled = False,
         log_Filename = '''', log_MaxSize = 0, log_MaxBackups = 0, log_MaxAge = 0\<rparr>,
       q_ReadOnly = False, q_ClusterDiscoveryTime = 0, q_ClusterRecoveryTime = 0,
       q_ShardRecoveryBlockTime = 0, q_InstanceRecoveryBlockTime = 0, q_ElectionMode = '''',
       q_ReasonableFollowerLSNLag = 0, q_ReasonableFollowerIdle = 0,
       q_Hooks = \<lparr>hk_Shell = '''', hk_PreFailover = [], hk_PostSuccessfulFailover = [],
         hk_PostUnsuccessfulFailover = [], hk_Timeout = 0, hk_TimeoutAsync = 0\<rparr>,
       q_Storage = \<lparr>st_Filename = '''', st_QueryTimeout = 0, st_ConnectTimeout = 0\<rparr>\<rparr>,
     c_Connection = None, c_Clusters = []\<rparr>"

section \<open>Defaults\<close>

definition defaultLogLevel :: string where [simp]: "defaultLogLevel = ''debug''"
definition defaultSysLogEnabled :: bool where [simp]: "defaultSysLogEnabled = False"
definition defaultFileLoggingEnabled :: bool where [simp]: "defaultFileLoggingEnabled = False"
definition defaultLogFilename :: string where [simp]: "defaultLogFilename = ''/var/log/qumomf.log''"
definition defaultLogFileMaxSize :: int where [simp]: "defaultLogFileMaxSize = 256"
definition defaultLogFileMaxBackups :: int where [simp]: "defaultLogFileMaxBackups = 3"
definition defaultLogFileMaxAge :: int where [simp]: "defaultLogFileMaxAge = 5"
definition defaultReadOnly :: bool where [simp]: "defaultReadOnly = True"
definition defaultUser :: string where [simp]: "defaultUser = ''guest''"
definition defaultPassword :: string where [simp]: "defaultPassword = ''guest''"
definition defaultConnectTimeout :: duration where [simp]: "defaultConnectTimeout = 500 * Millisecond"
definition defaultRequestTimeout :: duration where [simp]: "defaultRequestTimeout = 1 * Second"
definition defaultClusterDiscoveryTime :: duration where [simp]: "defaultClusterDiscoveryTime = 5 * Second"
definition defaultClusterRecoveryTime :: duration where [simp]: "defaultClusterRecoveryTime = 1 * Second"
definition defaultShardRecoveryBlockTime :: duration where [simp]: "defaultShardRecoveryBlockTime = 30 * Minute"
definition defaultInstanceRecoveryBlockTime :: duration where [simp]: "defaultInstanceRecoveryBlockTime = 10 * Minute"
definition defaultElectorType :: string where [simp]: "defaultElectorType = ''smart''"
definition defaultShellCommand :: string where [simp]: "defaultShellCommand = ''bash''"
definition defaultHookTimeout :: duration where [simp]: "defaultHookTimeout = 5 * Second"
definition defaultAsyncHookTimeout :: duration where [simp]: "defaultAsyncHookTimeout = 10 * Minute"
definition defaultMaxFollowerLSNLag :: int where [simp]: "defaultMaxFollowerLSNLag = 1000"
definition defaultMaxFollowerIdle :: duration where [simp]: "defaultMaxFollowerIdle = 5 * Minute"
definition defaultStorageFileName :: string where [simp]: "defaultStorageFileName = ''qumomf.db''"
definition defaultStorageConnectTimeout :: duration where [simp]: "defaultStorageConnectTimeout = Second"
definition defaultStorageQueryTimeout :: duration where [simp]: "defaultStorageQueryTimeout = Second"

definition default_Logging :: Logging where
  "default_Logging = \<lparr>log_Level = defaultLogLevel, log_SysLogEnabled = defaultSysLogEnabled,
     log_FileLoggingEnabled = defaultFileLoggingEnabled, log_Filename = defaultLogFilename,
     log_MaxSize = defaultLogFileMaxSize, log_MaxBackups = defaultLogFileMaxBackups,
     log_MaxAge = defaultLogFileMaxAge\<rparr>"

text \<open>A pointer to a fresh copy of a value.\<close>

definition newBool :: "bool \<Rightarrow> bool option" where [simp]: "newBool v = Some v"
definition newDuration :: "duration \<Rightarrow> duration option" where [simp]: "newDuration v = Some v"
definition newString :: "string \<Rightarrow> string option" where [simp]: "newString v = Some v"

definition default_Connection :: ConnectConfig where
  "default_Connection = \<lparr>cc_User = newString defaultUser, cc_Password = newString defaultPassword,
     cc_ConnectTimeout = newDuration defaultConnectTimeout, cc_RequestTimeout = newDuration defaultRequestTimeout\<rparr>"

definition set_defaults :: "Config \<Rightarrow> Config" where
  "set_defaults c =
     (let base = c_Qumomf c;
          base = base\<lparr>q_ReadOnly := defaultReadOnly, q_Logging := default_Logging,
            q_ClusterDiscoveryTime := defaultClusterDiscoveryTime, q_ClusterRecoveryTime := defaultClusterRecoveryTime,
            q_ShardRecoveryBlockTime := defaultShardRecoveryBlockTime,
            q_InstanceRecoveryBlockTime := defaultInstanceRecoveryBlockTime,
            q_ElectionMode := defaultElectorType, q_ReasonableFollowerLSNLag := defaultMaxFollowerLSNLag,
            q_ReasonableFollowerIdle := defaultMaxFollowerIdle,
            q_Hooks := (q_Hooks base)\<lparr>hk_Shell := defaultShellCommand, hk_Timeout := defaultHookTimeout,
              hk_TimeoutAsync := defaultAsyncHookTimeout\<rparr>,
            q_Storage := \<lparr>st_Filename = defaultStorageFileName, st_QueryTimeout = defaultStorageQueryTimeout,
              st_ConnectTimeout = defaultStorageConnectTimeout\<rparr>\<rparr>
      in c\<lparr>c_Qumomf := base, c_Connection := Some default_Connection\<rparr>)"

fun withDefaults :: "Config option \<Rightarrow> Config option" where
  "withDefaults None = None"
| "withDefaults (Some c) = Some (set_defaults c)"

section \<open>Inheritance\<close>

text \<open>\<open>if p == nil { p = q }\<close>\<close>

definition or_else :: "'a option \<Rightarrow> 'a option \<Rightarrow> 'a option" where
  "or_else p q = (case p of None \<Rightarrow> q | Some _ \<Rightarrow> p)"

text \<open>
  The global connection is only dereferenced for an option the cluster leaves out; with a nil
  global connection that is a panic.
\<close>

definition inherit_Connection :: "ConnectConfig option \<Rightarrow> ConnectConfig \<Rightarrow> ConnectConfig option" where
  "inherit_Connection global opts =
     (case global of
        Some g \<Rightarrow> Some \<lparr>cc_User = or_else (cc_User opts) (cc_User g),
                    cc_Password = or_else (cc_Password opts) (cc_Password g),
                    cc_ConnectTimeout = or_else (cc_ConnectTimeout opts) (cc_ConnectTimeout g),
                    cc_RequestTimeout = or_else (cc_RequestTimeout opts) (cc_RequestTimeout g)\<rparr>
      | None \<Rightarrow>
          if cc_ConnectTimeout opts = None \<or> cc_RequestTimeout opts = None \<or> cc_User opts = None \<or>
             cc_Password opts = None
          then None else Some opts)"

definition inherit_Cluster :: "Config \<Rightarrow> ClusterConfig \<Rightarrow> ClusterConfig option" where
  "inherit_Cluster c clusterCfg =
     (let clusterCfg = clusterCfg\<lparr>
            cfg_ReadOnly := or_else (cfg_ReadOnly clusterCfg) (newBool (q_ReadOnly (c_Qumomf c))),
            cfg_ElectionMode := or_else (cfg_ElectionMode clusterCfg) (newString (q_ElectionMode (c_Qumomf c)))\<rparr>
      in case cfg_Connection clusterCfg of
           None \<Rightarrow> Some (clusterCfg\<lparr>cfg_Connection := c_Connection c\<rparr>)
         | Some opts \<Rightarrow>
             map_option (\<lambda>opts. clusterCfg\<lparr>cfg_Connection := Some opts\<rparr>)
               (inherit_Connection (c_Connection c) opts))"

fun inherit_all :: "Config \<Rightarrow> (string \<times> ClusterConfig) list \<Rightarrow> (string \<times> ClusterConfig) list option" where
  "inherit_all c [] = Some []"
| "inherit_all c ((clusterUUID, clusterCfg) # clusters) =
     Option.bind (inherit_Cluster c clusterCfg) (\<lambda>clusterCfg.
     Option.bind (inherit_all c clusters) (\<lambda>clusters.
     Some ((clusterUUID, clusterCfg) # clusters)))"

definition overrideEmptyByGlobalConfigs :: "Config \<Rightarrow> Config option" where
  "overrideEmptyByGlobalConfigs c =
     map_option (\<lambda>clusters. c\<lparr>c_Clusters := clusters\<rparr>) (inherit_all c (c_Clusters c))"

section \<open>Validation\<close>

datatype config_error =
    ErrElectorEmpty
  | ErrElectorWrong string
  | ErrRead string
  | ErrYaml string

definition validateElector :: "string option \<Rightarrow> (config_error, unit) go_result" where
  "validateElector v =
     (case v of
        None \<Rightarrow> Inl ErrElectorEmpty
      | Some v \<Rightarrow> if v \<noteq> ''idle'' \<and> v \<noteq> ''smart'' then Inl (ErrElectorWrong v) else Inr ())"

fun validate_clusters :: "(string \<times> ClusterConfig) list \<Rightarrow> (config_error, unit) go_result" where
  "validate_clusters [] = Inr ()"
| "validate_clusters ((_, clusterCfg) # clusters) =
     bindR (validateElector (cfg_ElectionMode clusterCfg)) (\<lambda>_. validate_clusters clusters)"

definition validate_config :: "Config \<Rightarrow> (config_error, unit) go_result" where
  "validate_config c =
     bindR (validateElector (Some (q_ElectionMode (c_Qumomf c)))) (\<lambda>_.
     validate_clusters (c_Clusters c))"

definition Setup ::
  "(config_error, string) go_result \<Rightarrow> (string \<Rightarrow> Config \<Rightarrow> (config_error, Config) go_result)
   \<Rightarrow> (config_error, Config) go_result option" where
  "Setup read unmarshal =
     (case read of
        Inl e \<Rightarrow> Some (Inl e)
      | Inr data \<Rightarrow>
          Option.bind (withDefaults (Some zero_Config)) (\<lambda>cfg.
          case unmarshal data cfg of
            Inl e \<Rightarrow> Some (Inl e)
          | Inr cfg \<Rightarrow>
              Option.bind (overrideEmptyByGlobalConfigs cfg) (\<lambda>cfg.
              Some (bindR (validate_config cfg) (\<lambda>_. Inr cfg)))))"

section \<open>Lemmas\<close>

lemma or_else_simps [simp]: "or_else (Some x) q = Some x" "or_else None q = q"
  by (simp_all add: or_else_def)

lemma or_else_Some: "or_else p (Some q) = Some (case p of None \<Rightarrow> q | Some v \<Rightarrow> v)"
  by (cases p) simp_all

definition complete_Connection :: "ConnectConfig \<Rightarrow> bool" where
  "complete_Connection cc \<longleftrightarrow> cc_User cc \<noteq> None \<and> cc_Password cc \<noteq> None \<and>
     cc_ConnectTimeout cc \<noteq> None \<and> cc_RequestTimeout cc \<noteq> None"

text \<open>What every cluster needs before it can be registered.\<close>

definition complete_Cluster :: "ClusterConfig \<Rightarrow> bool" where
  "complete_Cluster k \<longleftrightarrow>
     (\<exists>cc. cfg_Connection k = Some cc \<and> complete_Connection cc) \<and>
     cfg_ReadOnly k \<noteq> None \<and> (cfg_ElectionMode k = Some ''idle'' \<or> cfg_ElectionMode k = Some ''smart'')"

lemma validateElector_Inr:
  "validateElector v = Inr u \<longleftrightarrow> v = Some ''idle'' \<or> v = Some ''smart''"
  by (cases v) (auto simp: validateElector_def)

lemma validate_clusters_Inr:
  "validate_clusters ks = Inr u \<Longrightarrow> (n, k) \<in> set ks \<Longrightarrow>
   cfg_ElectionMode k = Some ''idle'' \<or> cfg_ElectionMode k = Some ''smart''"
  by (induction ks rule: validate_clusters.induct) (auto simp: bindR_Inr_iff validateElector_Inr)

lemma inherit_Cluster_complete:
  assumes "c_Connection c = Some g" and "complete_Connection g" and "inherit_Cluster c k = Some k'"
  shows "\<exists>cc. cfg_Connection k' = Some cc \<and> complete_Connection cc" and "cfg_ReadOnly k' \<noteq> None"
  using assms
  by (auto simp: inherit_Cluster_def inherit_Connection_def complete_Connection_def Let_def or_else_Some
      split: option.splits)

lemma inherit_all_set:
  "inherit_all c ks = Some ks' \<Longrightarrow>
   list_all2 (\<lambda>(n, k) (n', k'). n' = n \<and> inherit_Cluster c k = Some k') ks ks'"
  by (induction c ks arbitrary: ks' rule: inherit_all.induct) (auto simp: bind_eq_Some_conv)

lemma inherit_all_returns:
  "c_Connection c = Some g \<Longrightarrow> inherit_all c ks \<noteq> None"
  by (induction c ks rule: inherit_all.induct)
    (auto simp: inherit_Cluster_def inherit_Connection_def Let_def split: option.split)

lemma Setup_Inr:
  assumes "Setup read unmarshal = Some (Inr cfg)"
  obtains data c0 c where "read = Inr data" "withDefaults (Some zero_Config) = Some c0"
    "unmarshal data c0 = Inr c" "overrideEmptyByGlobalConfigs c = Some cfg" "validate_config cfg = Inr ()"
  using assms
  by (auto simp: Setup_def bind_eq_Some_conv bindR_Inr_iff split: sum.splits)

lemma override_Some:
  assumes "overrideEmptyByGlobalConfigs c = Some cfg"
  shows "c_Qumomf cfg = c_Qumomf c" "c_Connection cfg = c_Connection c"
    "list_all2 (\<lambda>(n, k) (n', k'). n' = n \<and> inherit_Cluster c k = Some k') (c_Clusters c) (c_Clusters cfg)"
  using assms by (auto simp: overrideEmptyByGlobalConfigs_def dest: inherit_all_set)

lemma override_member:
  assumes "overrideEmptyByGlobalConfigs c = Some cfg" and "(n, k) \<in> set (c_Clusters cfg)"
  shows "\<exists>k0. (n, k0) \<in> set (c_Clusters c) \<and> inherit_Cluster c k0 = Some k"
proof -
  from assms(2) obtain i where i: "i < length (c_Clusters cfg)" "c_Clusters cfg ! i = (n, k)"
    by (auto simp: in_set_conv_nth)
  note l = override_Some(3)[OF assms(1)]
  obtain n0 k0 where e: "c_Clusters c ! i = (n0, k0)" by (cases "c_Clusters c ! i")
  have "i < length (c_Clusters c)" using l i(1) by (simp add: list_all2_lengthD)
  then have "(n0, k0) \<in> set (c_Clusters c)" using e by (metis nth_mem)
  moreover have "n = n0" "inherit_Cluster c k0 = Some k" using list_all2_nthD2[OF l i(1)] i(2) e by simp_all
  ultimately show ?thesis by blast
qed

text \<open>The value a pointer option gets from the cluster or else from the global options.\<close>

definition inherited :: "'a option \<Rightarrow> 'a option \<Rightarrow> 'a option" where
  "inherited own global = (if own = None then global else own)"

lemma or_else_inherited: "or_else p q = inherited p q"
  by (cases p) (simp_all add: inherited_def)

text \<open>Every option of a registered cluster is its own or else the global one.\<close>

definition inherits :: "Config \<Rightarrow> ConnectConfig \<Rightarrow> ClusterConfig \<Rightarrow> ClusterConfig \<Rightarrow> bool" where
  "inherits c g k k' \<longleftrightarrow>
     (\<exists>cc. cfg_Connection k' = Some cc \<and>
        cc_User cc = inherited (Option.bind (cfg_Connection k) cc_User) (cc_User g) \<and>
        cc_Password cc = inherited (Option.bind (cfg_Connection k) cc_Password) (cc_Password g) \<and>
        cc_ConnectTimeout cc =
          inherited (Option.bind (cfg_Connection k) cc_ConnectTimeout) (cc_ConnectTimeout g) \<and>
        cc_RequestTimeout cc =
          inherited (Option.bind (cfg_Connection k) cc_RequestTimeout) (cc_RequestTimeout g)) \<and>
     cfg_ReadOnly k' = inherited (cfg_ReadOnly k) (Some (q_ReadOnly (c_Qumomf c))) \<and>
     cfg_ElectionMode k' = inherited (cfg_ElectionMode k) (Some (q_ElectionMode (c_Qumomf c))) \<and>
     cfg_OverrideURIRules k' = cfg_OverrideURIRules k \<and>
     cfg_Priorities k' = cfg_Priorities k \<and> cfg_Routers k' = cfg_Routers k"

lemma inherit_Cluster_inherits:
  "c_Connection c = Some g \<Longrightarrow> inherit_Cluster c k = Some k' \<Longrightarrow> inherits c g k k'"
  by (cases "cfg_Connection k")
    (auto simp: inherits_def inherit_Cluster_def inherit_Connection_def Let_def or_else_inherited
      inherited_def)

text \<open>With the global connection options present, an accepted configuration is complete.\<close>

lemma Setup_accepted_complete:
  assumes s: "Setup read unmarshal = Some (Inr cfg)"
    and c: "\<And>data c0 c. unmarshal data c0 = Inr c \<Longrightarrow> \<exists>g. c_Connection c = Some g \<and> complete_Connection g"
  shows "list_all (\<lambda>(_, k). complete_Cluster k) (c_Clusters cfg)"
proof -
  from s obtain data c0 c where u: "unmarshal data c0 = Inr c"
    and o: "overrideEmptyByGlobalConfigs c = Some cfg" and v: "validate_config cfg = Inr ()"
    by (rule Setup_Inr)
  obtain g where g: "c_Connection c = Some g" "complete_Connection g" using c[OF u] by blast
  have "complete_Cluster k" if k: "(n, k) \<in> set (c_Clusters cfg)" for n k
  proof -
    from override_member[OF o k] obtain k0 where "inherit_Cluster c k0 = Some k" by blast
    note inherit_Cluster_complete[OF g this]
    moreover have "cfg_ElectionMode k = Some ''idle'' \<or> cfg_ElectionMode k = Some ''smart''"
      using v k by (auto simp: validate_config_def bindR_Inr_iff dest: validate_clusters_Inr)
    ultimately show ?thesis by (simp add: complete_Cluster_def)
  qed
  then show ?thesis by (auto simp: list_all_iff)
qed

section \<open>Properties\<close>

text \<open>With the global connection options present after decoding, as they are by default,
  reading the configuration never panics, and in an accepted configuration every cluster has all
  connection options, a read-only flag and one of the two elector modes, so that registering
  it cannot fail on a missing option.\<close>

theorem Setup_complete:
  assumes "\<And>data c0 c. unmarshal data c0 = Inr c \<Longrightarrow> \<exists>g. c_Connection c = Some g \<and> complete_Connection g"
  shows "case Setup read unmarshal of
      None \<Rightarrow> False
    | Some (Inl e) \<Rightarrow> True
    | Some (Inr cfg) \<Rightarrow> list_all (\<lambda>(_, k). complete_Cluster k) (c_Clusters cfg)"
proof -
  have "Setup read unmarshal \<noteq> None"
  proof (cases read)
    case (Inr data)
    obtain c0 where c0: "withDefaults (Some zero_Config) = Some c0" by simp
    show ?thesis
    proof (cases "unmarshal data c0")
      case u: (Inr c)
      then obtain g where "c_Connection c = Some g" using assms by blast
      from inherit_all_returns[OF this, of "c_Clusters c"]
      show ?thesis using Inr c0 u by (auto simp: Setup_def overrideEmptyByGlobalConfigs_def)
    qed (use Inr c0 in \<open>simp add: Setup_def\<close>)
  qed (simp add: Setup_def)
  moreover note Setup_accepted_complete[OF _ assms]
  ultimately show ?thesis by (auto split: option.split sum.split simp: list_all_iff)
qed

theorem Setup_complete_witness:
  "case Setup (Inr ''x'') (\<lambda>_ c. Inr (c\<lparr>c_Connection := Some default_Connection,
        c_Clusters := [(''k'', \<lparr>cfg_Connection = None, cfg_ReadOnly = None, cfg_ElectionMode = None,
          cfg_OverrideURIRules = Map.empty, cfg_Priorities = Map.empty, cfg_Routers = []\<rparr>)]\<rparr>)) of
      None \<Rightarrow> False
    | Some (Inl e) \<Rightarrow> True
    | Some (Inr cfg) \<Rightarrow> list_all (\<lambda>(_, k). complete_Cluster k) (c_Clusters cfg)"
  by (rule Setup_complete) (auto simp: default_Connection_def complete_Connection_def)

text \<open>The inheritance of options keeps the clusters and the global options; each option a
  cluster sets wins over the global one, and an option it leaves out is the global one.\<close>

theorem override_inherits:
  assumes "overrideEmptyByGlobalConfigs c = Some cfg" and "c_Connection c = Some g"
  shows "c_Qumomf cfg = c_Qumomf c \<and> map fst (c_Clusters cfg) = map fst (c_Clusters c) \<and>
    list_all2 (\<lambda>(_, k) (_, k'). inherits c g k k') (c_Clusters c) (c_Clusters cfg)"
proof -
  note o = override_Some[OF assms(1)]
  have "map fst (c_Clusters cfg) = map fst (c_Clusters c)"
    using o(3) by (induction rule: list_all2_induct) auto
  then show ?thesis
    using o inherit_Cluster_inherits[OF assms(2)] by (auto elim!: list_all2_mono)
qed

theorem override_inherits_witness:
  "\<exists>cfg. overrideEmptyByGlobalConfigs (zero_Config\<lparr>c_Connection := Some default_Connection\<rparr>) = Some cfg \<and>
     c_Qumomf cfg = c_Qumomf zero_Config \<and> map fst (c_Clusters cfg) = []"
proof -
  let ?c = "zero_Config\<lparr>c_Connection := Some default_Connection\<rparr>"
  have "overrideEmptyByGlobalConfigs ?c = Some ?c"
    by (simp add: overrideEmptyByGlobalConfigs_def zero_Config_def)
  moreover from override_inherits[OF this, of default_Connection]
  have "c_Qumomf ?c = c_Qumomf ?c \<and> map fst (c_Clusters ?c) = map fst (c_Clusters ?c)" by simp
  ultimately show ?thesis by (simp add: zero_Config_def)
qed

end
