(* ===== verification/Vshard_Cluster.thy ===== *)
theory Vshard_Cluster
  imports Vshard_Parser Qumomf_Config
begin

text \<open>
  internal/vshard/cluster.go: the state of a cluster, its accessors and the discovery of its
  topology.

  What the network, the clock and the scheduler decide during one run of \<open>Discover\<close> is a
  \<open>probe\<close>: the router picked, what each query meets (rounds of \<open>Exec\<close> by endpoint, and for
  the polling goroutines by replica set and index), the timestamps and the order in which the
  goroutines put their replica sets into the channel.  A discovery has three parts that other
  operations of the cluster can come between: it copies the snapshot under the read lock, polls
  the network on that copy, logs each discovered set, and installs the new snapshot under the
  write lock.  \<open>Discover\<close> is the undisturbed run; the step relation at the end interleaves.

  Logging compares a discovered set with the one in the live snapshot, and \<open>SameAs\<close> sorts the
  instances of both in place, so it changes the live snapshot too.
\<close>

record Cluster =
  cl_Name :: string
  cl_template :: ConnOptions
  cl_rules :: "string \<rightharpoonup> string"
  cl_snapshot :: Snapshot
  cl_readOnly :: bool
  cl_hasActiveRecovery :: bool
  cl_discoveredCB :: bool

text \<open>
  \<open>NewCluster\<close> dereferences the connection options, the read-only flag and their fields;
  \<open>None\<close> is the panic on a nil one.  \<open>now\<close> is the time of the call.
\<close>

definition NewCluster :: "int \<Rightarrow> string \<Rightarrow> ClusterConfig \<Rightarrow> Cluster option" where
  "NewCluster now name cfg =
     (case cfg_Connection cfg of
        None \<Rightarrow> None
      | Some cc \<Rightarrow>
          (case (cc_User cc, cc_Password cc, cc_ConnectTimeout cc, cc_RequestTimeout cc, cfg_ReadOnly cfg) of
             (Some user, Some password, Some connectTimeout, Some requestTimeout, Some ro) \<Rightarrow>
               let connTemplate = \<lparr>co_User = user, co_Password = password, co_ConnectTimeout = connectTimeout,
                                    co_QueryTimeout = requestTimeout\<rparr>;
                   snapshot = \<lparr>sn_Created = now, sn_Routers = [], sn_ReplicaSets = [],
                                sn_priorities = Map.empty\<rparr>;
                   snapshot = UpdatePriorities (cfg_Priorities cfg) snapshot;
                   routers = map (\<lambda>r. NewRouter (rc_Addr r)) (cfg_Routers cfg)
               in Some \<lparr>cl_Name = name, cl_template = connTemplate, cl_rules = cfg_OverrideURIRules cfg,
                        cl_snapshot = snapshot\<lparr>sn_Routers := routers\<rparr>, cl_readOnly = ro,
                        cl_hasActiveRecovery = False, cl_discoveredCB = False\<rparr>
           | _ \<Rightarrow> None))"

section \<open>Accessors\<close>

definition SetOnClusterDiscovered :: "Cluster \<Rightarrow> Cluster" where
  "SetOnClusterDiscovered c = c\<lparr>cl_discoveredCB := True\<rparr>"

definition SetPriorities :: "(string \<rightharpoonup> int) \<Rightarrow> Cluster \<Rightarrow> Cluster" where
  "SetPriorities priorities c = c\<lparr>cl_snapshot := UpdatePriorities priorities (cl_snapshot c)\<rparr>"

definition LastDiscovered :: "Cluster \<Rightarrow> int" where
  "LastDiscovered c = sn_Created (cl_snapshot c)"

definition SetReadOnly :: "bool \<Rightarrow> Cluster \<Rightarrow> Cluster" where
  "SetReadOnly v c = c\<lparr>cl_readOnly := v\<rparr>"

definition ReadOnly :: "Cluster \<Rightarrow> bool" where
  "ReadOnly c = cl_readOnly c"

definition Cluster_Routers :: "Cluster \<Rightarrow> Router list" where
  "Cluster_Routers c = sn_Routers (cl_snapshot c)"

definition Cluster_ReplicaSets :: "Cluster \<Rightarrow> ReplicaSet list" where
  "Cluster_ReplicaSets c = sn_ReplicaSets (cl_snapshot c)"

definition Cluster_ReplicaSet :: "Cluster \<Rightarrow> ReplicaSetUUID \<Rightarrow> (snapshot_error, ReplicaSet) go_result" where
  "Cluster_ReplicaSet c uuid =
     (case find (\<lambda>rs. set_UUID rs = uuid) (sn_ReplicaSets (cl_snapshot c)) of
        Some rs \<Rightarrow> Inr rs
      | None \<Rightarrow> Inl ErrReplicaSetNotFound)"

definition Cluster_Instances :: "Cluster \<Rightarrow> Instance list" where
  "Cluster_Instances c = concat (map set_Instances (sn_ReplicaSets (cl_snapshot c)))"

fun find_instance :: "ReplicaSet list \<Rightarrow> InstanceUUID \<Rightarrow> Instance option" where
  "find_instance [] uuid = None"
| "find_instance (rs # sets) uuid =
     (case find (\<lambda>inst. inst_UUID inst = uuid) (set_Instances rs) of
        Some inst \<Rightarrow> Some inst
      | None \<Rightarrow> find_instance sets uuid)"

text \<open>With an error, \<open>Instance\<close> returns the zero instance; its only caller ignores the error.\<close>

definition Cluster_Instance :: "Cluster \<Rightarrow> InstanceUUID \<Rightarrow> (unit, Instance) go_result" where
  "Cluster_Instance c uuid =
     (case find_instance (sn_ReplicaSets (cl_snapshot c)) uuid of Some inst \<Rightarrow> Inr inst | None \<Rightarrow> Inl ())"

definition StartRecovery :: "Cluster \<Rightarrow> Cluster" where
  "StartRecovery c = c\<lparr>cl_hasActiveRecovery := True\<rparr>"

definition StopRecovery :: "Cluster \<Rightarrow> Cluster" where
  "StopRecovery c = c\<lparr>cl_hasActiveRecovery := False\<rparr>"

definition HasActiveRecovery :: "Cluster \<Rightarrow> bool" where
  "HasActiveRecovery c = cl_hasActiveRecovery c"

section \<open>Polling\<close>

record probe =
  pr_codes :: tnt_codes
  pr_pick :: nat
  pr_router :: "string \<Rightarrow> nat \<Rightarrow> attempt"
  pr_replication :: "ReplicaSetUUID \<Rightarrow> string \<Rightarrow> nat \<Rightarrow> attempt"
  pr_instance :: "ReplicaSetUUID \<Rightarrow> nat \<Rightarrow> string \<Rightarrow> nat \<Rightarrow> attempt"
  pr_seen :: int
  pr_created :: int
  pr_order :: "ReplicaSet list \<Rightarrow> ReplicaSet list"

text \<open>The result a query gets; \<open>Exec\<close> never returns nil (\<open>Exec_Some\<close> below).\<close>

definition response :: "tnt_codes \<Rightarrow> (nat \<Rightarrow> attempt) \<Rightarrow> tnt_result" where
  "response codes attempts = (case fst (Exec codes attempts) of Some r \<Rightarrow> r | None \<Rightarrow> error_result '''' 0)"

datatype discovery_error = ErrMasterNotAvailable | ErrResponse string | ErrParse parse_error

fun set_master_URI :: "RouterInstanceParameters \<Rightarrow> Instance list \<Rightarrow> Instance list" where
  "set_master_URI master [] = []"
| "set_master_URI master (inst # topology) =
     (if inst_UUID inst = rip_UUID master then inst\<lparr>inst_URI := rip_URI master\<rparr> # topology
      else inst # set_master_URI master topology)"

definition discoverReplication ::
  "(string \<Rightarrow> tnt_result) \<Rightarrow> RouterInstanceParameters \<Rightarrow> (discovery_error, Instance list) go_result" where
  "discoverReplication exec master =
     (if rip_Status master \<noteq> InstanceAvailable then Inl ErrMasterNotAvailable
      else let resp = exec (rip_URI master)
           in case res_Error resp of
                Some e \<Rightarrow> Inl (ErrResponse e)
              | None \<Rightarrow>
                  (case ParseReplication (res_Data resp) of
                     Inl e \<Rightarrow> Inl (ErrParse e)
                   | Inr topology \<Rightarrow> Inr (set_master_URI master topology)))"

definition discoverInstance :: "(string \<Rightarrow> tnt_result) \<Rightarrow> Instance \<Rightarrow> Instance" where
  "discoverInstance exec inst =
     (let resp = exec (inst_URI inst)
      in case res_Error resp of
           Some _ \<Rightarrow> inst\<lparr>inst_LastCheckValid := False\<rparr>
         | None \<Rightarrow>
             (case ParseInstanceInfo (res_Data resp) of
                Inl _ \<Rightarrow> inst\<lparr>inst_LastCheckValid := False\<rparr>
              | Inr info \<Rightarrow>
                  inst\<lparr>inst_Readonly := info_Readonly info, inst_StorageInfo := info_StorageInfo info,
                       inst_VShardFingerprint := info_VShardFingerprint info,
                       inst_LastCheckValid := True\<rparr>))"

definition discoverInstances :: "(nat \<Rightarrow> string \<Rightarrow> tnt_result) \<Rightarrow> Instance list \<Rightarrow> Instance list" where
  "discoverInstances exec instances = map (\<lambda>(i, inst). discoverInstance (exec i) inst) (enumerate 0 instances)"

text \<open>The topology the goroutine of one replica set polls; \<open>None\<close> when it returns without one.\<close>

definition set_topology :: "probe \<Rightarrow> (string \<rightharpoonup> string) \<Rightarrow> Snapshot \<Rightarrow> ReplicaSetUUID \<Rightarrow> RouterInstanceParameters
    \<Rightarrow> Instance list option" where
  "set_topology pr rules snapshot uuid master =
     (case discoverReplication
             (\<lambda>uri. response (pr_codes pr) (pr_replication pr uuid (pool_key rules uri))) master of
        Inr topology \<Rightarrow> Some topology
      | Inl _ \<Rightarrow> (case TopologyOf snapshot uuid of Inr topology \<Rightarrow> Some topology | Inl _ \<Rightarrow> None))"

text \<open>What the query of the \<open>i\<close>-th instance of a topology gets.\<close>

definition ask_instance :: "probe \<Rightarrow> (string \<rightharpoonup> string) \<Rightarrow> ReplicaSetUUID \<Rightarrow> nat \<Rightarrow> string \<Rightarrow> tnt_result" where
  "ask_instance pr rules uuid i uri = response (pr_codes pr) (pr_instance pr uuid i (pool_key rules uri))"

definition discoverSet :: "probe \<Rightarrow> (string \<rightharpoonup> string) \<Rightarrow> Snapshot \<Rightarrow> ReplicaSetUUID \<times> RouterInstanceParameters
    \<Rightarrow> ReplicaSet option" where
  "discoverSet pr rules snapshot = (\<lambda>(uuid, master).
     map_option (\<lambda>topology.
          \<lparr>set_UUID = uuid, set_MasterUUID = rip_UUID master, set_MasterURI = rip_URI master,
           set_Instances = discoverInstances (ask_instance pr rules uuid) topology\<rparr>)
        (set_topology pr rules snapshot uuid master))"

text \<open>\<open>rand.Intn(len(routers))\<close> is some number below the length.\<close>

definition pickUpRandomRouter :: "nat \<Rightarrow> Router list \<Rightarrow> Router option" where
  "pickUpRandomRouter n routers = (if length routers = 0 then None else Some (routers ! (n mod length routers)))"

fun update_router :: "string \<Rightarrow> RouterInfo \<Rightarrow> Router list \<Rightarrow> Router list" where
  "update_router uri info [] = []"
| "update_router uri info (r # routers) =
     (if rt_URI r = uri then r\<lparr>rt_Info := info\<rparr> # routers else r # update_router uri info routers)"

text \<open>
  The polling part, on the copy \<open>snapshot\<close>: the new snapshot without its replica sets, and the
  replica sets in the order they leave the channel.  \<open>None\<close> when the discovery gives up.
\<close>

definition poll :: "probe \<Rightarrow> (string \<rightharpoonup> string) \<Rightarrow> Snapshot \<Rightarrow> (Snapshot \<times> ReplicaSet list) option" where
  "poll pr rules snapshot =
     (case pickUpRandomRouter (pr_pick pr) (sn_Routers snapshot) of
        None \<Rightarrow> None
      | Some router \<Rightarrow>
          let resp = response (pr_codes pr) (pr_router pr (pool_key rules (rt_URI router)))
          in if res_Error resp \<noteq> None then None
             else case ParseRouterInfo (res_Data resp) of
               Inl _ \<Rightarrow> None
             | Inr updatedRI \<Rightarrow>
                 let updatedRI = updatedRI\<lparr>ri_LastSeen := pr_seen pr\<rparr>;
                     discovered = pr_order pr
                       (List.map_filter (discoverSet pr rules snapshot) (ri_ReplicaSets updatedRI));
                     ns = \<lparr>sn_Created = pr_created pr,
                           sn_Routers = update_router (rt_URI router) updatedRI (sn_Routers snapshot),
                           sn_ReplicaSets = [], sn_priorities = Map.empty\<rparr>
                 in Some (ns, discovered))"

section \<open>Logging and installing\<close>

fun replace_set :: "ReplicaSetUUID \<Rightarrow> ReplicaSet \<Rightarrow> ReplicaSet list \<Rightarrow> ReplicaSet list" where
  "replace_set uuid rs [] = []"
| "replace_set uuid rs (s # sets) =
     (if set_UUID s = uuid then rs # sets else s # replace_set uuid rs sets)"

text \<open>The log level, the discovered set and the live snapshot after the comparison.\<close>

definition logDiscoveredReplicaSet ::
  "Instance sorter \<Rightarrow> ReplicaSet \<Rightarrow> Snapshot \<Rightarrow> bool \<times> ReplicaSet \<times> Snapshot" where
  "logDiscoveredReplicaSet srt rs live =
     (case Snapshot_ReplicaSet live (set_UUID rs) of
        Inl _ \<Rightarrow> (False, rs, live)
      | Inr previous \<Rightarrow>
          let (same, previous', rs') = SameAs srt previous rs
          in (same, rs', live\<lparr>sn_ReplicaSets := replace_set (set_UUID rs) previous' (sn_ReplicaSets live)\<rparr>))"

definition commit :: "Snapshot \<Rightarrow> Cluster \<Rightarrow> Cluster \<times> Snapshot option" where
  "commit ns c =
     (if sn_Created (cl_snapshot c) \<le> sn_Created ns
      then let ns = UpdatePriorities (sn_priorities (cl_snapshot c)) ns
           in (c\<lparr>cl_snapshot := ns\<rparr>, if cl_discoveredCB c then Some ns else None)
      else (c, None))"

fun log_all :: "Instance sorter \<Rightarrow> Snapshot \<Rightarrow> ReplicaSet list \<Rightarrow> Cluster \<Rightarrow> Snapshot \<times> Cluster" where
  "log_all srt ns [] c = (ns, c)"
| "log_all srt ns (rs # discovered) c =
     (let (_, rs', live) = logDiscoveredReplicaSet srt rs (cl_snapshot c)
      in log_all srt (ns\<lparr>sn_ReplicaSets := sn_ReplicaSets ns @ [rs']\<rparr>) discovered (c\<lparr>cl_snapshot := live\<rparr>))"

text \<open>An undisturbed discovery, with the snapshot handed to the callback.\<close>

definition Discover :: "Instance sorter \<Rightarrow> probe \<Rightarrow> Cluster \<Rightarrow> Cluster \<times> Snapshot option" where
  "Discover srt pr c =
     (let snapshot = Snapshot_Copy (cl_snapshot c)
      in case poll pr (cl_rules c) snapshot of
           None \<Rightarrow> (c, None)
         | Some (ns, discovered) \<Rightarrow>
             let (ns, c) = log_all srt ns discovered c in commit ns c)"

section \<open>Concurrent discoveries\<close>

text \<open>
  The monitor starts a discovery on every tick without waiting for the previous one, the
  failover runs its own, and the flags change in between.  A discovery in flight either polls
  on its copy or has a new snapshot and the replica sets it has still to log.  Each step is
  what happens in one critical section or one call of \<open>logDiscoveredReplicaSet\<close>.
\<close>

datatype flight = Polling Snapshot | Logging Snapshot "ReplicaSet list"

record cstate =
  cs_cluster :: Cluster
  cs_flight :: "nat \<Rightarrow> flight option"

datatype act = Discovery | ActSetPriorities "string \<rightharpoonup> int" | ActSetReadOnly bool
  | ActStartRecovery | ActStopRecovery

inductive cl_step :: "Instance sorter \<Rightarrow> cstate \<Rightarrow> act \<Rightarrow> cstate \<Rightarrow> bool" for srt where
  begins: "cs_flight s t = None \<Longrightarrow>
     cl_step srt s Discovery
       (s\<lparr>cs_flight := (cs_flight s)(t \<mapsto> Polling (Snapshot_Copy (cl_snapshot (cs_cluster s))))\<rparr>)"
| gives_up: "cs_flight s t = Some (Polling snapshot) \<Longrightarrow> poll pr (cl_rules (cs_cluster s)) snapshot = None \<Longrightarrow>
     cl_step srt s Discovery (s\<lparr>cs_flight := (cs_flight s)(t := None)\<rparr>)"
| polled: "cs_flight s t = Some (Polling snapshot) \<Longrightarrow>
     poll pr (cl_rules (cs_cluster s)) snapshot = Some (ns, discovered) \<Longrightarrow>
     cl_step srt s Discovery (s\<lparr>cs_flight := (cs_flight s)(t \<mapsto> Logging ns discovered)\<rparr>)"
| logged: "cs_flight s t = Some (Logging ns (rs # discovered)) \<Longrightarrow>
     logDiscoveredReplicaSet srt rs (cl_snapshot (cs_cluster s)) = (same, rs', live) \<Longrightarrow>
     cl_step srt s Discovery
       (s\<lparr>cs_cluster := (cs_cluster s)\<lparr>cl_snapshot := live\<rparr>,
          cs_flight := (cs_flight s)
            (t \<mapsto> Logging (ns\<lparr>sn_ReplicaSets := sn_ReplicaSets ns @ [rs']\<rparr>) discovered)\<rparr>)"
| installed: "cs_flight s t = Some (Logging ns []) \<Longrightarrow> commit ns (cs_cluster s) = (c', cb) \<Longrightarrow>
     cl_step srt s Discovery (s\<lparr>cs_cluster := c', cs_flight := (cs_flight s)(t := None)\<rparr>)"
| priorities: "cl_step srt s (ActSetPriorities p) (s\<lparr>cs_cluster := SetPriorities p (cs_cluster s)\<rparr>)"
| readonly: "cl_step srt s (ActSetReadOnly b) (s\<lparr>cs_cluster := SetReadOnly b (cs_cluster s)\<rparr>)"
| starts: "cl_step srt s ActStartRecovery (s\<lparr>cs_cluster := StartRecovery (cs_cluster s)\<rparr>)"
| stops: "cl_step srt s ActStopRecovery (s\<lparr>cs_cluster := StopRecovery (cs_cluster s)\<rparr>)"

inductive cl_run :: "Instance sorter \<Rightarrow> cstate \<Rightarrow> act list \<Rightarrow> cstate \<Rightarrow> bool" for srt where
  run_nil: "cl_run srt s [] s"
| run_snoc: "cl_run srt s as s' \<Longrightarrow> cl_step srt s' a s'' \<Longrightarrow> cl_run srt s (as @ [a]) s''"

definition idle_state :: "Cluster \<Rightarrow> cstate" where
  "idle_state c = \<lparr>cs_cluster = c, cs_flight = (\<lambda>_. None)\<rparr>"

section \<open>Lemmas\<close>

lemma Exec_Some: "fst (Exec codes attempts) \<noteq> None"
  unfolding Exec_def maxRetries_def numeral_2_eq_2 exec_loop_Suc by simp

lemma update_router_URIs [simp]: "map rt_URI (update_router uri info routers) = map rt_URI routers"
  by (induction routers) auto

lemma poll_Some:
  assumes "poll pr rules snapshot = Some (ns, discovered)"
  shows "map rt_URI (sn_Routers ns) = map rt_URI (sn_Routers snapshot)"
    "sn_Created ns = pr_created pr" "sn_ReplicaSets ns = []"
  using assms by (auto simp: poll_def Let_def split: option.splits sum.splits if_splits)

lemma replace_set_members:
  "rs' \<in> set (replace_set uuid rs sets) \<Longrightarrow> rs' = rs \<or> rs' \<in> set sets"
  by (induction sets) (auto split: if_splits)

lemma replace_set_map:
  "find (\<lambda>rs. set_UUID rs = uuid) sets = Some old \<Longrightarrow> f rs = f old \<Longrightarrow>
   map f (replace_set uuid rs sets) = map f sets"
  by (induction sets) (auto split: if_splits)

text \<open>What logging leaves of the two sides: only the order of instances may change.\<close>

lemma logDiscovered_frame:
  assumes c: "sort_contract srt" and l: "logDiscoveredReplicaSet srt rs live = (same, rs', live')"
  shows "sn_Created live' = sn_Created live" "sn_Routers live' = sn_Routers live"
    "sn_priorities live' = sn_priorities live"
    "map (\<lambda>r. (set_UUID r, set_MasterUUID r, set_MasterURI r, mset (set_Instances r))) (sn_ReplicaSets live') =
     map (\<lambda>r. (set_UUID r, set_MasterUUID r, set_MasterURI r, mset (set_Instances r))) (sn_ReplicaSets live)"
    "set_UUID rs' = set_UUID rs" "set_MasterUUID rs' = set_MasterUUID rs"
    "set_MasterURI rs' = set_MasterURI rs" "mset (set_Instances rs') = mset (set_Instances rs)"
proof (atomize (full), cases "Snapshot_ReplicaSet live (set_UUID rs)", goal_cases)
  case (1 e)
  with l show ?case by (simp add: logDiscoveredReplicaSet_def)
next
  case (2 previous)
  from l 2 obtain previous' where s: "SameAs srt previous rs = (same, previous', rs')"
    and live': "live' = live\<lparr>sn_ReplicaSets := replace_set (set_UUID rs) previous' (sn_ReplicaSets live)\<rparr>"
    by (auto simp: logDiscoveredReplicaSet_def split: prod.splits)
  have f: "find (\<lambda>r. set_UUID r = set_UUID rs) (sn_ReplicaSets live) = Some previous"
    using 2 by (auto simp: Snapshot_ReplicaSet_def split: option.splits)
  show ?case
    using SameAs_frame[OF s c] live'
    by (simp add: replace_set_map[OF f, where f = "\<lambda>r. (set_UUID r, set_MasterUUID r, set_MasterURI r,
        mset (set_Instances r))"])
qed

text \<open>Facts about a snapshot that only depend on the multisets of instances.\<close>

lemma priorities_applied_mset:
  "priorities_applied s \<longleftrightarrow>
     (\<forall>M \<in> set (map (\<lambda>r. mset (set_Instances r)) (sn_ReplicaSets s)). \<forall>inst \<in># M.
        inst_Priority inst = (case sn_priorities s (inst_UUID inst) of Some v \<Rightarrow> v | None \<Rightarrow> 0))"
  by (simp add: priorities_applied_def)

lemma logDiscovered_priorities:
  assumes "sort_contract srt" and l: "logDiscoveredReplicaSet srt rs live = (same, rs', live')"
  shows "priorities_applied live' \<longleftrightarrow> priorities_applied live"
proof -
  note f = logDiscovered_frame[OF assms]
  have "map (\<lambda>r. mset (set_Instances r)) (sn_ReplicaSets live') =
        map (\<lambda>r. mset (set_Instances r)) (sn_ReplicaSets live)"
    using arg_cong[OF f(4), of "map (\<lambda>(_, _, _, M). M)"] by (simp add: comp_def)
  then show ?thesis unfolding priorities_applied_mset f(3) by simp
qed

lemma commit_cases:
  assumes "commit ns c = (c', cb)"
  obtains "c' = c" "cb = None"
    | "sn_Created (cl_snapshot c) \<le> sn_Created ns"
      "c' = c\<lparr>cl_snapshot := UpdatePriorities (sn_priorities (cl_snapshot c)) ns\<rparr>"
  using assms by (auto simp: commit_def Let_def split: if_splits)

definition flight_snapshot :: "flight \<Rightarrow> Snapshot" where
  "flight_snapshot f = (case f of Polling s \<Rightarrow> s | Logging ns _ \<Rightarrow> ns)"

lemma flight_snapshot_simps [simp]:
  "flight_snapshot (Polling s) = s" "flight_snapshot (Logging ns d) = ns"
  by (simp_all add: flight_snapshot_def)

text \<open>
  The state invariant: the live snapshot carries the priorities it is configured with, and it and
  the snapshots of all discoveries in flight have the configured routers.
\<close>

definition cluster_inv :: "string list \<Rightarrow> cstate \<Rightarrow> bool" where
  "cluster_inv uris s \<longleftrightarrow>
     priorities_applied (cl_snapshot (cs_cluster s)) \<and>
     map rt_URI (sn_Routers (cl_snapshot (cs_cluster s))) = uris \<and>
     (\<forall>t f. cs_flight s t = Some f \<longrightarrow> map rt_URI (sn_Routers (flight_snapshot f)) = uris)"

lemma cl_step_inv [go_inv]:
  assumes "sort_contract srt" and "cl_step srt s a s'" and "cluster_inv uris s"
  shows "cluster_inv uris s'"
  using assms(2,3)
proof (cases rule: cl_step.cases)
  case (logged t ns rs discovered same rs' live)
  note f = logDiscovered_frame(2)[OF assms(1) logged(4)]
  have "map rt_URI (sn_Routers ns) = uris"
    using assms(3) logged(3) unfolding cluster_inv_def by (metis flight_snapshot_simps(2))
  then show ?thesis
    using assms(3) logged f logDiscovered_priorities[OF assms(1) logged(4)]
    by (simp add: cluster_inv_def)
next
  case (installed t ns c' cb)
  have r: "map rt_URI (sn_Routers ns) = uris"
    using assms(3) installed(3) unfolding cluster_inv_def by (metis flight_snapshot_simps(2))
  from installed(4) show ?thesis
    by (cases rule: commit_cases) (use assms(3) installed r in \<open>auto simp: cluster_inv_def\<close>)
next
  case (polled t snapshot pr ns discovered)
  have "map rt_URI (sn_Routers snapshot) = uris"
    using assms(3) polled(3) unfolding cluster_inv_def by (metis flight_snapshot_simps(1))
  then show ?thesis
    using assms(3) polled poll_Some(1)[OF polled(4)] by (simp add: cluster_inv_def)
qed (simp_all add: cluster_inv_def SetPriorities_def SetReadOnly_def StartRecovery_def StopRecovery_def)

lemma cl_run_inv:
  "cl_run srt s as s' \<Longrightarrow> sort_contract srt \<Longrightarrow> cluster_inv uris s \<Longrightarrow> cluster_inv uris s'"
  by (induction rule: cl_run.induct) (auto intro: go_inv)

lemma cl_step_created:
  assumes "sort_contract srt" and "cl_step srt s a s'"
  shows "LastDiscovered (cs_cluster s) \<le> LastDiscovered (cs_cluster s')"
  using assms(2)
proof (cases rule: cl_step.cases)
  case (logged t ns rs discovered same rs' live)
  then show ?thesis using logDiscovered_frame(1)[OF assms(1) logged(4)] by (simp add: LastDiscovered_def)
next
  case (installed t ns c' cb)
  from installed(4) show ?thesis
    by (cases rule: commit_cases) (use installed in \<open>simp_all add: LastDiscovered_def\<close>)
qed (simp_all add: LastDiscovered_def SetPriorities_def SetReadOnly_def StartRecovery_def StopRecovery_def)

text \<open>What the explicit operations do to the flags and the priorities, and a discovery never.\<close>

fun settings :: "act \<Rightarrow> (string \<rightharpoonup> int) \<times> bool \<times> bool \<Rightarrow> (string \<rightharpoonup> int) \<times> bool \<times> bool" where
  "settings Discovery x = x"
| "settings (ActSetPriorities p) (_, ro, rec) = (p, ro, rec)"
| "settings (ActSetReadOnly b) (p, _, rec) = (p, b, rec)"
| "settings ActStartRecovery (p, ro, _) = (p, ro, True)"
| "settings ActStopRecovery (p, ro, _) = (p, ro, False)"

definition cluster_settings :: "Cluster \<Rightarrow> (string \<rightharpoonup> int) \<times> bool \<times> bool" where
  "cluster_settings c = (sn_priorities (cl_snapshot c), ReadOnly c, HasActiveRecovery c)"

lemma cl_step_settings:
  assumes "sort_contract srt" and "cl_step srt s a s'"
  shows "cluster_settings (cs_cluster s') = settings a (cluster_settings (cs_cluster s))"
  using assms(2)
proof (cases rule: cl_step.cases)
  case (logged t ns rs discovered same rs' live)
  then show ?thesis
    using logDiscovered_frame(3)[OF assms(1) logged(4)]
    by (simp add: cluster_settings_def ReadOnly_def HasActiveRecovery_def)
next
  case (installed t ns c' cb)
  from installed(4) show ?thesis
    by (cases rule: commit_cases)
      (use installed in \<open>simp_all add: cluster_settings_def ReadOnly_def HasActiveRecovery_def\<close>)
qed (simp_all add: cluster_settings_def ReadOnly_def HasActiveRecovery_def SetPriorities_def
    SetReadOnly_def StartRecovery_def StopRecovery_def)

lemma NewCluster_Some:
  assumes "NewCluster now name cfg = Some c"
  shows "map rt_URI (sn_Routers (cl_snapshot c)) = map rc_Addr (cfg_Routers cfg)"
    "sn_ReplicaSets (cl_snapshot c) = []" "sn_priorities (cl_snapshot c) = cfg_Priorities cfg"
    "sn_Created (cl_snapshot c) = now" "cfg_ReadOnly cfg = Some (cl_readOnly c)" "cl_Name c = name"
    "\<not> cl_hasActiveRecovery c"
  using assms by (auto simp: NewCluster_def Let_def NewRouter_def comp_def UpdatePriorities_def split: option.splits)

lemma NewCluster_complete:
  "complete_Cluster cfg \<Longrightarrow> NewCluster now name cfg \<noteq> None"
  by (auto simp: complete_Cluster_def complete_Connection_def NewCluster_def)

section \<open>Discovery step by step\<close>

lemma discoverInstance_result:
  "inst_UUID (discoverInstance exec inst) = inst_UUID inst"
  "inst_URI (discoverInstance exec inst) = inst_URI inst"
  "inst_LastCheckValid (discoverInstance exec inst) \<longleftrightarrow>
     res_Error (exec (inst_URI inst)) = None \<and>
     (\<exists>info. ParseInstanceInfo (res_Data (exec (inst_URI inst))) = Inr info)"
  "\<not> inst_LastCheckValid (discoverInstance exec inst) \<Longrightarrow>
     discoverInstance exec inst = inst\<lparr>inst_LastCheckValid := False\<rparr>"
  by (auto simp: discoverInstance_def Let_def split: option.splits sum.splits)

lemma list_all2_enumerate_map:
  "(\<And>i x. P (i, x) (f i x)) \<Longrightarrow>
   list_all2 P (enumerate n xs) (map (\<lambda>(i, x). f i x) (enumerate n xs))"
  by (induction xs arbitrary: n) auto

lemma TopologyOf_Inl_iff:
  "(\<exists>e. TopologyOf s uuid = Inl e) \<longleftrightarrow> uuid \<notin> set_UUID ` set (sn_ReplicaSets s)"
proof (cases "find (\<lambda>rs. set_UUID rs = uuid) (sn_ReplicaSets s)")
  case None
  then have "\<forall>x \<in> set (sn_ReplicaSets s). set_UUID x \<noteq> uuid" by (auto simp: find_None_iff)
  with None show ?thesis by (auto simp: TopologyOf_def)
next
  case (Some rs)
  with find_SomeD[OF Some] show ?thesis by (auto simp: TopologyOf_def)
qed

text \<open>The replica sets of a snapshot up to the order of instances.\<close>

definition same_content :: "ReplicaSet \<Rightarrow> ReplicaSet \<Rightarrow> bool" where
  "same_content d r \<longleftrightarrow> set_UUID r = set_UUID d \<and> set_MasterUUID r = set_MasterUUID d \<and>
     set_MasterURI r = set_MasterURI d \<and> mset (set_Instances r) = mset (set_Instances d)"

lemma log_all_result:
  assumes c: "sort_contract srt" and "log_all srt ns discovered cl = (ns', cl')"
  shows "sn_Created ns' = sn_Created ns \<and> cluster_settings cl' = cluster_settings cl \<and>
    LastDiscovered cl' = LastDiscovered cl \<and> cl_discoveredCB cl' = cl_discoveredCB cl \<and>
    (\<exists>rss. sn_ReplicaSets ns' = sn_ReplicaSets ns @ rss \<and> list_all2 same_content discovered rss)"
  using assms(2)
proof (induction discovered arbitrary: ns cl)
  case (Cons rs discovered)
  obtain same rs' live where l: "logDiscoveredReplicaSet srt rs (cl_snapshot cl) = (same, rs', live)"
    by (cases "logDiscoveredReplicaSet srt rs (cl_snapshot cl)")
  note f = logDiscovered_frame[OF c l]
  have s: "same_content rs rs'" using f by (simp add: same_content_def)
  from Cons.IH[of "ns\<lparr>sn_ReplicaSets := sn_ReplicaSets ns @ [rs']\<rparr>" "cl\<lparr>cl_snapshot := live\<rparr>"]
    Cons.prems l f(1,3) s
  show ?case
    by (auto simp: cluster_settings_def ReadOnly_def HasActiveRecovery_def LastDiscovered_def)
qed simp

section \<open>A concrete cluster\<close>

text \<open>One router that reports one replica set with one instance, its master.\<close>

definition sample_config :: ClusterConfig where
  "sample_config = \<lparr>cfg_Connection = Some default_Connection, cfg_ReadOnly = Some False,
     cfg_ElectionMode = Some ''smart'', cfg_OverrideURIRules = Map.empty,
     cfg_Priorities = [''m'' \<mapsto> 3], cfg_Routers = [\<lparr>rc_Name = ''r'', rc_Addr = ''r:1''\<rparr>]\<rparr>"

definition answer :: "ivalue \<Rightarrow> attempt" where
  "answer v = Responded \<lparr>res_Error = None, res_ErrorCode = 0, res_Data = [[v]]\<rparr>"

definition sample_info :: InstanceInfo where
  "sample_info = \<lparr>info_Readonly = False, info_VShardFingerprint = 7, info_StorageInfo = zero_StorageInfo\<rparr>"

definition sample_router_info :: RouterInfo where
  "sample_router_info = \<lparr>ri_LastSeen = 0,
     ri_ReplicaSets = [(''s'', \<lparr>rip_UUID = ''m'', rip_Status = ''available'', rip_URI = ''h:1'',
       rip_NetworkTimeout = f64_half\<rparr>)],
     ri_Bucket = \<lparr>rb_AvailableRO = 0, rb_AvailableRW = 1, rb_Unknown = 0, rb_Unreachable = 0\<rparr>,
     ri_Status = 0, ri_Alerts = []\<rparr>"

definition sample_probe :: probe where
  "sample_probe = \<lparr>pr_codes = \<lparr>tc_ErrNoConnection = 1, tc_ErrTimeout = 2\<rparr>, pr_pick = 0,
     pr_router = (\<lambda>_ _. answer (encode_router_info sample_router_info)),
     pr_replication = (\<lambda>_ _ _. answer (encode_replica (zero_Instance\<lparr>inst_UUID := ''m''\<rparr>))),
     pr_instance = (\<lambda>_ _ _ _. answer (encode_info sample_info)),
     pr_seen = 9, pr_created = 10, pr_order = (\<lambda>sets. sets)\<rparr>"

definition sample_template :: ConnOptions where
  "sample_template = \<lparr>co_User = ''guest'', co_Password = ''guest'', co_ConnectTimeout = 500 * Millisecond, co_QueryTimeout = Second\<rparr>"

definition sample_cluster :: Cluster where
  "sample_cluster = \<lparr>cl_Name = ''k'', cl_template = sample_template, cl_rules = Map.empty,
     cl_snapshot = \<lparr>sn_Created = 5, sn_Routers = [NewRouter ''r:1''], sn_ReplicaSets = [],
       sn_priorities = [''m'' \<mapsto> 3]\<rparr>,
     cl_readOnly = False, cl_hasActiveRecovery = False, cl_discoveredCB = False\<rparr>"

lemma sample_NewCluster: "NewCluster 5 ''k'' sample_config = Some sample_cluster"
  by (simp add: NewCluster_def sample_config_def sample_cluster_def sample_template_def default_Connection_def
      UpdatePriorities_def)

lemma response_answer: "response codes (\<lambda>_. answer v) = \<lparr>res_Error = None, res_ErrorCode = 0, res_Data = [[v]]\<rparr>"
  by (simp add: response_def Exec_def maxRetries_def numeral_2_eq_2 answer_def)

lemma wf_samples:
  "wf_router_info sample_router_info" "wf_info sample_info" "wf_replica (zero_Instance\<lparr>inst_UUID := u\<rparr>)"
  by (simp_all add: wf_router_info_def sample_router_info_def in_int64_def wf_info_def sample_info_def
      zero_StorageInfo_def zero_InstanceBucket_def wf_replica_def zero_Instance_def)

text \<open>What the probe finds, and a run in which settings change while it is in flight.\<close>

definition sample_instance :: Instance where
  "sample_instance = zero_Instance\<lparr>inst_UUID := ''m'', inst_URI := ''h:1'', inst_LastCheckValid := True,
     inst_VShardFingerprint := 7\<rparr>"

definition sample_discovered :: ReplicaSet where
  "sample_discovered = \<lparr>set_UUID = ''s'', set_MasterUUID = ''m'', set_MasterURI = ''h:1'',
     set_Instances = [sample_instance]\<rparr>"

lemma sample_discoverSet:
  "discoverSet sample_probe rules snapshot (''s'', \<lparr>rip_UUID = ''m'', rip_Status = ''available'',
     rip_URI = ''h:1'', rip_NetworkTimeout = f64_half\<rparr>) = Some sample_discovered"
  by (simp add: discoverSet_def set_topology_def ask_instance_def Let_def discoverReplication_def sample_probe_def response_answer
      ParseReplication_encode[where ?insts = "[zero_Instance\<lparr>inst_UUID := ''m''\<rparr>]"] wf_samples
      encode_replica_def discoverInstances_def discoverInstance_def ParseInstanceInfo_encode
      sample_discovered_def sample_instance_def sample_info_def[THEN eq_reflection, symmetric])
    (simp add: sample_info_def zero_Instance_def)

lemma sample_poll:
  "\<exists>ns. poll sample_probe Map.empty (cl_snapshot sample_cluster) = Some (ns, [sample_discovered])"
proof -
  have r: "res_Data (response (pr_codes sample_probe) (pr_router sample_probe u)) = [[encode_router_info sample_router_info]]"
    "res_Error (response (pr_codes sample_probe) (pr_router sample_probe u)) = None" for u
    by (simp_all add: sample_probe_def response_answer)
  have d: "List.map_filter (discoverSet sample_probe Map.empty (cl_snapshot sample_cluster))
      (ri_ReplicaSets sample_router_info) = [sample_discovered]"
    unfolding sample_router_info_def by (simp add: sample_discoverSet List.map_filter_simps)
  show ?thesis
    unfolding poll_def
    by (simp add: pickUpRandomRouter_def sample_cluster_def r ParseRouterInfo_encode wf_samples
        d[unfolded sample_cluster_def, simplified] sample_probe_def[THEN arg_cong, of pr_order, simplified])
qed

lemma sample_run:
  "\<exists>s. cl_run srt (idle_state sample_cluster) [Discovery, ActSetPriorities [''m'' \<mapsto> 8], ActStartRecovery] s"
proof -
  let ?c = "idle_state sample_cluster"
  have 1: "\<exists>s. cl_step srt ?c Discovery s"
    using begins[of ?c 0 srt] by (auto simp: idle_state_def)
  then obtain s where s: "cl_step srt ?c Discovery s" by blast
  have "cl_run srt ?c ([] @ [Discovery] @ [ActSetPriorities [''m'' \<mapsto> 8]] @ [ActStartRecovery])
      ((s\<lparr>cs_cluster := SetPriorities [''m'' \<mapsto> 8] (cs_cluster s)\<rparr>)
        \<lparr>cs_cluster := StartRecovery (cs_cluster (s\<lparr>cs_cluster := SetPriorities [''m'' \<mapsto> 8] (cs_cluster s)\<rparr>))\<rparr>)"
    using run_snoc[OF run_snoc[OF run_snoc[OF run_nil s] priorities] starts] by simp
  then show ?thesis by auto
qed

section \<open>Properties\<close>

text \<open>C27: whatever discoveries and other operations run concurrently on a new cluster, its live
  snapshot lists the configured routers in order, and every instance of it carries the priority
  that is configured at that moment, or 0.\<close>

theorem cluster_invariant:
  assumes "sort_contract srt" and "NewCluster now name cfg = Some c" and "cl_run srt (idle_state c) as s"
  shows "map rt_URI (Cluster_Routers (cs_cluster s)) = map rc_Addr (cfg_Routers cfg) \<and>
     (\<forall>inst \<in> set (Cluster_Instances (cs_cluster s)).
        inst_Priority inst = (case sn_priorities (cl_snapshot (cs_cluster s)) (inst_UUID inst) of
          Some v \<Rightarrow> v | None \<Rightarrow> 0))"
proof -
  have "cluster_inv (map rc_Addr (cfg_Routers cfg)) (idle_state c)"
    using NewCluster_Some[OF assms(2)] by (simp add: cluster_inv_def idle_state_def priorities_applied_def)
  with assms(1,3) have "cluster_inv (map rc_Addr (cfg_Routers cfg)) s" by (blast intro: cl_run_inv)
  then show ?thesis
    by (auto simp: cluster_inv_def Cluster_Routers_def Cluster_Instances_def priorities_applied_def)
qed

theorem cluster_invariant_witness:
  "\<exists>s. cl_run insertion_sort (idle_state sample_cluster)
        [Discovery, ActSetPriorities [''m'' \<mapsto> 8], ActStartRecovery] s \<and>
     map rt_URI (Cluster_Routers (cs_cluster s)) = [''r:1'']"
proof -
  obtain s where s: "cl_run insertion_sort (idle_state sample_cluster)
      [Discovery, ActSetPriorities [''m'' \<mapsto> 8], ActStartRecovery] s"
    using sample_run by blast
  with cluster_invariant[OF insertion_sort_contract sample_NewCluster s] show ?thesis
    by (auto simp: sample_config_def)
qed

text \<open>The time of the installed snapshot never goes back, whatever the clock does and however
  discoveries overlap; a discovery that finished polling earlier never replaces a later one.\<close>

theorem LastDiscovered_mono:
  assumes "sort_contract srt" and "cl_run srt s as s'"
  shows "LastDiscovered (cs_cluster s) \<le> LastDiscovered (cs_cluster s')"
  using assms(2)
proof (induction rule: cl_run.induct)
  case (run_snoc s as s' a s'')
  from run_snoc.IH cl_step_created[OF assms(1) run_snoc.hyps(2)] show ?case by (rule order_trans)
qed simp

theorem LastDiscovered_mono_witness:
  "\<exists>s. cl_run insertion_sort (idle_state sample_cluster)
        [Discovery, ActSetPriorities [''m'' \<mapsto> 8], ActStartRecovery] s \<and> 5 \<le> LastDiscovered (cs_cluster s)"
  using sample_run LastDiscovered_mono[OF insertion_sort_contract, of "idle_state sample_cluster"]
  by (force simp: idle_state_def LastDiscovered_def sample_cluster_def)

text \<open>C28: discoveries lose no setting: after any interleaving the priorities, the read-only flag
  and the recovery flag are those of the last operations that set them.\<close>

theorem settings_not_lost:
  assumes "sort_contract srt" and "cl_run srt s as s'"
  shows "cluster_settings (cs_cluster s') = fold settings as (cluster_settings (cs_cluster s))"
  using assms(2)
  by (induction rule: cl_run.induct) (simp_all add: cl_step_settings[OF assms(1)])

theorem settings_not_lost_witness:
  "\<exists>s. cl_run insertion_sort (idle_state sample_cluster)
        [Discovery, ActSetPriorities [''m'' \<mapsto> 8], ActStartRecovery] s \<and>
     cluster_settings (cs_cluster s) = ([''m'' \<mapsto> 8], False, True)"
  using sample_run settings_not_lost[OF insertion_sort_contract, of "idle_state sample_cluster"]
  by (force simp: idle_state_def cluster_settings_def sample_cluster_def ReadOnly_def)

text \<open>What becomes of one replica set a router reports.  Its master is the one the router
  names; its instances are those of the master's replication or, when the master cannot be
  asked, those of the previous snapshot, and it is left out only when there is neither.  Every
  instance is polled itself: it is marked valid exactly when its own answer could be read, and
  otherwise keeps what was known of it.\<close>

theorem discoverSet_result:
  "let repl = discoverReplication
         (\<lambda>uri. response (pr_codes pr) (pr_replication pr uuid (pool_key rules uri))) master;
       ask = (\<lambda>i uri. response (pr_codes pr) (pr_instance pr uuid i (pool_key rules uri)))
   in case discoverSet pr rules snapshot (uuid, master) of
        None \<Rightarrow> (\<exists>e. repl = Inl e) \<and> uuid \<notin> set_UUID ` set (sn_ReplicaSets snapshot)
      | Some rs \<Rightarrow>
          set_UUID rs = uuid \<and> set_MasterUUID rs = rip_UUID master \<and> set_MasterURI rs = rip_URI master \<and>
          (\<exists>topology.
             (repl = Inr topology \<or> (\<exists>e. repl = Inl e) \<and> TopologyOf snapshot uuid = Inr topology) \<and>
             list_all2 (\<lambda>(i, old) new. inst_UUID new = inst_UUID old \<and> inst_URI new = inst_URI old \<and>
                 (if res_Error (ask i (inst_URI old)) = None \<and>
                     (\<exists>info. ParseInstanceInfo (res_Data (ask i (inst_URI old))) = Inr info)
                  then inst_LastCheckValid new else new = old\<lparr>inst_LastCheckValid := False\<rparr>))
               (enumerate 0 topology) (set_Instances rs))"
proof -
  let ?repl = "discoverReplication
    (\<lambda>uri. response (pr_codes pr) (pr_replication pr uuid (pool_key rules uri))) master"
  let ?ask = "\<lambda>i uri. response (pr_codes pr) (pr_instance pr uuid i (pool_key rules uri))"
  let ?P = "\<lambda>(i, old) new. inst_UUID new = inst_UUID old \<and> inst_URI new = inst_URI old \<and>
     (if res_Error (?ask i (inst_URI old)) = None \<and>
         (\<exists>info. ParseInstanceInfo (res_Data (?ask i (inst_URI old))) = Inr info)
      then inst_LastCheckValid new else new = old\<lparr>inst_LastCheckValid := False\<rparr>)"
  have poll: "list_all2 ?P (enumerate 0 topology) (discoverInstances ?ask topology)" for topology
    unfolding discoverInstances_def
    by (rule list_all2_enumerate_map) (simp add: discoverInstance_result)
  show ?thesis
  proof (cases ?repl)
    case (Inr topology)
    with poll[of topology] show ?thesis by (simp add: discoverSet_def set_topology_def ask_instance_def[abs_def] Let_def)
  next
    case e: (Inl e)
    show ?thesis
    proof (cases "TopologyOf snapshot uuid")
      case (Inr topology)
      with e poll[of topology] show ?thesis by (simp add: discoverSet_def set_topology_def ask_instance_def[abs_def] Let_def)
    next
      case (Inl e')
      with TopologyOf_Inl_iff[of snapshot uuid] e show ?thesis by (simp add: discoverSet_def set_topology_def ask_instance_def[abs_def] Let_def)
    qed
  qed
qed

text \<open>C29: an undisturbed discovery whose clock has not gone back installs exactly the replica sets
  it discovered, in the order they arrived, each with its instances and the priorities configured
  in the cluster, and touches neither flag.\<close>

theorem Discover_installs:
  assumes "sort_contract srt"
    and "poll pr (cl_rules c) (Snapshot_Copy (cl_snapshot c)) = Some (ns, discovered)"
    and "LastDiscovered c \<le> pr_created pr"
  shows "LastDiscovered (fst (Discover srt pr c)) = pr_created pr \<and>
    cluster_settings (fst (Discover srt pr c)) = cluster_settings c \<and>
    list_all2 (\<lambda>d r. set_UUID r = set_UUID d \<and> set_MasterUUID r = set_MasterUUID d \<and>
        set_MasterURI r = set_MasterURI d \<and>
        mset (set_Instances r) = mset (map (set_priority (sn_priorities (cl_snapshot c))) (set_Instances d)))
      discovered (Cluster_ReplicaSets (fst (Discover srt pr c)))"
proof -
  obtain ns' c' where l: "log_all srt ns discovered c = (ns', c')"
    by (cases "log_all srt ns discovered c")
  note r = log_all_result[OF assms(1) l] and p = poll_Some[OF assms(2)]
  obtain rss where rss: "sn_ReplicaSets ns' = rss" "list_all2 same_content discovered rss"
    using r p(3) by auto
  have pr: "sn_priorities (cl_snapshot c') = sn_priorities (cl_snapshot c)"
    using r by (simp add: cluster_settings_def)
  have d: "fst (Discover srt pr c) =
      c'\<lparr>cl_snapshot := UpdatePriorities (sn_priorities (cl_snapshot c)) ns'\<rparr>"
    using assms(2,3) l r p(2) pr by (simp add: Discover_def commit_def Let_def LastDiscovered_def)
  have "list_all2 (\<lambda>d r. set_UUID r = set_UUID d \<and> set_MasterUUID r = set_MasterUUID d \<and>
        set_MasterURI r = set_MasterURI d \<and>
        mset (set_Instances r) = mset (map (set_priority (sn_priorities (cl_snapshot c))) (set_Instances d)))
      discovered (map (\<lambda>r. r\<lparr>set_Instances := map (set_priority (sn_priorities (cl_snapshot c))) (set_Instances r)\<rparr>) rss)"
    using rss(2) by (auto simp: list_all2_map2 same_content_def elim!: list_all2_mono)
  then show ?thesis
    using r p(2) pr rss(1) unfolding d
    by (simp add: LastDiscovered_def cluster_settings_def Cluster_ReplicaSets_def UpdatePriorities_def
        ReadOnly_def HasActiveRecovery_def)
qed

theorem Discover_installs_witness:
  "LastDiscovered (fst (Discover insertion_sort sample_probe sample_cluster)) = 10 \<and>
   map set_UUID (Cluster_ReplicaSets (fst (Discover insertion_sort sample_probe sample_cluster))) = [''s'']"
proof -
  obtain ns where p: "poll sample_probe Map.empty (cl_snapshot sample_cluster) = Some (ns, [sample_discovered])"
    using sample_poll by blast
  have "LastDiscovered sample_cluster \<le> pr_created sample_probe" "cl_rules sample_cluster = Map.empty"
    by (simp_all add: LastDiscovered_def sample_cluster_def sample_probe_def)
  with Discover_installs[OF insertion_sort_contract, of sample_probe sample_cluster ns "[sample_discovered]"] p
  show ?thesis by (auto simp: list_all2_Cons1 sample_discovered_def sample_probe_def)
qed

section \<open>The mock cluster\<close>

text \<open>mock.go: the cluster the tests of the orchestrator start from.\<close>

definition NewBool :: "bool \<Rightarrow> bool option" where [simp]: "NewBool v = Some v"
definition NewDuration :: "duration \<Rightarrow> duration option" where [simp]: "NewDuration v = Some v"
definition NewString :: "string \<Rightarrow> string option" where [simp]: "NewString v = Some v"

definition mock_config :: ClusterConfig where
  "mock_config = \<lparr>
     cfg_Connection = Some \<lparr>cc_User = NewString ''qumomf'', cc_Password = NewString ''qumomf'',
       cc_ConnectTimeout = NewDuration Second, cc_RequestTimeout = NewDuration Second\<rparr>,
     cfg_ReadOnly = NewBool True, cfg_ElectionMode = None,
     cfg_OverrideURIRules = [''qumomf_1_m.ddk:3301'' \<mapsto> ''127.0.0.1:9303'', ''qumomf_1_s.ddk:3301'' \<mapsto> ''127.0.0.1:9304'',
       ''qumomf_2_m.ddk:3301'' \<mapsto> ''127.0.0.1:9305'', ''qumomf_2_s_1.ddk:3301'' \<mapsto> ''127.0.0.1:9306'',
       ''qumomf_2_s_2.ddk:3301'' \<mapsto> ''127.0.0.1:9307''],
     cfg_Priorities = [''bd64dd00-161e-4c99-8b3c-d3c4635e18d2'' \<mapsto> 10, ''cc4cfb9c-11d8-4810-84d2-66cfbebb0f6e'' \<mapsto> 5],
     cfg_Routers = [\<lparr>rc_Name = ''router_1'', rc_Addr = ''127.0.0.1:9301''\<rparr>]\<rparr>"

definition MockCluster :: "int \<Rightarrow> Cluster option" where
  "MockCluster now = NewCluster now ''sandbox'' mock_config"

lemma MockCluster_usable: "\<exists>c. MockCluster now = Some c \<and> cl_Name c = ''sandbox'' \<and> cl_readOnly c \<and>
    map rt_URI (sn_Routers (cl_snapshot c)) = [''127.0.0.1:9301''] \<and> sn_ReplicaSets (cl_snapshot c) = []"
proof -
  have "NewCluster now ''sandbox'' mock_config \<noteq> None" by (simp add: NewCluster_def mock_config_def)
  then obtain c where c: "NewCluster now ''sandbox'' mock_config = Some c" by blast
  from NewCluster_Some[OF c] have "cl_Name c = ''sandbox'' \<and> cl_readOnly c \<and>
      map rt_URI (sn_Routers (cl_snapshot c)) = [''127.0.0.1:9301''] \<and> sn_ReplicaSets (cl_snapshot c) = []"
    by (simp add: mock_config_def)
  with c show ?thesis by (auto simp: MockCluster_def)
qed

end
