(* ===== verification/Orch_Recovery.thy ===== *)
theory Orch_Recovery
  imports Orch_Analysis Vshard_Cluster
begin

text \<open>
  internal/vshard/orchestrator/recovery.go and the registry of recoveries in failover.go.

  The failover goroutine meets its environment one interaction after another: it reads the
  clock and the process environment, runs hooks, sends queries and reads the cluster, which
  concurrent discoveries may have changed in the meantime.  \<open>env\<close> says what interaction number
  \<open>n\<close> gives; \<open>world\<close> counts the interactions, records the effects the goroutine has had,
  oldest first, and holds the recovery flag of the cluster, which only this goroutine writes.
  Times of the clock are nanoseconds since the epoch.
\<close>

type_synonym HookType = string
type_synonym RecoveryScope = string

definition RecoveryScopeInstance :: RecoveryScope where [simp]: "RecoveryScopeInstance = ''instance''"
definition RecoveryScopeSet :: RecoveryScope where [simp]: "RecoveryScopeSet = ''replica set''"

record Recovery =
  rv_Type :: string
  rv_Scope :: RecoveryScope
  rv_AnalysisEntry :: ReplicationAnalysis
  rv_ClusterName :: string
  rv_SetUUID :: ReplicaSetUUID
  rv_Failed :: InstanceIdent
  rv_Successor :: InstanceIdent
  rv_IsSuccessful :: bool
  rv_StartTimestamp :: int
  rv_EndTimestamp :: int
  rv_Expiration :: int

definition zero_InstanceIdent :: InstanceIdent where
  "zero_InstanceIdent = \<lparr>ident_UUID = '''', ident_URI = ''''\<rparr>"

section \<open>The environment\<close>

text \<open>
  Effects: a hook that was run to its end or started in the background, a query that was
  answered (with whether it succeeded), and the calls on the registry and the cluster.
\<close>

datatype event =
    EvHook HookType string
  | EvHookAsync HookType string
  | EvExec string string bool
  | EvRegistered Recovery
  | EvRecoveredCB Recovery
  | EvStartRecovery
  | EvStopRecovery
  | EvDiscover

record env =
  env_now :: "nat \<Rightarrow> int"
  env_environ :: "nat \<Rightarrow> string list"
  env_run :: "nat \<Rightarrow> string \<Rightarrow> string \<Rightarrow> string list \<Rightarrow> duration \<times> string option"
  env_exec :: "nat \<Rightarrow> string \<Rightarrow> string \<Rightarrow> nat \<Rightarrow> attempt"
  env_codes :: tnt_codes
  env_cluster :: "nat \<Rightarrow> Cluster"

record world =
  w_io :: nat
  w_trace :: "event list"
  w_active :: bool

definition tick :: "world \<Rightarrow> world" where
  "tick w = w\<lparr>w_io := Suc (w_io w)\<rparr>"

definition emit :: "event \<Rightarrow> world \<Rightarrow> world" where
  "emit e w = w\<lparr>w_io := Suc (w_io w), w_trace := w_trace w @ [e]\<rparr>"

text \<open>\<open>util.Timestamp\<close>: whole seconds.\<close>

definition Timestamp :: "env \<Rightarrow> world \<Rightarrow> int \<times> world" where
  "Timestamp env w = (env_now env (w_io w) div Second, tick w)"

section \<open>Recoveries\<close>

definition NewRecovery :: "env \<Rightarrow> RecoveryScope \<Rightarrow> InstanceIdent \<Rightarrow> ReplicationAnalysis \<Rightarrow> world
    \<Rightarrow> Recovery \<times> world" where
  "NewRecovery env scope failed analysis w =
     (let (t, w) = Timestamp env w
      in (\<lparr>rv_Type = state_string (an_State analysis), rv_Scope = scope, rv_AnalysisEntry = analysis,
           rv_ClusterName = '''', rv_SetUUID = set_UUID (an_Set analysis), rv_Failed = failed,
           rv_Successor = zero_InstanceIdent, rv_IsSuccessful = False, rv_StartTimestamp = t,
           rv_EndTimestamp = 0, rv_Expiration = 0\<rparr>, w))"

definition ExpireAfter :: "env \<Rightarrow> duration \<Rightarrow> Recovery \<Rightarrow> world \<Rightarrow> Recovery \<times> world" where
  "ExpireAfter env ttl r w =
     (let exp = (env_now env (w_io w) + ttl) div Second in (r\<lparr>rv_Expiration := exp\<rparr>, tick w))"

definition ScopeKey :: "Recovery \<Rightarrow> string" where
  "ScopeKey r =
     (if rv_Scope r = RecoveryScopeInstance then ident_UUID (rv_Failed r)
      else if rv_Scope r = RecoveryScopeSet then rv_SetUUID r
      else rv_ClusterName r)"

definition Expired :: "env \<Rightarrow> Recovery \<Rightarrow> world \<Rightarrow> bool \<times> world" where
  "Expired env r w = (let (now, w) = Timestamp env w in (rv_Expiration r < now, w))"

text \<open>\<open>rfc3339\<close> is \<open>time.Unix(t, 0).Format(time.RFC3339)\<close>, which depends on the local zone.\<close>

definition Recovery_String :: "(int \<Rightarrow> string) \<Rightarrow> Recovery \<Rightarrow> string" where
  "Recovery_String rfc3339 r =
     ''set: '' @ rv_SetUUID r @ '', type: '' @ rv_Type r
     @ '', failed: '' @ ident_UUID (rv_Failed r)
     @ (if ident_UUID (rv_Successor r) \<noteq> ''''
        then '', successor: '' @ ident_UUID (rv_Successor r) else '''')
     @ '', success: '' @ FormatBool (rv_IsSuccessful r)
     @ '', period: '' @ rfc3339 (rv_StartTimestamp r) @ '' - '' @ rfc3339 (rv_EndTimestamp r)
     @ '', duration: '' @ Itoa (rv_EndTimestamp r - rv_StartTimestamp r) @ ''s''"

section \<open>The registry\<close>

definition registryRecovery :: "Recovery \<Rightarrow> Recovery list \<Rightarrow> Recovery list" where
  "registryRecovery r recoveries = recoveries @ [r]"

fun hasBlockedRecovery :: "env \<Rightarrow> Recovery list \<Rightarrow> string \<Rightarrow> world \<Rightarrow> bool \<times> world" where
  "hasBlockedRecovery env [] key w = (False, w)"
| "hasBlockedRecovery env (b # recoveries) key w =
     (if ScopeKey b = key
      then let (expired, w) = Expired env b w
           in if \<not> expired then (True, w) else hasBlockedRecovery env recoveries key w
      else hasBlockedRecovery env recoveries key w)"

fun alive_recoveries :: "env \<Rightarrow> Recovery list \<Rightarrow> world \<Rightarrow> Recovery list \<times> world" where
  "alive_recoveries env [] w = ([], w)"
| "alive_recoveries env (b # recoveries) w =
     (let (expired, w) = Expired env b w; (alive, w) = alive_recoveries env recoveries w
      in (if \<not> expired then b # alive else alive, w))"

definition cleanup :: "env \<Rightarrow> bool \<Rightarrow> Recovery list \<Rightarrow> world \<Rightarrow> Recovery list \<times> world" where
  "cleanup env force recoveries w =
     (if length recoveries = 0 then (recoveries, w)
      else if \<not> force then alive_recoveries env recoveries w
      else ([], w))"

section \<open>Lemmas\<close>

lemma world_simps [simp]:
  "w_trace (tick w) = w_trace w" "w_io (tick w) = Suc (w_io w)"
  "w_trace (emit e w) = w_trace w @ [e]" "w_io (emit e w) = Suc (w_io w)"
  "w_active (tick w) = w_active w" "w_active (emit e w) = w_active w"
  by (simp_all add: tick_def emit_def)

lemma Timestamp_world: "Timestamp env w = (t, w') \<Longrightarrow> w_trace w' = w_trace w"
  by (auto simp: Timestamp_def)

lemma hasBlockedRecovery_trace: "hasBlockedRecovery env rs key w = (b, w') \<Longrightarrow> w_trace w' = w_trace w"
  by (induction env rs key w arbitrary: b w' rule: hasBlockedRecovery.induct)
    (auto simp: Expired_def Timestamp_def Let_def split: if_splits)

lemma NewRecovery_fields:
  assumes "NewRecovery env scope failed analysis w = (r, w')"
  shows "rv_Scope r = scope" "rv_Failed r = failed" "rv_SetUUID r = set_UUID (an_Set analysis)"
    "rv_AnalysisEntry r = analysis" "\<not> rv_IsSuccessful r" "rv_Successor r = zero_InstanceIdent"
    "w_trace w' = w_trace w" "w_io w' = Suc (w_io w)" "rv_StartTimestamp r = env_now env (w_io w) div Second"
  using assms by (auto simp: NewRecovery_def Timestamp_def)

lemma ExpireAfter_fields:
  assumes "ExpireAfter env ttl r w = (r', w')"
  shows "r' = r\<lparr>rv_Expiration := (env_now env (w_io w) + ttl) div Second\<rparr>" "w' = tick w"
  using assms by (auto simp: ExpireAfter_def)

lemma ScopeKey_update [simp]:
  "ScopeKey (r\<lparr>rv_Expiration := e\<rparr>) = ScopeKey r" "ScopeKey (r\<lparr>rv_Successor := s\<rparr>) = ScopeKey r"
  "ScopeKey (r\<lparr>rv_IsSuccessful := b\<rparr>) = ScopeKey r" "ScopeKey (r\<lparr>rv_EndTimestamp := t\<rparr>) = ScopeKey r"
  by (simp_all add: ScopeKey_def)

lemma ScopeKey_name [simp]:
  "rv_Scope r = RecoveryScopeInstance \<or> rv_Scope r = RecoveryScopeSet \<Longrightarrow>
   ScopeKey (r\<lparr>rv_ClusterName := n\<rparr>) = ScopeKey r"
  by (auto simp: ScopeKey_def)

text \<open>Nothing in the registry blocks a key that no entry has.\<close>

lemma hasBlockedRecovery_no_key:
  "\<forall>b \<in> set rs. ScopeKey b \<noteq> key \<Longrightarrow> hasBlockedRecovery env rs key w = (False, w)"
  by (induction rs) auto

text \<open>An entry blocks as long as the clock has not passed its expiration.\<close>

lemma hasBlockedRecovery_blocks:
  "b \<in> set rs \<Longrightarrow> ScopeKey b = key \<Longrightarrow> \<forall>n. env_now env n div Second \<le> rv_Expiration b \<Longrightarrow>
   fst (hasBlockedRecovery env rs key w)"
  by (induction env rs key w rule: hasBlockedRecovery.induct)
    (auto simp: Expired_def Timestamp_def Let_def not_less)

lemma hasBlockedRecovery_expired:
  "\<forall>b \<in> set rs. ScopeKey b = key \<longrightarrow> (\<forall>n. rv_Expiration b < env_now env n div Second) \<Longrightarrow>
   \<not> fst (hasBlockedRecovery env rs key w)"
  by (induction env rs key w rule: hasBlockedRecovery.induct)
    (auto simp: Expired_def Timestamp_def Let_def)

lemma alive_recoveries_subset:
  "alive_recoveries env rs w = (alive, w') \<Longrightarrow> set alive \<subseteq> set rs \<and> w_trace w' = w_trace w"
  by (induction env rs w arbitrary: alive w' rule: alive_recoveries.induct)
    (fastforce simp: Expired_def Timestamp_def Let_def split: prod.splits if_splits)+

text \<open>With a clock that does not go back, what is removed would not have blocked later.\<close>

lemma alive_recoveries_keeps:
  assumes "alive_recoveries env rs w = (alive, w')" and "b \<in> set rs"
    and "\<forall>n \<ge> w_io w. env_now env n div Second \<le> rv_Expiration b"
  shows "b \<in> set alive"
  using assms
proof (induction env rs w arbitrary: alive w' rule: alive_recoveries.induct)
  case (2 env c rs w)
  obtain alive1 w1 where r: "alive_recoveries env rs (tick w) = (alive1, w1)"
    by (cases "alive_recoveries env rs (tick w)")
  have IH: "b \<in> set rs \<Longrightarrow> b \<in> set alive1"
    using 2(1)[of "(rv_Expiration c < env_now env (w_io w) div Second, tick w)"] r 2(4)
    by (simp add: Expired_def Timestamp_def)
  show ?case
    using 2(2-4) r IH by (auto simp: Expired_def Timestamp_def Let_def not_less split: if_splits)
qed simp

end
