(* ===== verification/Orch_Hook.thy ===== *)
theory Orch_Hook
  imports Orch_Recovery
begin

text \<open>
  internal/vshard/orchestrator/hook.go: the hook commands run before and after a failover.

  Running a command is an interaction with the environment (\<open>env_run\<close>: the shell, the command
  and its environment variables give the time the command needs and an error or none).  An
  asynchronous hook is only started; its outcome is ignored.
\<close>

definition HookPreFailover :: HookType where [simp]: "HookPreFailover = ''PreFailover''"
definition HookPostSuccessfulFailover :: HookType where
  [simp]: "HookPostSuccessfulFailover = ''PostSuccessfulFailover''"
definition HookPostUnsuccessfulFailover :: HookType where
  [simp]: "HookPostUnsuccessfulFailover = ''PostUnsuccessfulFailover''"

definition ShellBash :: string where [simp]: "ShellBash = ''bash''"

record Hooker =
  hr_shell :: string
  hr_processes :: "HookType \<rightharpoonup> string list"
  hr_timeout :: duration
  hr_timeoutAsync :: duration

definition NewHooker :: "string \<Rightarrow> Hooker" where
  "NewHooker shell = \<lparr>hr_shell = shell, hr_processes = Map.empty, hr_timeout = 2 * Second,
     hr_timeoutAsync = 10 * Minute\<rparr>"

definition NewBashHooker :: Hooker where
  "NewBashHooker = NewHooker ShellBash"

definition SetTimeout :: "duration \<Rightarrow> Hooker \<Rightarrow> Hooker" where
  "SetTimeout t h = h\<lparr>hr_timeout := t\<rparr>"

definition SetTimeoutAsync :: "duration \<Rightarrow> Hooker \<Rightarrow> Hooker" where
  "SetTimeoutAsync t h = h\<lparr>hr_timeoutAsync := t\<rparr>"

definition AddHook :: "HookType \<Rightarrow> string list \<Rightarrow> Hooker \<Rightarrow> Hooker" where
  "AddHook t commands h =
     (let hooks = (case hr_processes h t of Some hooks \<Rightarrow> hooks | None \<Rightarrow> [])
      in h\<lparr>hr_processes := (hr_processes h)(t \<mapsto> hooks @ commands)\<rparr>)"

text \<open>Reading a missing key of the map gives the nil slice.\<close>

definition hooks_of :: "Hooker \<Rightarrow> HookType \<Rightarrow> string list" where
  "hooks_of h t = (case hr_processes h t of Some hooks \<Rightarrow> hooks | None \<Rightarrow> [])"

section \<open>Commands\<close>

definition prepareCommand :: "string \<Rightarrow> Recovery \<Rightarrow> string \<times> bool" where
  "prepareCommand command recv =
     (let command = TrimSpace command;
          async = HasPrefix command ''&'';
          command = (if async then TrimLeft1 (CHR ''&'') command else command);
          analysis = rv_AnalysisEntry recv;
          command = replace_all ''{failureType}'' (rv_Type recv) command;
          command = replace_all ''{failedUUID}'' (ident_UUID (rv_Failed recv)) command;
          command = replace_all ''{failedURI}'' (ident_URI (rv_Failed recv)) command;
          command = replace_all ''{failureCluster}'' (rv_ClusterName recv) command;
          command = replace_all ''{failureReplicaSetUUID}'' (rv_SetUUID recv) command;
          command = replace_all ''{countFollowers}'' (Itoa (int (an_CountReplicas analysis))) command;
          command = replace_all ''{countWorkingFollowers}''
                      (Itoa (int (an_CountWorkingReplicas analysis))) command;
          command = replace_all ''{countReplicatingFollowers}''
                      (Itoa (int (an_CountReplicatingReplicas analysis))) command;
          command = replace_all ''{countInconsistentVShardConf}''
                      (Itoa (int (an_CountInconsistentVShardConf analysis))) command;
          command = replace_all ''{isSuccessful}'' (FormatBool (rv_IsSuccessful recv)) command;
          command = (if rv_IsSuccessful recv
                     then replace_all ''{successorURI}'' (ident_URI (rv_Successor recv))
                            (replace_all ''{successorUUID}'' (ident_UUID (rv_Successor recv)) command)
                     else command)
      in (command, async))"

definition applyEnvironmentVariables :: "string list \<Rightarrow> Recovery \<Rightarrow> string list" where
  "applyEnvironmentVariables environ recv =
     (let a = rv_AnalysisEntry recv
      in environ
         @ [''QUM_FAILURE_TYPE='' @ rv_Type recv,
            ''QUM_FAILED_UUID='' @ ident_UUID (rv_Failed recv),
            ''QUM_FAILED_URI='' @ ident_URI (rv_Failed recv),
            ''QUM_FAILURE_CLUSTER='' @ rv_ClusterName recv,
            ''QUM_FAILURE_REPLICA_SET_UUID='' @ rv_SetUUID recv,
            ''QUM_COUNT_FOLLOWERS='' @ Itoa (int (an_CountReplicas a)),
            ''QUM_COUNT_WORKING_FOLLOWERS='' @ Itoa (int (an_CountWorkingReplicas a)),
            ''QUM_COUNT_REPLICATING_FOLLOWERS='' @ Itoa (int (an_CountReplicatingReplicas a)),
            ''QUM_COUNT_INCONSISTENT_VSHARD_CONF='' @ Itoa (int (an_CountInconsistentVShardConf a)),
            ''QUM_IS_SUCCESSFUL='' @ FormatBool (rv_IsSuccessful recv)]
         @ (if rv_IsSuccessful recv
            then [''QUM_SUCCESSOR_UUID='' @ ident_UUID (rv_Successor recv),
                  ''QUM_SUCCESSOR_URI='' @ ident_URI (rv_Successor recv)]
            else []))"

section \<open>Execution\<close>

text \<open>
  One command in the shell.  What it would take and give is the environment's; it is killed when it
  takes longer than its context allows.
\<close>

definition executeProcess :: "env \<Rightarrow> nat \<Rightarrow> Hooker \<Rightarrow> duration \<Rightarrow> string \<Rightarrow> string list \<Rightarrow> string option" where
  "executeProcess env n h timeout command vars =
     (let (elapsed, err) = env_run env n (hr_shell h) command vars
      in if elapsed > timeout then Some ''signal: killed'' else err)"

text \<open>The loop of \<open>ExecuteProcesses\<close>; \<open>err\<close> is the first error met so far.\<close>

fun execute_loop :: "env \<Rightarrow> Hooker \<Rightarrow> HookType \<Rightarrow> Recovery \<Rightarrow> bool \<Rightarrow> string list \<Rightarrow> string option
    \<Rightarrow> world \<Rightarrow> string option \<times> world" where
  "execute_loop env h t recv failOnError [] err w = (err, w)"
| "execute_loop env h t recv failOnError (process # processes) err w =
     (let (command, async) = prepareCommand process recv;
          vars = applyEnvironmentVariables (env_environ env (w_io w)) recv
      in if async
         then execute_loop env h t recv failOnError processes err (emit (EvHookAsync t command) w)
         else
           let cmdErr = executeProcess env (w_io w) h (hr_timeout h) command vars;
               w = emit (EvHook t command) w
           in case cmdErr of
                None \<Rightarrow> execute_loop env h t recv failOnError processes err w
              | Some e \<Rightarrow>
                  if failOnError then (Some e, w)
                  else execute_loop env h t recv failOnError processes
                         (if err = None then Some e else err) w)"

definition ExecuteProcesses :: "env \<Rightarrow> Hooker \<Rightarrow> HookType \<Rightarrow> Recovery \<Rightarrow> bool \<Rightarrow> world
    \<Rightarrow> string option \<times> world" where
  "ExecuteProcesses env h t recv failOnError w =
     (let processes = hooks_of h t
      in if length processes = 0 then (None, w)
         else execute_loop env h t recv failOnError processes None w)"

section \<open>Lemmas\<close>

text \<open>The effect of a hook, as it appears in the trace.\<close>

definition hook_event :: "HookType \<Rightarrow> Recovery \<Rightarrow> string \<Rightarrow> event" where
  "hook_event t recv process =
     (let (command, async) = prepareCommand process recv
      in if async then EvHookAsync t command else EvHook t command)"

text \<open>What hook \<open>process\<close> gives when it is run as interaction \<open>n\<close>, and the first of several errors.\<close>

definition hook_outcome :: "env \<Rightarrow> Hooker \<Rightarrow> Recovery \<Rightarrow> nat \<Rightarrow> string \<Rightarrow> string option" where
  "hook_outcome env h recv n process =
     (let (command, async) = prepareCommand process recv
      in if async then None
         else executeProcess env n h (hr_timeout h) command (applyEnvironmentVariables (env_environ env n) recv))"

fun first_error :: "string option list \<Rightarrow> string option" where
  "first_error [] = None"
| "first_error (None # es) = first_error es"
| "first_error (Some e # es) = Some e"

lemma execute_loop_Cons:
  "execute_loop env h t recv foe (p # ps) err w =
     (let e = hook_outcome env h recv (w_io w) p; w' = emit (hook_event t recv p) w
      in if foe \<and> e \<noteq> None then (e, w')
         else execute_loop env h t recv foe ps (if err = None then e else err) w')"
  by (auto simp: hook_event_def hook_outcome_def Let_def case_prod_beta split: option.split)

lemma execute_loop_error:
  "execute_loop env h t recv False ps (Some e) w =
     (Some e, snd (execute_loop env h t recv False ps None w))"
proof (induction ps arbitrary: w e)
  case (Cons p ps)
  show ?case
    by (cases "hook_outcome env h recv (w_io w) p")
      (simp_all add: execute_loop_Cons Let_def Cons.IH del: execute_loop.simps(2))
qed simp

lemma execute_loop_result:
  "fst (execute_loop env h t recv foe ps None w) =
     first_error (map (\<lambda>(n, p). hook_outcome env h recv n p) (enumerate (w_io w) ps)) \<and>
   w_trace (snd (execute_loop env h t recv foe ps None w)) =
     w_trace w @ map (hook_event t recv)
       (take (if foe then Suc (length (takeWhile (\<lambda>e. e = None)
                (map (\<lambda>(n, p). hook_outcome env h recv n p) (enumerate (w_io w) ps))))
              else length ps) ps)"
proof (induction ps arbitrary: w)
  case (Cons p ps)
  let ?w = "emit (hook_event t recv p) w"
  show ?case
  proof (cases "hook_outcome env h recv (w_io w) p")
    case None
    with Cons.IH[of ?w] show ?thesis by (simp add: execute_loop_Cons Let_def del: execute_loop.simps(2))
  next
    case (Some e)
    with Cons.IH[of ?w] show ?thesis
      by (cases foe) (simp_all add: execute_loop_Cons Let_def execute_loop_error del: execute_loop.simps(2))
  qed
qed simp

lemma ExecuteProcesses_loop:
  "ExecuteProcesses env h t recv foe w = execute_loop env h t recv foe (hooks_of h t) None w"
  by (simp add: ExecuteProcesses_def Let_def)

lemma ExecuteProcesses_trace:
  "\<exists>ps. w_trace (snd (ExecuteProcesses env h t recv foe w)) = w_trace w @ map (hook_event t recv) ps"
  using execute_loop_result unfolding ExecuteProcesses_loop by metis

lemma AddHook_hooks [simp]:
  "hooks_of (AddHook t cs h) t' = (if t' = t then hooks_of h t @ cs else hooks_of h t')"
  by (auto simp: AddHook_def hooks_of_def Let_def split: option.split)

section \<open>Properties\<close>

text \<open>Hooks run in the order they were added, and the result is the first error of a
  synchronous one.  When an error must stop them, as before a failover, nothing runs after the
  first failed hook; otherwise all of them run, whatever their outcome.  Nothing else happens.\<close>

theorem ExecuteProcesses_order:
  "let outcomes = map (\<lambda>(n, p). hook_outcome env h recv n p) (enumerate (w_io w) (hooks_of h t));
       ran = (if failOnError then Suc (length (takeWhile (\<lambda>e. e = None) outcomes))
              else length (hooks_of h t))
   in fst (ExecuteProcesses env h t recv failOnError w) = first_error outcomes \<and>
      w_trace (snd (ExecuteProcesses env h t recv failOnError w)) =
        w_trace w @ map (hook_event t recv) (take ran (hooks_of h t))"
  using execute_loop_result[of env h t recv failOnError "hooks_of h t" w]
  unfolding Let_def ExecuteProcesses_loop .

end
