(* ===== verification/Orch_Script.thy ===== *)
theory Orch_Script
  imports Go_Strings "HOL-Library.Char_ord"
begin

text \<open>
  The Lua script of internal/vshard/orchestrator/failover.go that is sent to every node during
  a failover: \<open>recoveryLua\<close> and \<open>generateRecoveryLua\<close>.

  The template is cut around its placeholders; \<open>nl n\<close> is a line break and the \<open>n\<close> tabs the
  next line starts with.
\<close>

definition nl :: "nat \<Rightarrow> string" where
  "nl tabs = CHR 0x0A # replicate tabs (CHR 0x09)"

definition recoveryLua_pieces :: "string list" where
  "recoveryLua_pieces =
    [nl 2 @ ''log = require('log')'' @
      nl 0 @
      nl 2 @ ''log.warn(\"qumomf: start recovery\")'' @
      nl 0 @
      nl 2 @ ''local cfg = {}'' @
      nl 2 @ ''local is_storage = vshard.router.internal.static_router == nil '' @
      nl 2 @ ''if is_storage then'' @
      nl 3 @ ''cfg = table.deepcopy(vshard.storage.internal.current_cfg)'' @
      nl 2 @ ''else'' @
      nl 3 @ ''cfg = table.deepcopy(vshard.router.internal.static_router.current_cfg)'' @
      nl 2 @ ''end'' @
      nl 0 @
      nl 2 @ ''for replica_uuid in pairs(cfg.sharding[\"'',
     ''{set_uuid}'',
     ''\"].replicas) do'' @
      nl 3 @ ''is_master = replica_uuid == \"'',
     ''{new_master_uuid}'',
     ''\"'' @
      nl 3 @ ''cfg.sharding[\"'',
     ''{set_uuid}'',
     ''\"].replicas[replica_uuid].master = is_master '' @
      nl 2 @ ''end'' @
      nl 0 @
      nl 2 @ ''if is_storage then'' @
      nl 3 @ ''log.warn(\"qumomf: apply new vshard configuration to storage\")'' @
      nl 3 @ ''local this_uuid = box.info.uuid'' @
      nl 3 @ ''vshard.storage.cfg(cfg, this_uuid)'' @
      nl 0 @
      nl 3 @ ''if box.info.cluster.uuid == \"'',
     ''{set_uuid}'',
     ''\" then '' @
      nl 4 @ ''box.cfg({'' @
      nl 5 @ ''read_only = this_uuid ~= \"'',
     ''{new_master_uuid}'',
     ''\",'' @
      nl 4 @ ''})'' @
      nl 3 @ ''end'' @
      nl 2 @ ''else'' @
      nl 3 @ ''log.warn(\"qumomf: apply new vshard configuration to router\")'' @
      nl 3 @ ''vshard.router.cfg(cfg)'' @
      nl 2 @ ''end'' @
      nl 2 @ ''log.warn(\"qumomf: end recovery\")'' @
      nl 1]"

definition recoveryLua :: string where
  "recoveryLua = concat recoveryLua_pieces"

definition generateRecoveryLua :: "string \<Rightarrow> string \<Rightarrow> string" where
  "generateRecoveryLua uuid candidate =
     (let lua = replace_all ''{set_uuid}'' uuid recoveryLua
      in replace_all ''{new_master_uuid}'' candidate lua)"

section \<open>Replacing in a list of pieces\<close>

text \<open>\<open>old\<close> does not match at any position of a piece, not even across its end.\<close>

fun mismatch :: "string \<Rightarrow> string \<Rightarrow> bool" where
  "mismatch (p # ps) (c # s) = (p \<noteq> c \<or> mismatch ps s)"
| "mismatch _ _ = False"

fun no_match :: "string \<Rightarrow> string \<Rightarrow> bool" where
  "no_match old [] = True"
| "no_match old (c # s) = (mismatch old (c # s) \<and> no_match old s)"

lemma mismatch_strip: "mismatch old s \<Longrightarrow> strip_prefix old (s @ t) = None"
  by (induction old s rule: mismatch.induct) auto

lemma replace_all_no_match: "old \<noteq> [] \<Longrightarrow> no_match old s \<Longrightarrow> replace_all old new (s @ t) = s @ replace_all old new t"
proof (induction s)
  case (Cons c s)
  then have "strip_prefix old (c # s @ t) = None" using mismatch_strip[of old "c # s" t] by simp
  with Cons show ?case by simp
qed simp

lemma no_match_hd: "old \<noteq> [] \<Longrightarrow> hd old \<notin> set s \<Longrightarrow> no_match old s"
  by (induction s) (auto simp: neq_Nil_conv)

lemma replace_all_pieces:
  assumes "old \<noteq> []" and "\<forall>p \<in> set ps. p = old \<or> no_match old p"
  shows "replace_all old new (concat ps) = concat (map (\<lambda>p. if p = old then new else p) ps)"
  using assms(2)
proof (induction ps)
  case (Cons p ps)
  show ?case
  proof (cases "p = old")
    case True
    with Cons show ?thesis by (simp add: replace_all_hit[OF assms(1)])
  next
    case False
    with Cons show ?thesis by (simp add: replace_all_no_match[OF assms(1)])
  qed
qed simp

text \<open>What a reader of the template expects: each placeholder replaced where it stands.\<close>

definition fill :: "string \<Rightarrow> string \<Rightarrow> string \<Rightarrow> string" where
  "fill uuid candidate p =
     (if p = ''{set_uuid}'' then uuid else if p = ''{new_master_uuid}'' then candidate else p)"

lemma pieces_set: "\<forall>p \<in> set recoveryLua_pieces. p = ''{set_uuid}'' \<or> no_match ''{set_uuid}'' p"
  by code_simp

lemma pieces_master: "\<forall>p \<in> set recoveryLua_pieces. p = ''{new_master_uuid}'' \<or> p = ''{set_uuid}'' \<or> no_match ''{new_master_uuid}'' p"
  by code_simp

section \<open>Properties\<close>

text \<open>The script sent for a replica set and a candidate is the template with every
  placeholder replaced by the UUID it stands for, when the replica set's UUID has no brace.\<close>

theorem generateRecoveryLua_fills:
  assumes "CHR ''{'' \<notin> set uuid"
  shows "generateRecoveryLua uuid candidate = concat (map (fill uuid candidate) recoveryLua_pieces)"
proof -
  let ?f = "\<lambda>p. if p = ''{set_uuid}'' then uuid else p"
  have "no_match ''{new_master_uuid}'' uuid" by (rule no_match_hd) (use assms in simp_all)
  then have "\<forall>p \<in> set (map ?f recoveryLua_pieces). p = ''{new_master_uuid}'' \<or> no_match ''{new_master_uuid}'' p"
    using pieces_master by auto
  note second = replace_all_pieces[OF _ this]
  have ne: "uuid \<noteq> ''{new_master_uuid}''" using assms by auto
  have "generateRecoveryLua uuid candidate =
      concat (map (\<lambda>p. if p = ''{new_master_uuid}'' then candidate else p) (map ?f recoveryLua_pieces))"
    unfolding generateRecoveryLua_def Let_def recoveryLua_def
    by (subst replace_all_pieces[OF _ pieces_set], simp, subst second, simp_all)
  also have "map (\<lambda>p. if p = ''{new_master_uuid}'' then candidate else p) (map ?f recoveryLua_pieces) =
      map (fill uuid candidate) recoveryLua_pieces"
    using ne by (simp add: fill_def)
  finally show ?thesis .
qed

theorem generateRecoveryLua_fills_witness:
  "generateRecoveryLua ''s-1'' ''i-2'' = concat (map (fill ''s-1'' ''i-2'') recoveryLua_pieces)"
  by (rule generateRecoveryLua_fills) simp

end
