(* ===== verification/Quorum_Elector.thy ===== *)
theory Quorum_Elector
  imports Vshard_Snapshot
begin

text \<open>
  internal/quorum: the election of a new master among the alive followers of a replica set.
  \<open>admissible\<close> and \<open>filter_candidates\<close> are elector.go's \<open>filter\<close>; \<open>idle_ChooseMaster\<close> and
  \<open>smart_ChooseMaster\<close> are the two electors; \<open>elector_New\<close> is the factory.

  \<open>ChooseMaster\<close> returns \<open>None\<close> for a panic: the smart elector dereferences
  \<open>Upstream\<close> of the followers it compares, which is nil for a follower known only by its
  downstream.  The smart elector sorts with \<open>sort.Sort\<close>, the argument \<open>srt\<close>.
\<close>

datatype elector_error = ErrNoAliveFollowers | ErrNoCandidateFound | ErrNoMaster master_error

record Options =
  ReasonableFollowerLSNLag :: int
  ReasonableFollowerIdle :: float64

type_synonym choose_fun = "ReplicaSet \<Rightarrow> (elector_error, InstanceUUID) go_result option"

definition admissible :: "Options \<Rightarrow> Instance \<Rightarrow> bool" where
  "admissible opts inst =
     (if inst_Priority inst < 0 then False
      else if ReasonableFollowerLSNLag opts \<noteq> 0 \<and>
              inst_LSNBehindMaster inst > ReasonableFollowerLSNLag opts then False
      else if \<not> f64_eq (ReasonableFollowerIdle opts) (f64_of_int 0) \<and>
              f64_less (ReasonableFollowerIdle opts) (Idle inst) then False
      else True)"

definition filter_candidates :: "Instance list \<Rightarrow> Options \<Rightarrow> Instance list" where
  "filter_candidates instances opts = filter (admissible opts) instances"

section \<open>The idle elector\<close>

fun idle_loop :: "float64 \<Rightarrow> InstanceUUID \<Rightarrow> Instance list \<Rightarrow> InstanceUUID" where
  "idle_loop minIdle minUUID [] = minUUID"
| "idle_loop minIdle minUUID (r # followers) =
     (if f64_less (Idle r) minIdle then idle_loop (Idle r) (inst_UUID r) followers
      else idle_loop minIdle minUUID followers)"

definition idle_ChooseMaster :: "Options \<Rightarrow> choose_fun" where
  "idle_ChooseMaster opts rs =
     (let followers = filter_candidates (AliveFollowers rs) opts
      in if followers = [] then Some (Inl ErrNoAliveFollowers)
         else let minUUID = idle_loop MaxFloat64 '''' followers
              in if minUUID = '''' then Some (Inl ErrNoCandidateFound) else Some (Inr minUUID))"

section \<open>The smart elector\<close>

definition idleDiffDelta :: float64 where
  "idleDiffDelta = f64_half"

definition inDelta :: "float64 \<Rightarrow> float64 \<Rightarrow> float64 \<Rightarrow> bool" where
  "inDelta d1 d2 delta =
     (let diff = f64_sub d1 d2 in f64_le (f64_neg delta) diff \<and> f64_le diff delta)"

definition smart_less :: "Instance \<Rightarrow> Instance comparator" where
  "smart_less master left right =
     (let confHash = inst_VShardFingerprint master in
      if inst_VShardFingerprint left = confHash \<and> inst_VShardFingerprint right \<noteq> confHash
      then Some True
      else if inst_VShardFingerprint left \<noteq> confHash \<and> inst_VShardFingerprint right = confHash
      then Some False
      else case (inst_Upstream left, inst_Upstream right) of
        (Some lu, Some ru) \<Rightarrow>
          if up_Status lu = UpstreamFollow \<and> up_Status ru \<noteq> UpstreamFollow then Some True
          else if up_Status lu \<noteq> UpstreamFollow \<and> up_Status ru = UpstreamFollow then Some False
          else if inst_LSNBehindMaster left \<noteq> inst_LSNBehindMaster right then
            (if inst_LSNBehindMaster left > 0 \<and> inst_LSNBehindMaster right < 0 then Some True
             else if inst_LSNBehindMaster left < 0 \<and> inst_LSNBehindMaster right > 0 then Some False
             else Some (inst_LSNBehindMaster left < inst_LSNBehindMaster right))
          else let d1 = Idle left; d2 = Idle right
               in if inst_Priority left \<noteq> inst_Priority right \<and> inDelta d1 d2 idleDiffDelta
                  then Some (inst_Priority left > inst_Priority right)
                  else Some (f64_less d1 d2)
      | _ \<Rightarrow> None)"

definition smart_ChooseMaster :: "Instance sorter \<Rightarrow> Options \<Rightarrow> choose_fun" where
  "smart_ChooseMaster srt opts rs =
     (let followers = filter_candidates (AliveFollowers rs) opts
      in if followers = [] then Some (Inl ErrNoAliveFollowers)
         else case Master rs of
           Inl e \<Rightarrow> Some (Inl (ErrNoMaster e))
         | Inr master \<Rightarrow>
             (case srt (smart_less master) followers of
                Some (f # _) \<Rightarrow> Some (Inr (inst_UUID f))
              | _ \<Rightarrow> None))"

section \<open>The factory\<close>

definition ModeIdle :: string where [simp]: "ModeIdle = ''idle''"
definition ModeSmart :: string where [simp]: "ModeSmart = ''smart''"

text \<open>An elector is its \<open>ChooseMaster\<close>; nothing asks for its mode.\<close>

definition NewIdleElector :: "Options \<Rightarrow> choose_fun" where [simp]: "NewIdleElector opts = idle_ChooseMaster opts"

definition NewSmartElector :: "Instance sorter \<Rightarrow> Options \<Rightarrow> choose_fun" where
  [simp]: "NewSmartElector srt opts = smart_ChooseMaster srt opts"

text \<open>\<open>None\<close> is the panic on an unknown mode.\<close>

definition elector_New :: "Instance sorter \<Rightarrow> string \<Rightarrow> Options \<Rightarrow> choose_fun option" where
  "elector_New srt m opts =
     (if m = ModeIdle then Some (NewIdleElector opts)
      else if m = ModeSmart then Some (NewSmartElector srt opts)
      else None)"

section \<open>Candidates\<close>

abbreviation candidates :: "Options \<Rightarrow> ReplicaSet \<Rightarrow> Instance list" where
  "candidates opts rs \<equiv> filter_candidates (AliveFollowers rs) opts"

lemma admissible_iff:
  "admissible opts inst \<longleftrightarrow>
     0 \<le> inst_Priority inst \<and>
     (ReasonableFollowerLSNLag opts = 0 \<or> inst_LSNBehindMaster inst \<le> ReasonableFollowerLSNLag opts) \<and>
     (f64_eq (ReasonableFollowerIdle opts) (FFin 0) \<or>
      \<not> f64_less (ReasonableFollowerIdle opts) (Idle inst))"
  by (auto simp: admissible_def)

lemma candidates_iff:
  "inst \<in> set (candidates opts rs) \<longleftrightarrow>
     inst \<in> set (set_Instances rs) \<and> alive_follower (set_MasterUUID rs) inst \<and> admissible opts inst"
  by (auto simp: filter_candidates_def AliveFollowers_eq)

section \<open>The contract of an elector\<close>

text \<open>
  What the failover relies on: an elected UUID belongs to an alive follower whose priority
  is not negative.
\<close>

locale elector_contract =
  fixes elect :: choose_fun
  assumes elected: "elect rs = Some (Inr u) \<Longrightarrow>
     \<exists>inst \<in> set (AliveFollowers rs). inst_UUID inst = u \<and> 0 \<le> inst_Priority inst"
begin

lemma elected_member:
  "elect rs = Some (Inr u) \<Longrightarrow> \<exists>inst \<in> set (set_Instances rs). inst_UUID inst = u"
  using elected[of rs u] by (auto simp: AliveFollowers_eq)

lemma never_the_master: "elect rs = Some (Inr u) \<Longrightarrow> u \<noteq> set_MasterUUID rs"
  using elected[of rs u] by (auto simp: AliveFollowers_eq alive_follower_iff)

lemma nobody_alive: "AliveFollowers rs = [] \<Longrightarrow> elect rs \<noteq> Some (Inr u)"
  using elected[of rs u] by auto

end

section \<open>The idle elector meets it\<close>

lemma idle_loop_result:
  "idle_loop m u fs = u \<and> (\<forall>f \<in> set fs. \<not> f64_less (Idle f) m) \<or>
   (\<exists>f \<in> set fs. idle_loop m u fs = inst_UUID f \<and> f64_less (Idle f) m \<and>
      (\<forall>g \<in> set fs. \<not> f64_less (Idle g) (Idle f)))"
proof (induction fs arbitrary: m u)
  case (Cons r fs)
  show ?case
  proof (cases "f64_less (Idle r) m")
    case True
    from Cons[of "Idle r" "inst_UUID r"] show ?thesis
    proof
      assume "idle_loop (Idle r) (inst_UUID r) fs = inst_UUID r \<and>
        (\<forall>f \<in> set fs. \<not> f64_less (Idle f) (Idle r))"
      with True show ?thesis by auto
    next
      assume "\<exists>f \<in> set fs. idle_loop (Idle r) (inst_UUID r) fs = inst_UUID f \<and>
        f64_less (Idle f) (Idle r) \<and> (\<forall>g \<in> set fs. \<not> f64_less (Idle g) (Idle f))"
      then obtain f where "f \<in> set fs" "idle_loop (Idle r) (inst_UUID r) fs = inst_UUID f"
        "f64_less (Idle f) (Idle r)" "\<forall>g \<in> set fs. \<not> f64_less (Idle g) (Idle f)" by blast
      with True show ?thesis by (auto intro: f64_less_trans dest: f64_less_asym)
    qed
  next
    case False
    have "\<not> f64_less (Idle r) (Idle f)" if "f64_less (Idle f) m" for f
      using False that f64_less_trans by blast
    with Cons[of m u] False show ?thesis by auto
  qed
qed simp

lemma idle_elected:
  assumes "idle_ChooseMaster opts rs = Some (Inr u)"
  obtains f where "f \<in> set (candidates opts rs)" "inst_UUID f = u" "u \<noteq> ''''"
    "f64_less (Idle f) MaxFloat64" "\<And>g. g \<in> set (candidates opts rs) \<Longrightarrow> \<not> f64_less (Idle g) (Idle f)"
proof -
  from assms have "idle_loop MaxFloat64 '''' (candidates opts rs) = u" "u \<noteq> ''''"
    by (auto simp: idle_ChooseMaster_def Let_def split: if_splits)
  with idle_loop_result[of MaxFloat64 "''''" "candidates opts rs"]
  obtain f where "f \<in> set (candidates opts rs)" "inst_UUID f = u" "f64_less (Idle f) MaxFloat64"
    "\<forall>g \<in> set (candidates opts rs). \<not> f64_less (Idle g) (Idle f)" by metis
  with \<open>u \<noteq> ''''\<close> show ?thesis using that by blast
qed

interpretation idle: elector_contract "idle_ChooseMaster opts" for opts
proof
  fix rs u
  assume "idle_ChooseMaster opts rs = Some (Inr u)"
  then obtain f where "f \<in> set (candidates opts rs)" "inst_UUID f = u" by (rule idle_elected)
  then show "\<exists>inst \<in> set (AliveFollowers rs). inst_UUID inst = u \<and> 0 \<le> inst_Priority inst"
    by (auto simp: filter_candidates_def admissible_iff)
qed

section \<open>The smart elector meets it\<close>

lemma smart_elected:
  assumes "sort_contract srt" and "smart_ChooseMaster srt opts rs = Some (Inr u)"
  obtains m f fs where "Master rs = Inr m" "srt (smart_less m) (candidates opts rs) = Some (f # fs)"
    "inst_UUID f = u" "f \<in> set (candidates opts rs)"
proof -
  from assms(2) obtain m f fs where r: "Master rs = Inr m"
    "srt (smart_less m) (candidates opts rs) = Some (f # fs)" "inst_UUID f = u"
    by (auto simp: smart_ChooseMaster_def Let_def split: if_splits sum.splits option.splits list.splits)
  moreover have "f \<in> set (candidates opts rs)"
    using sort_contract.set_eq[OF assms(1) r(2)] by auto
  ultimately show ?thesis using that by blast
qed

lemma smart_elector_contract:
  assumes "sort_contract srt"
  shows "elector_contract (smart_ChooseMaster srt opts)"
proof
  fix rs u
  assume "smart_ChooseMaster srt opts rs = Some (Inr u)"
  then obtain f where "f \<in> set (candidates opts rs)" "inst_UUID f = u"
    using assms by (metis smart_elected)
  then show "\<exists>inst \<in> set (AliveFollowers rs). inst_UUID inst = u \<and> 0 \<le> inst_Priority inst"
    by (auto simp: filter_candidates_def admissible_iff)
qed

interpretation smart: elector_contract "smart_ChooseMaster insertion_sort opts" for opts
  by (rule smart_elector_contract) (rule insertion_sort_contract)

section \<open>When the smart comparison is an order\<close>

text \<open>
  The criteria of \<open>smart_less\<close>, most significant first.  The first two are keys.  The third
  and fourth are orders only on part of the data, see \<open>comparable\<close> below.
\<close>

definition conf_rank :: "Instance \<Rightarrow> Instance \<Rightarrow> nat" where
  "conf_rank master inst =
     (if inst_VShardFingerprint inst = inst_VShardFingerprint master then 0 else 1)"

definition follow_rank :: "Instance \<Rightarrow> nat" where
  "follow_rank inst =
     (case inst_Upstream inst of
        Some u \<Rightarrow> if up_Status u = UpstreamFollow then 0 else 1
      | None \<Rightarrow> 1)"

definition idle_prio_less :: "Instance \<Rightarrow> Instance \<Rightarrow> bool" where
  "idle_prio_less l r =
     (if inst_Priority l \<noteq> inst_Priority r \<and> inDelta (Idle l) (Idle r) idleDiffDelta
      then inst_Priority l > inst_Priority r
      else f64_less (Idle l) (Idle r))"

text \<open>
  A group of followers on which the comparison cannot panic and is an order: all have an
  upstream with a numeric idle value, none reports an LSN in front of the master's, and
  either no two priorities differ or all idle values are almost equal.
\<close>

definition comparable :: "Instance set \<Rightarrow> bool" where
  "comparable A \<longleftrightarrow>
     (\<forall>x \<in> A. inst_Upstream x \<noteq> None \<and> Idle x \<noteq> FNaN \<and> 0 \<le> inst_LSNBehindMaster x) \<and>
     ((\<forall>x \<in> A. \<forall>y \<in> A. inst_Priority x = inst_Priority y) \<or>
      (\<forall>x \<in> A. \<forall>y \<in> A. inDelta (Idle x) (Idle y) idleDiffDelta))"

definition smart_order :: "Instance \<Rightarrow> Instance \<Rightarrow> Instance \<Rightarrow> bool" where
  "smart_order m =
     lex_then (\<lambda>x y. conf_rank m x < conf_rank m y)
       (lex_then (\<lambda>x y. follow_rank x < follow_rank y)
         (lex_then (\<lambda>x y. inst_LSNBehindMaster x < inst_LSNBehindMaster y) idle_prio_less))"

lemma strict_weak_idle: "\<forall>x \<in> A. Idle x \<noteq> FNaN \<Longrightarrow> strict_weak A (\<lambda>x y. f64_less (Idle x) (Idle y))"
  by (rule strict_weakI) (auto dest: f64_less_asym f64_not_less_trans)

lemma strict_weak_cong:
  assumes "\<And>x y. x \<in> A \<Longrightarrow> y \<in> A \<Longrightarrow> R x y = S x y"
  shows "strict_weak A R = strict_weak A S"
  using assms by (simp add: strict_weak_def)

lemma strict_weak_idle_prio:
  assumes "comparable A"
  shows "strict_weak A idle_prio_less"
proof -
  have nan: "\<forall>x \<in> A. Idle x \<noteq> FNaN" using assms by (simp add: comparable_def)
  from assms consider (prio) "\<forall>x \<in> A. \<forall>y \<in> A. inst_Priority x = inst_Priority y"
    | (delta) "\<forall>x \<in> A. \<forall>y \<in> A. inDelta (Idle x) (Idle y) idleDiffDelta"
    unfolding comparable_def by blast
  then show ?thesis
  proof cases
    case prio
    have "idle_prio_less x y = f64_less (Idle x) (Idle y)" if "x \<in> A" "y \<in> A" for x y
    proof -
      have "inst_Priority x = inst_Priority y" using prio that by blast
      then show ?thesis by (simp add: idle_prio_less_def)
    qed
    then have "strict_weak A idle_prio_less = strict_weak A (\<lambda>x y. f64_less (Idle x) (Idle y))"
      by (rule strict_weak_cong)
    with strict_weak_idle[OF nan] show ?thesis by simp
  next
    case delta
    let ?L = "lex_then (\<lambda>x y. - inst_Priority x < - inst_Priority y) (\<lambda>x y. f64_less (Idle x) (Idle y))"
    from delta have "strict_weak A idle_prio_less = strict_weak A ?L"
      by (intro strict_weak_cong) (auto simp: idle_prio_less_def lex_then_def)
    moreover have "strict_weak A ?L"
      using strict_weak_idle[OF nan] by (rule strict_weak_lex[OF strict_weak_key])
    ultimately show ?thesis by simp
  qed
qed

lemma strict_weak_smart: "comparable A \<Longrightarrow> strict_weak A (smart_order m)"
  unfolding smart_order_def by (intro strict_weak_lex strict_weak_key strict_weak_idle_prio)

lemma smart_less_conf:
  "conf_rank m x \<noteq> conf_rank m y \<Longrightarrow> smart_less m x y = Some (conf_rank m x < conf_rank m y)"
  by (auto simp: smart_less_def conf_rank_def Let_def split: if_split_asm)

lemma conf_rank_eqD:
  "conf_rank m x = conf_rank m y \<Longrightarrow>
   (inst_VShardFingerprint x = inst_VShardFingerprint m) =
   (inst_VShardFingerprint y = inst_VShardFingerprint m)"
  by (auto simp: conf_rank_def split: if_split_asm)

lemma smart_less_follow:
  assumes "conf_rank m x = conf_rank m y"
    and u: "inst_Upstream x = Some u" "inst_Upstream y = Some v"
    and "follow_rank x \<noteq> follow_rank y"
  shows "smart_less m x y = Some (follow_rank x < follow_rank y)"
proof -
  have "(up_Status u = UpstreamFollow) \<noteq> (up_Status v = UpstreamFollow)"
    using assms(2-4) unfolding follow_rank_def by (simp split: if_split_asm)
  then show ?thesis
    using conf_rank_eqD[OF assms(1)] u
    by (cases "up_Status u = UpstreamFollow") (simp_all add: smart_less_def follow_rank_def Let_def)
qed

lemma smart_less_lsn:
  assumes "conf_rank m x = conf_rank m y" and "follow_rank x = follow_rank y"
    and "inst_Upstream x = Some u" and "inst_Upstream y = Some v"
    and "0 \<le> inst_LSNBehindMaster x" and "0 \<le> inst_LSNBehindMaster y"
  shows "smart_less m x y =
    Some (if inst_LSNBehindMaster x \<noteq> inst_LSNBehindMaster y
          then inst_LSNBehindMaster x < inst_LSNBehindMaster y else idle_prio_less x y)"
proof -
  let ?h = "\<lambda>i. inst_VShardFingerprint i = inst_VShardFingerprint m"
  have "?h x = ?h y" using assms(1) by (rule conf_rank_eqD)
  moreover have "(up_Status u = UpstreamFollow) = (up_Status v = UpstreamFollow)"
    using assms(2-4) by (auto simp: follow_rank_def split: if_split_asm)
  ultimately show ?thesis
    using assms(3-6) by (simp add: smart_less_def idle_prio_less_def Let_def)
qed

lemma smart_less_order:
  assumes "comparable A" and "x \<in> A" and "y \<in> A"
  shows "smart_less m x y = Some (smart_order m x y)"
proof -
  from assms obtain u v where u: "inst_Upstream x = Some u" "inst_Upstream y = Some v"
    unfolding comparable_def by blast
  have l: "0 \<le> inst_LSNBehindMaster x" "0 \<le> inst_LSNBehindMaster y"
    using assms by (auto simp: comparable_def)
  consider "conf_rank m x \<noteq> conf_rank m y"
    | "conf_rank m x = conf_rank m y" "follow_rank x \<noteq> follow_rank y"
    | "conf_rank m x = conf_rank m y" "follow_rank x = follow_rank y" by blast
  then show ?thesis
  proof cases
    case 1
    then show ?thesis
      unfolding smart_less_conf[OF 1] smart_order_def lex_then_def
      by (cases "conf_rank m x < conf_rank m y") (use 1 in auto)
  next
    case 2
    then show ?thesis
      using smart_less_follow[OF 2(1) u 2(2)] by (auto simp: smart_order_def lex_then_def)
  next
    case 3
    then show ?thesis
      unfolding smart_less_lsn[OF 3 u l] smart_order_def lex_then_def 3
      by (simp add: neq_iff)
  qed
qed

text \<open>An election among comparable candidates returns, and nobody is preferred to the winner.\<close>

lemma smart_election:
  assumes c: "sort_contract srt" and m: "Master rs = Inr m"
    and ne: "candidates opts rs \<noteq> []" and cmp: "comparable (set (candidates opts rs))"
  obtains f where "f \<in> set (candidates opts rs)"
    "smart_ChooseMaster srt opts rs = Some (Inr (inst_UUID f))"
    "\<And>g. g \<in> set (candidates opts rs) \<Longrightarrow> \<not> smart_order m g f"
proof -
  let ?F = "candidates opts rs"
  have less: "smart_less m x y = Some (smart_order m x y)" if "x \<in> set ?F" "y \<in> set ?F" for x y
    using smart_less_order[OF cmp] that .
  then have "srt (smart_less m) ?F \<noteq> None"
    by (intro sort_contract.srt_returns[OF c]) auto
  then obtain ys where ys: "srt (smart_less m) ?F = Some ys" by auto
  with sort_contract.empty_iff[OF c ys] ne obtain f fs where f: "srt (smart_less m) ?F = Some (f # fs)"
    by (cases ys) auto
  have "strict_weak (set ?F) (\<lambda>x y. smart_less m x y = Some True)"
    using strict_weak_smart[OF cmp, of m]
      strict_weak_cong[of "set ?F" "\<lambda>x y. smart_less m x y = Some True" "smart_order m"] less
    by simp
  from sort_contract.head_minimal[OF c f this]
  have min: "f \<in> set ?F" "\<forall>g \<in> set ?F. smart_less m g f \<noteq> Some True" by blast+
  have "\<not> smart_order m g f" if "g \<in> set ?F" for g
    using min less[OF that min(1)] that by auto
  moreover have "smart_ChooseMaster srt opts rs = Some (Inr (inst_UUID f))"
    using ne m f by (simp add: smart_ChooseMaster_def)
  ultimately show ?thesis using min(1) that by blast
qed

text \<open>What it means that nobody is preferred, criterion by criterion.\<close>

lemma smart_order_best:
  assumes "\<not> smart_order m g f"
  shows "conf_rank m f \<le> conf_rank m g"
    and "conf_rank m g = conf_rank m f \<Longrightarrow> follow_rank f \<le> follow_rank g"
    and "conf_rank m g = conf_rank m f \<Longrightarrow> follow_rank g = follow_rank f \<Longrightarrow>
      inst_LSNBehindMaster f \<le> inst_LSNBehindMaster g"
    and "conf_rank m g = conf_rank m f \<Longrightarrow> follow_rank g = follow_rank f \<Longrightarrow>
      inst_LSNBehindMaster g = inst_LSNBehindMaster f \<Longrightarrow> \<not> idle_prio_less g f"
  using assms by (auto simp: smart_order_def lex_then_def)

section \<open>Properties\<close>

lemma elected_admissible:
  assumes "sort_contract srt" and "elector_New srt mode opts = Some elect" and "elect rs = Some (Inr u)"
  shows "\<exists>inst \<in> set (candidates opts rs). inst_UUID inst = u"
proof -
  consider "elect = idle_ChooseMaster opts" | "elect = smart_ChooseMaster srt opts"
    using assms(2) by (auto simp: elector_New_def split: if_splits)
  then show ?thesis
  proof cases
    case 1
    with assms(3) show ?thesis by (metis idle_elected)
  next
    case 2
    with assms(1,3) show ?thesis by (metis smart_elected)
  qed
qed

text \<open>Instances for the concrete cases below: a follower of master \<open>m\<close> with a working upstream.\<close>

definition sample_follower :: "InstanceUUID \<Rightarrow> int \<Rightarrow> Instance" where
  "sample_follower uuid lag = zero_Instance\<lparr>inst_UUID := uuid, inst_LastCheckValid := True,
     inst_LSNBehindMaster := lag,
     inst_Upstream := Some \<lparr>up_Peer = '''', up_Status = ''follow'', up_Idle = FFin 0, up_Lag = FFin 0,
       up_Message = ''''\<rparr>\<rparr>"

definition sample_set :: "Instance list \<Rightarrow> ReplicaSet" where
  "sample_set fs = \<lparr>set_UUID = ''s'', set_MasterUUID = ''m'', set_MasterURI = '''',
     set_Instances = zero_Instance\<lparr>inst_UUID := ''m''\<rparr> # fs\<rparr>"

definition no_limits :: Options where
  "no_limits = \<lparr>ReasonableFollowerLSNLag = 0, ReasonableFollowerIdle = FFin 0\<rparr>"

lemma sample_simps [simp]:
  "Idle (sample_follower u l) = FFin 0" "inst_UUID (sample_follower u l) = u"
  "inst_LSNBehindMaster (sample_follower u l) = l"
  "inst_VShardFingerprint (sample_follower u l) = 0" "inst_Priority (sample_follower u l) = 0"
  "inst_LastCheckValid (sample_follower u l)" "inst_Upstream (sample_follower u l) = Some \<lparr>up_Peer = '''', up_Status = ''follow'', up_Idle = FFin 0,
     up_Lag = FFin 0, up_Message = ''''\<rparr>"
  "follow_rank (sample_follower u l) = 0"
  by (simp_all add: Idle_def sample_follower_def follow_rank_def zero_Instance_def)

lemmas sample_defs = sample_set_def no_limits_def filter_candidates_def AliveFollowers_eq
  alive_follower_iff admissible_def Master_def zero_Instance_def

lemma sample_candidates:
  "u \<noteq> ''m'' \<Longrightarrow> candidates no_limits (sample_set [sample_follower u l]) = [sample_follower u l]"
  by (simp add: sample_defs sample_follower_def)

lemma sample_candidates3:
  "u \<noteq> ''m'' \<Longrightarrow> v \<noteq> ''m'' \<Longrightarrow> w \<noteq> ''m'' \<Longrightarrow>
   candidates no_limits (sample_set [sample_follower u k, sample_follower v l, sample_follower w n]) =
     [sample_follower u k, sample_follower v l, sample_follower w n]"
  by (simp add: sample_defs sample_follower_def)

lemma sample_Master: "Master (sample_set fs) = Inr (zero_Instance\<lparr>inst_UUID := ''m''\<rparr>)"
  by (simp add: Master_def sample_set_def)

text \<open>Whichever elector is configured, an elected instance is an alive follower, is not the
  present master, has a priority that is not negative, and lies within the configured LSN lag
  and idle time.\<close>

theorem elected_instance:
  assumes "sort_contract srt" and "elector_New srt mode opts = Some elect" and "elect rs = Some (Inr u)"
  shows "\<exists>inst \<in> set (AliveFollowers rs). inst_UUID inst = u \<and> u \<noteq> set_MasterUUID rs \<and>
     inst_LastCheckValid inst \<and> 0 \<le> inst_Priority inst \<and>
     (ReasonableFollowerLSNLag opts = 0 \<or> inst_LSNBehindMaster inst \<le> ReasonableFollowerLSNLag opts) \<and>
     (f64_eq (ReasonableFollowerIdle opts) (FFin 0) \<or>
      \<not> f64_less (ReasonableFollowerIdle opts) (Idle inst))"
proof -
  from elected_admissible[OF assms] obtain inst where
    i: "inst \<in> set (candidates opts rs)" "inst_UUID inst = u" by blast
  then have "inst \<in> set (AliveFollowers rs)" "admissible opts inst" by (simp_all add: filter_candidates_def)
  with i show ?thesis by (intro bexI[of _ inst]) (auto simp: admissible_iff AliveFollowers_eq alive_follower_iff)
qed

theorem elected_instance_witness:
  "\<exists>inst \<in> set (AliveFollowers (sample_set [sample_follower ''a'' 7])). inst_UUID inst = ''a'' \<and>
     0 \<le> inst_Priority inst"
proof -
  have "smart_ChooseMaster insertion_sort no_limits (sample_set [sample_follower ''a'' 7]) = Some (Inr ''a'')"
    by (simp add: smart_ChooseMaster_def sample_candidates sample_Master insertion_sort_def)
  then show ?thesis
    using elected_instance[where srt = insertion_sort and mode = ModeSmart and opts = no_limits
        and elect = "smart_ChooseMaster insertion_sort no_limits" and u = "''a''"
        and rs = "sample_set [sample_follower ''a'' 7]"]
    by (auto simp: elector_New_def insertion_sort_contract)
qed

text \<open>C14: when some candidate has a numeric idle value and no candidate has an empty UUID, the
  idle elector elects a candidate, and none has been idle for less time.\<close>

theorem idle_elects_least_idle:
  assumes "\<exists>f \<in> set (candidates opts rs). f64_less (Idle f) MaxFloat64"
    and "\<forall>f \<in> set (candidates opts rs). inst_UUID f \<noteq> ''''"
  shows "\<exists>f \<in> set (candidates opts rs). idle_ChooseMaster opts rs = Some (Inr (inst_UUID f)) \<and>
     (\<forall>g \<in> set (candidates opts rs). \<not> f64_less (Idle g) (Idle f))"
proof -
  from idle_loop_result[of MaxFloat64 "''''" "candidates opts rs"] assms(1)
  obtain f where f: "f \<in> set (candidates opts rs)"
    "idle_loop MaxFloat64 '''' (candidates opts rs) = inst_UUID f"
    "\<forall>g \<in> set (candidates opts rs). \<not> f64_less (Idle g) (Idle f)" by blast
  then have "idle_ChooseMaster opts rs = Some (Inr (inst_UUID f))"
    using assms(2) by (auto simp: idle_ChooseMaster_def Let_def)
  with f show ?thesis by blast
qed

theorem idle_elects_least_idle_witness:
  "idle_ChooseMaster no_limits (sample_set [sample_follower ''a'' 7]) = Some (Inr ''a'')"
  using idle_elects_least_idle[where opts = no_limits and rs = "sample_set [sample_follower ''a'' 7]"]
  by (simp add: sample_candidates MaxFloat64_def)

text \<open>C13: among comparable candidates the smart elector elects one that nobody beats on the
  documented criteria in their order: the master's vshard configuration first, then an upstream
  that follows, then the least lag behind the master, then the least idle time, where almost
  equal idle times are decided by the priority.\<close>

theorem smart_elects_best:
  assumes "sort_contract srt" and "Master rs = Inr m"
    and "candidates opts rs \<noteq> []" and "comparable (set (candidates opts rs))"
  shows "\<exists>f \<in> set (candidates opts rs). smart_ChooseMaster srt opts rs = Some (Inr (inst_UUID f)) \<and>
     (\<forall>g \<in> set (candidates opts rs). conf_rank m f \<le> conf_rank m g \<and>
        (conf_rank m g = conf_rank m f \<longrightarrow> follow_rank f \<le> follow_rank g \<and>
          (follow_rank g = follow_rank f \<longrightarrow> inst_LSNBehindMaster f \<le> inst_LSNBehindMaster g \<and>
            (inst_LSNBehindMaster g = inst_LSNBehindMaster f \<longrightarrow> \<not> idle_prio_less g f))))"
proof -
  obtain f where f: "f \<in> set (candidates opts rs)"
    "smart_ChooseMaster srt opts rs = Some (Inr (inst_UUID f))"
    "\<And>g. g \<in> set (candidates opts rs) \<Longrightarrow> \<not> smart_order m g f"
    by (rule smart_election[OF assms]) (rule that)
  show ?thesis
    using f(1,2) smart_order_best[OF f(3)] by (intro bexI[of _ f]) blast+
qed

theorem smart_elects_best_witness:
  "smart_ChooseMaster insertion_sort no_limits
     (sample_set [sample_follower ''a'' 7, sample_follower ''b'' 2, sample_follower ''c'' 5])
   = Some (Inr ''b'')"
proof -
  let ?fs = "[sample_follower ''a'' 7, sample_follower ''b'' 2, sample_follower ''c'' 5]"
  have c: "candidates no_limits (sample_set ?fs) = ?fs" by (rule sample_candidates3) simp_all
  have "comparable (set ?fs)"
    by (simp add: comparable_def)
  then show ?thesis
    using smart_elects_best[where srt = insertion_sort and rs = "sample_set ?fs" and opts = no_limits
        and m = "zero_Instance\<lparr>inst_UUID := ''m''\<rparr>", OF insertion_sort_contract sample_Master]
    by (auto simp: c conf_rank_def)
qed

text \<open>The comparison of the smart elector is not an order once a replica reports an LSN in
  front of the master's: 5 behind is preferred to 3 in front, that to 0 behind, and that to 5
  behind.  What is elected then depends on the order of the instances in the snapshot.\<close>

theorem smart_less_cycle:
  "let m = zero_Instance\<lparr>inst_UUID := ''m''\<rparr>;
       a = sample_follower ''a'' 5; b = sample_follower ''b'' (-3); c = sample_follower ''c'' 0
   in smart_less m a b = Some True \<and> smart_less m b c = Some True \<and> smart_less m c a = Some True \<and>
      smart_ChooseMaster insertion_sort no_limits (sample_set [a, b, c]) = Some (Inr ''a'') \<and>
      smart_ChooseMaster insertion_sort no_limits (sample_set [b, c, a]) = Some (Inr ''b'')"
proof -
  let ?m = "zero_Instance\<lparr>inst_UUID := ''m''\<rparr>"
  let ?a = "sample_follower ''a'' 5" and ?b = "sample_follower ''b'' (-3)" and ?c = "sample_follower ''c'' 0"
  have l: "smart_less ?m ?a ?b = Some True" "smart_less ?m ?b ?c = Some True"
    "smart_less ?m ?c ?a = Some True" "smart_less ?m ?b ?a = Some False"
    "smart_less ?m ?c ?b = Some False" "smart_less ?m ?a ?c = Some False"
    by (simp_all add: smart_less_def sample_follower_def zero_Instance_def)
  show ?thesis
    by (simp add: Let_def l smart_ChooseMaster_def sample_candidates3 sample_Master insertion_sort_def)
qed

text \<open>When the candidates are known by their downstream only and agree with the master's
  configuration, an election among two or more of them dereferences a nil upstream.\<close>

theorem smart_panics_without_upstream:
  assumes "sort_contract srt" and "Master rs = Inr m" and "2 \<le> length (candidates opts rs)"
    and "\<forall>f \<in> set (candidates opts rs). inst_Upstream f = None \<and>
           inst_VShardFingerprint f = inst_VShardFingerprint m"
  shows "smart_ChooseMaster srt opts rs = None"
proof -
  have "\<forall>x \<in> set (candidates opts rs). \<forall>y \<in> set (candidates opts rs). smart_less m x y = None"
    using assms(4) by (simp add: smart_less_def Let_def)
  with sort_contract.srt_panics[OF assms(1,3)] have "srt (smart_less m) (candidates opts rs) = None"
    by blast
  moreover have "candidates opts rs \<noteq> []" using assms(3) by auto
  ultimately show ?thesis using assms(2) by (simp add: smart_ChooseMaster_def)
qed

theorem smart_panics_without_upstream_witness:
  "let f = zero_Instance\<lparr>inst_LastCheckValid := True, inst_Downstream := Some \<lparr>down_Status = ''follow''\<rparr>\<rparr>
   in smart_ChooseMaster insertion_sort no_limits
        (sample_set [f\<lparr>inst_UUID := ''a''\<rparr>, f\<lparr>inst_UUID := ''b''\<rparr>]) = None"
  unfolding Let_def
  by (rule smart_panics_without_upstream[OF insertion_sort_contract sample_Master])
    (simp_all add: sample_defs Idle_def)

end
