(* ===== verification/Orch_Failover.thy ===== *)
theory Orch_Failover
  imports Orch_Hook Orch_Script Quorum_Elector "HOL-Library.Sublist"
begin

text \<open>
  internal/vshard/orchestrator/failover.go and instance_utils.go: reacting to an analysis.

  Functions pass the \<open>world\<close> explicitly and return \<open>None\<close> for a panic.  The failover struct is
  a record; the elector is the function \<open>ChooseMaster\<close> of the configured mode, \<open>srt\<close> stands for
  \<open>sort.Sort\<close>, \<open>sha\<close> for the hash of the sampler.  Queries are named by the URI passed to
  \<open>Connector\<close>; what they meet depends on the endpoint the pool maps it to.
\<close>

section \<open>The order of updates\<close>

definition failover_less :: "Instance \<Rightarrow> Instance \<Rightarrow> bool" where
  "failover_less left right =
     (if inst_LastCheckValid left \<and> \<not> inst_LastCheckValid right then True
      else if HasAlert left AlertUnreachableMaster \<and> \<not> HasAlert right AlertUnreachableMaster then True
      else if HasAlert right AlertUnreachableMaster \<and> \<not> HasAlert left AlertUnreachableMaster then False
      else f64_less (Idle left) (Idle right))"

section \<open>The failover\<close>

record failover =
  fo_clusterName :: string
  fo_elector :: choose_fun
  fo_hooker :: Hooker
  fo_recoveries :: "Recovery list"
  fo_recvSetTTL :: duration
  fo_recvInstanceTTL :: duration
  fo_recoveredCB :: bool
  fo_sampler :: sampler

record FailoverConfig =
  fc_Hooker :: Hooker
  fc_Elector :: choose_fun
  fc_InstanceRecoveryBlockTime :: duration
  fc_ReplicaSetRecoveryBlockTime :: duration

definition NewDefaultFailover :: "string \<Rightarrow> FailoverConfig \<Rightarrow> failover" where
  "NewDefaultFailover cluster cfg = \<lparr>fo_clusterName = cluster, fo_elector = fc_Elector cfg,
     fo_hooker = fc_Hooker cfg, fo_recoveries = [], fo_recvSetTTL = fc_ReplicaSetRecoveryBlockTime cfg,
     fo_recvInstanceTTL = fc_InstanceRecoveryBlockTime cfg, fo_recoveredCB = False,
     fo_sampler = \<lparr>smp_enabled = True, smp_fingerprints = Map.empty\<rparr>\<rparr>"

definition SetOnClusterRecovered :: "failover \<Rightarrow> failover" where
  "SetOnClusterRecovered f = f\<lparr>fo_recoveredCB := True\<rparr>"

datatype RecoveryFunc = PromoteFollowerToMaster | ApplyFollowerRoleToCoMasters

fun getCheckAndRecoveryFunc :: "ReplicaSetState \<Rightarrow> RecoveryFunc option \<times> string" where
  "getCheckAndRecoveryFunc NoProblem = (None, '''')"
| "getCheckAndRecoveryFunc DeadMaster = (Some PromoteFollowerToMaster,
     ''Master cannot be reached by qumomf. Will run failover.'')"
| "getCheckAndRecoveryFunc DeadMasterAndSomeFollowers = (Some PromoteFollowerToMaster,
     ''Master cannot be reached by qumomf and some of its followers are unreachable. Will run failover.'')"
| "getCheckAndRecoveryFunc DeadMasterAndFollowers = (None,
     ''Master cannot be reached by qumomf and none of its followers is replicating. No actions will be applied.'')"
| "getCheckAndRecoveryFunc AllMasterFollowersNotReplicating = (None,
     ''Master is reachable but none of its replicas is replicating. No actions will be applied.'')"
| "getCheckAndRecoveryFunc DeadMasterWithoutFollowers = (None,
     ''Master cannot be reached by qumomf and has no followers. No actions will be applied.'')"
| "getCheckAndRecoveryFunc DeadFollowers = (None,
     ''Master is reachable but some of its replicas are not replicating. No actions will be applied.'')"
| "getCheckAndRecoveryFunc NetworkProblems = (None,
     ''Master cannot be reached by qumomf but some followers are still replicating. It might be a network problem, no actions will be applied.'')"
| "getCheckAndRecoveryFunc MasterMasterReplication = (Some ApplyFollowerRoleToCoMasters,
     ''Found master-master topology. Will apply follower role to all co-masters except a shard leader.'')"
| "getCheckAndRecoveryFunc InconsistentVShardConfiguration = (None,
     ''Found replicas with inconsistent vshard topology. No actions will be applied.'')"

definition shouldBeAnalysisChecked :: "env \<Rightarrow> world \<Rightarrow> bool" where
  "shouldBeAnalysisChecked env w =
     (if ReadOnly (env_cluster env (w_io w)) then False
      else if w_active w then False
      else True)"

text \<open>\<open>None\<close> is the nil dereference of \<open>inst.Upstream\<close>.\<close>

definition shouldPromoteFollower :: "Instance \<Rightarrow> bool option" where
  "shouldPromoteFollower inst =
     (if inst_LSNBehindMaster inst < 0 then Some False
      else case inst_Upstream inst of
        None \<Rightarrow> None
      | Some u \<Rightarrow>
          if up_Status u \<noteq> UpstreamFollow \<and> up_Status u \<noteq> UpstreamRunning then Some False
          else Some True)"

text \<open>A \<open>tarantool.Eval\<close> is its expression.\<close>

definition buildRecoveryQuery :: "ReplicaSetUUID \<Rightarrow> InstanceUUID \<Rightarrow> string" where
  [simp]: "buildRecoveryQuery uuid candidate = (let lua = generateRecoveryLua uuid candidate in lua)"

text \<open>\<open>conn := f.cluster.Connector(uri); resp := conn.Exec(ctx, query)\<close>, and whether it succeeded.\<close>

definition exec_query :: "env \<Rightarrow> string \<Rightarrow> string \<Rightarrow> world \<Rightarrow> bool \<times> world" where
  "exec_query env uri lua w =
     (let u = pool_key (cl_rules (env_cluster env (w_io w))) uri;
          resp = response (env_codes env) (env_exec env (w_io w) u lua);
          ok = (res_Error resp = None)
      in (ok, emit (EvExec uri lua ok) w))"

fun exec_routers :: "env \<Rightarrow> string \<Rightarrow> Router list \<Rightarrow> world \<Rightarrow> world" where
  "exec_routers env lua [] w = w"
| "exec_routers env lua (r # routers) w =
     (let (ok, w) = exec_query env (rt_URI r) lua w in exec_routers env lua routers w)"

fun exec_instances :: "env \<Rightarrow> string \<Rightarrow> InstanceUUID \<Rightarrow> Instance list \<Rightarrow> world \<Rightarrow> world" where
  "exec_instances env lua candidateUUID [] w = w"
| "exec_instances env lua candidateUUID (inst # instances) w =
     (if inst_UUID inst = candidateUUID then exec_instances env lua candidateUUID instances w
      else let (ok, w) = exec_query env (inst_URI inst) lua w
           in exec_instances env lua candidateUUID instances w)"

text \<open>A return of \<open>promoteFollowerToMaster\<close> after \<open>recv\<close> exists runs the deferred function.\<close>

definition return_recovery :: "env \<Rightarrow> Recovery \<Rightarrow> world \<Rightarrow> Recovery list \<times> world" where
  "return_recovery env recv w = (let (t, w) = Timestamp env w in ([recv\<lparr>rv_EndTimestamp := t\<rparr>], w))"

text \<open>What follows the election of \<open>candidateUUID\<close>.\<close>

definition promote_elected :: "Instance sorter \<Rightarrow> env \<Rightarrow> ReplicaSet \<Rightarrow> InstanceUUID \<Rightarrow> Recovery \<Rightarrow> world
    \<Rightarrow> (Recovery list \<times> world) option" where
  "promote_elected srt env badSet candidateUUID recv w =
     (let candidate = (case Cluster_Instance (env_cluster env (w_io w)) candidateUUID of
                         Inr inst \<Rightarrow> inst | Inl _ \<Rightarrow> zero_Instance);
          w = tick w;
          recv = recv\<lparr>rv_Successor := Ident candidate\<rparr>
      in case shouldPromoteFollower candidate of
           None \<Rightarrow> None
         | Some False \<Rightarrow> Some (return_recovery env recv w)
         | Some True \<Rightarrow>
             let recvQuery = buildRecoveryQuery (set_UUID badSet) candidateUUID;
                 (ok, w) = exec_query env (inst_URI candidate) recvQuery w
             in if \<not> ok then Some (return_recovery env recv w)
                else
                  let routers = Cluster_Routers (env_cluster env (w_io w));
                      w = exec_routers env recvQuery routers (tick w);
                      instances = sort_by srt failover_less (Cluster_Instances (env_cluster env (w_io w)));
                      w = exec_instances env recvQuery candidateUUID instances (tick w)
                  in Some (return_recovery env (recv\<lparr>rv_IsSuccessful := True\<rparr>) w))"

definition promoteFollowerToMaster ::
  "Instance sorter \<Rightarrow> env \<Rightarrow> failover \<Rightarrow> ReplicationAnalysis \<Rightarrow> world \<Rightarrow> (Recovery list \<times> world) option" where
  "promoteFollowerToMaster srt env f analysis w =
     (let badSet = an_Set analysis;
          (blocked, w) = hasBlockedRecovery env (fo_recoveries f) (set_UUID badSet) w
      in if blocked then Some ([], w)
         else
           let failed = Master_or_zero badSet;
               (recv, w) = NewRecovery env RecoveryScopeSet (Ident failed) analysis w;
               (recv, w) = ExpireAfter env (fo_recvSetTTL f) recv w;
               recv = recv\<lparr>rv_ClusterName := fo_clusterName f\<rparr>;
               (err, w) = ExecuteProcesses env (fo_hooker f) HookPreFailover recv True w
           in if err \<noteq> None then Some (return_recovery env recv w)
              else case fo_elector f badSet of
                None \<Rightarrow> None
              | Some (Inl _) \<Rightarrow> Some (return_recovery env recv w)
              | Some (Inr candidateUUID) \<Rightarrow> promote_elected srt env badSet candidateUUID recv w)"

text \<open>One round of the loop over the followers, and the loop.\<close>

definition demote :: "env \<Rightarrow> failover \<Rightarrow> ReplicationAnalysis \<Rightarrow> string \<Rightarrow> Instance \<Rightarrow> world \<Rightarrow> Recovery \<times> world" where
  "demote env f analysis recvQuery inst w =
     (let (recv, w) = NewRecovery env RecoveryScopeInstance (Ident inst) analysis w;
          (recv, w) = ExpireAfter env (fo_recvInstanceTTL f) recv w;
          recv = recv\<lparr>rv_ClusterName := fo_clusterName f, rv_Successor := Ident inst\<rparr>;
          (err, w) = ExecuteProcesses env (fo_hooker f) HookPreFailover recv True w
      in if err \<noteq> None
         then let (t, w) = Timestamp env w in (recv\<lparr>rv_EndTimestamp := t\<rparr>, w)
         else let (ok, w) = exec_query env (inst_URI inst) recvQuery w;
                  recv = (if ok then recv\<lparr>rv_IsSuccessful := True\<rparr> else recv);
                  (t, w) = Timestamp env w
              in (recv\<lparr>rv_EndTimestamp := t\<rparr>, w))"

fun demote_loop :: "env \<Rightarrow> failover \<Rightarrow> ReplicationAnalysis \<Rightarrow> string \<Rightarrow> Instance \<Rightarrow> Instance list
    \<Rightarrow> Recovery list \<Rightarrow> world \<Rightarrow> Recovery list \<times> world" where
  "demote_loop env f analysis recvQuery master [] recoveries w = (recoveries, w)"
| "demote_loop env f analysis recvQuery master (inst # followers) recoveries w =
     (if inst_VShardFingerprint inst = inst_VShardFingerprint master
      then demote_loop env f analysis recvQuery master followers recoveries w
      else
        let (blocked, w) = hasBlockedRecovery env (fo_recoveries f) (inst_UUID inst) w
        in if blocked then demote_loop env f analysis recvQuery master followers recoveries w
           else let (recv, w) = demote env f analysis recvQuery inst w
                in demote_loop env f analysis recvQuery master followers (recoveries @ [recv]) w)"

definition applyFollowerRoleToCoMasters ::
  "env \<Rightarrow> failover \<Rightarrow> ReplicationAnalysis \<Rightarrow> world \<Rightarrow> Recovery list \<times> world" where
  "applyFollowerRoleToCoMasters env f analysis w =
     (let badSet = an_Set analysis;
          recvQuery = buildRecoveryQuery (set_UUID badSet) (set_MasterUUID badSet);
          master = Master_or_zero badSet
      in demote_loop env f analysis recvQuery master (Followers badSet) [] w)"

definition run_recovery :: "Instance sorter \<Rightarrow> env \<Rightarrow> failover \<Rightarrow> RecoveryFunc \<Rightarrow> ReplicationAnalysis \<Rightarrow> world
    \<Rightarrow> (Recovery list \<times> world) option" where
  "run_recovery srt env f rf analysis w =
     (case rf of
        PromoteFollowerToMaster \<Rightarrow> promoteFollowerToMaster srt env f analysis w
      | ApplyFollowerRoleToCoMasters \<Rightarrow> Some (applyFollowerRoleToCoMasters env f analysis w))"

text \<open>The loop over the applied recoveries.\<close>

fun finish_recoveries :: "env \<Rightarrow> Recovery list \<Rightarrow> failover \<Rightarrow> world \<Rightarrow> failover \<times> world" where
  "finish_recoveries env [] f w = (f, w)"
| "finish_recoveries env (recv # recoveries) f w =
     (let w = (if fo_recoveredCB f then emit (EvRecoveredCB recv) w else w);
          f = f\<lparr>fo_recoveries := registryRecovery recv (fo_recoveries f)\<rparr>;
          w = emit (EvRegistered recv) w;
          (_, w) = ExecuteProcesses env (fo_hooker f)
                     (if rv_IsSuccessful recv then HookPostSuccessfulFailover
                      else HookPostUnsuccessfulFailover) recv False w
      in finish_recoveries env recoveries f w)"

definition checkAndRecover :: "Instance sorter \<Rightarrow> (string \<Rightarrow> string) \<Rightarrow> env \<Rightarrow> ReplicationAnalysis
    \<Rightarrow> failover \<Rightarrow> world \<Rightarrow> (failover \<times> world) option" where
  "checkAndRecover srt sha env analysis f w =
     (let f = f\<lparr>fo_sampler := snd (sample sha analysis (fo_sampler f))\<rparr>
      in case fst (getCheckAndRecoveryFunc (an_State analysis)) of
           None \<Rightarrow> Some (f, w)
         | Some recvFunc \<Rightarrow>
             let w = (emit EvStartRecovery w)\<lparr>w_active := True\<rparr>
             in case run_recovery srt env f recvFunc analysis w of
                  None \<Rightarrow> None
                | Some (recoveries, w) \<Rightarrow>
                    let (f, w) = finish_recoveries env recoveries f w;
                        w = (if length recoveries > 0 then emit EvDiscover w else w);
                        w = (emit EvStopRecovery w)\<lparr>w_active := False\<rparr>
                    in Some (f, w))"

text \<open>
  The goroutine of \<open>Serve\<close>: what \<open>select\<close> delivers, one after the other, until the stop.
\<close>

datatype serve_input = CleanupTick | AnalysisReceived ReplicationAnalysis

definition serve_one :: "Instance sorter \<Rightarrow> (string \<Rightarrow> string) \<Rightarrow> env \<Rightarrow> serve_input \<Rightarrow> failover \<Rightarrow> world
    \<Rightarrow> (failover \<times> world) option" where
  "serve_one srt sha env input f w =
     (case input of
        CleanupTick \<Rightarrow>
          (let (alive, w) = cleanup env False (fo_recoveries f) w
           in Some (f\<lparr>fo_recoveries := alive\<rparr>, w))
      | AnalysisReceived analysis \<Rightarrow>
          (if shouldBeAnalysisChecked env w then checkAndRecover srt sha env analysis f (tick w)
           else Some (f, tick w)))"

fun serve :: "Instance sorter \<Rightarrow> (string \<Rightarrow> string) \<Rightarrow> env \<Rightarrow> serve_input list \<Rightarrow> failover \<Rightarrow> world
    \<Rightarrow> (failover \<times> world) option" where
  "serve srt sha env [] f w = Some (f, w)"
| "serve srt sha env (input # inputs) f w =
     Option.bind (serve_one srt sha env input f w) (\<lambda>(f, w). serve srt sha env inputs f w)"

section \<open>Queries in the trace\<close>

text \<open>\<open>es\<close> are queries of \<open>lua\<close> to the given URIs, in order, whatever their outcome.\<close>

definition exec_events :: "string \<Rightarrow> string list \<Rightarrow> event list \<Rightarrow> bool" where
  "exec_events lua uris es \<longleftrightarrow> list_all2 (\<lambda>u e. \<exists>ok. e = EvExec u lua ok) uris es"

lemma exec_events_simps [simp]:
  "exec_events lua [] es \<longleftrightarrow> es = []"
  "exec_events lua (u # us) (EvExec u lua ok # es) \<longleftrightarrow> exec_events lua us es"
  by (simp_all add: exec_events_def)

lemma exec_events_append:
  "exec_events lua us es \<Longrightarrow> exec_events lua vs fs \<Longrightarrow> exec_events lua (us @ vs) (es @ fs)"
  by (simp add: exec_events_def list_all2_appendI)

lemma exec_events_Cons: "exec_events lua us es \<Longrightarrow> exec_events lua (u # us) (EvExec u lua ok # es)"
  by simp

lemma exec_query_result:
  "exec_query env uri lua w = (ok, w') \<Longrightarrow> w_trace w' = w_trace w @ [EvExec uri lua ok] \<and> w_active w' = w_active w"
  by (auto simp: exec_query_def Let_def)

lemma exec_routers_trace:
  "\<exists>es. w_trace (exec_routers env lua routers w) = w_trace w @ es \<and>
        exec_events lua (map rt_URI routers) es \<and>
        w_active (exec_routers env lua routers w) = w_active w"
proof (induction routers arbitrary: w)
  case (Cons r routers)
  obtain ok w1 where q: "exec_query env (rt_URI r) lua w = (ok, w1)" by (cases "exec_query env (rt_URI r) lua w")
  from Cons[of w1] obtain es where "w_trace (exec_routers env lua routers w1) = w_trace w1 @ es"
    "exec_events lua (map rt_URI routers) es" "w_active (exec_routers env lua routers w1) = w_active w1"
    by blast
  with exec_query_result[OF q] q show ?case by (intro exI[of _ "EvExec (rt_URI r) lua ok # es"]) simp
qed simp

lemma exec_instances_trace:
  "\<exists>es. w_trace (exec_instances env lua c insts w) = w_trace w @ es \<and>
        exec_events lua (map inst_URI (filter (\<lambda>i. inst_UUID i \<noteq> c) insts)) es \<and>
        w_active (exec_instances env lua c insts w) = w_active w"
proof (induction insts arbitrary: w)
  case (Cons i insts)
  obtain ok w1 where q: "exec_query env (inst_URI i) lua w = (ok, w1)" by (cases "exec_query env (inst_URI i) lua w")
  show ?case
  proof (cases "inst_UUID i = c")
    case False
    from Cons[of w1] obtain es where "w_trace (exec_instances env lua c insts w1) = w_trace w1 @ es"
      "exec_events lua (map inst_URI (filter (\<lambda>i. inst_UUID i \<noteq> c) insts)) es"
      "w_active (exec_instances env lua c insts w1) = w_active w1"
      by blast
    with False exec_query_result[OF q] q show ?thesis
      by (intro exI[of _ "EvExec (inst_URI i) lua ok # es"]) simp
  qed (use Cons in simp)
qed simp

lemma return_recovery_result:
  "return_recovery env recv w = ([recv\<lparr>rv_EndTimestamp := env_now env (w_io w) div Second\<rparr>], tick w)"
  by (simp add: return_recovery_def Timestamp_def)

section \<open>A promotion after its election\<close>

text \<open>What a promotion of \<open>candidate\<close> may leave in the trace.\<close>

inductive promotion_execs :: "Instance sorter \<Rightarrow> env \<Rightarrow> string \<Rightarrow> InstanceUUID \<Rightarrow> nat \<Rightarrow> bool \<Rightarrow> event list \<Rightarrow> bool"
  for srt env lua candidate n where
  refused: "promotion_execs srt env lua candidate n False []"
| candidate_failed: "Cluster_Instance (env_cluster env n) candidate = Inr inst \<Longrightarrow>
    shouldPromoteFollower inst = Some True \<Longrightarrow>
    promotion_execs srt env lua candidate n False [EvExec (inst_URI inst) lua False]"
| promoted: "Cluster_Instance (env_cluster env n) candidate = Inr inst \<Longrightarrow>
    shouldPromoteFollower inst = Some True \<Longrightarrow> n < n1 \<Longrightarrow> n1 < n2 \<Longrightarrow>
    exec_events lua
      (map rt_URI (Cluster_Routers (env_cluster env n1))
       @ map inst_URI (filter (\<lambda>i. inst_UUID i \<noteq> candidate)
           (sort_by srt failover_less (Cluster_Instances (env_cluster env n2))))) es \<Longrightarrow>
    promotion_execs srt env lua candidate n True (EvExec (inst_URI inst) lua True # es)"

inductive_cases promotion_execs_trueE: "promotion_execs srt env lua candidate n True es"
inductive_cases promotion_execs_falseE: "promotion_execs srt env lua candidate n False es"

lemma exec_routers_io: "w_io w \<le> w_io (exec_routers env lua routers w)"
proof (induction routers arbitrary: w)
  case (Cons r routers)
  obtain ok w1 where q: "exec_query env (rt_URI r) lua w = (ok, w1)" by (cases "exec_query env (rt_URI r) lua w")
  then have "w_io w1 = Suc (w_io w)" by (auto simp: exec_query_def Let_def)
  with Cons[of w1] q show ?case by simp
qed simp

text \<open>The fields of a recovery that are fixed once it has its expiration.\<close>

definition recovery_id :: "Recovery \<Rightarrow> string \<times> RecoveryScope \<times> ReplicationAnalysis \<times> string \<times>
    ReplicaSetUUID \<times> InstanceIdent \<times> int \<times> int" where
  "recovery_id r = (rv_Type r, rv_Scope r, rv_AnalysisEntry r, rv_ClusterName r, rv_SetUUID r,
     rv_Failed r, rv_StartTimestamp r, rv_Expiration r)"

lemma recovery_id_simps [simp]:
  "recovery_id (r\<lparr>rv_Successor := s\<rparr>) = recovery_id r"
  "recovery_id (r\<lparr>rv_IsSuccessful := b\<rparr>) = recovery_id r"
  "recovery_id (r\<lparr>rv_EndTimestamp := t\<rparr>) = recovery_id r"
  by (simp_all add: recovery_id_def)

lemma recovery_idD:
  "recovery_id r = recovery_id r' \<Longrightarrow> ScopeKey r = ScopeKey r'"
  "recovery_id r = recovery_id r' \<Longrightarrow> rv_Expiration r = rv_Expiration r'"
  "recovery_id r = recovery_id r' \<Longrightarrow> rv_Scope r = rv_Scope r'"
  by (simp_all add: recovery_id_def ScopeKey_def)

lemma promote_elected_result:
  assumes "promote_elected srt env badSet candidate recv w = Some (recs, w')" and "\<not> rv_IsSuccessful recv"
  obtains r es where "recs = [r]" "w_trace w' = w_trace w @ es" "w_active w' = w_active w"
    "promotion_execs srt env (generateRecoveryLua (set_UUID badSet) candidate) candidate (w_io w)
       (rv_IsSuccessful r) es"
    "recovery_id r = recovery_id recv"
proof (cases "Cluster_Instance (env_cluster env (w_io w)) candidate")
  case (Inl u)
  with assms show ?thesis
    by (simp add: promote_elected_def Let_def shouldPromoteFollower_def zero_Instance_def)
next
  case inst: (Inr inst)
  let ?lua = "generateRecoveryLua (set_UUID badSet) candidate"
  from assms(1) inst obtain b where b: "shouldPromoteFollower inst = Some b"
    by (cases "shouldPromoteFollower inst") (auto simp: promote_elected_def Let_def)
  show ?thesis
  proof (cases b)
    case False
    with assms inst b show ?thesis
      by (intro that[where r = "hd recs" and es = "[]"])
        (auto simp: promote_elected_def Let_def return_recovery_result intro: promotion_execs.refused)
  next
    case True
    obtain ok w1 where q: "exec_query env (inst_URI inst) ?lua (tick w) = (ok, w1)"
      by (cases "exec_query env (inst_URI inst) ?lua (tick w)")
    note qr = exec_query_result[OF q]
    show ?thesis
    proof (cases ok)
      case False
      with assms inst b True q qr show ?thesis
        by (intro that[where r = "hd recs" and es = "[EvExec (inst_URI inst) ?lua False]"])
          (auto simp: promote_elected_def Let_def return_recovery_result intro: promotion_execs.candidate_failed)
    next
      case ok: True
      let ?w2 = "exec_routers env ?lua (Cluster_Routers (env_cluster env (w_io w1))) (tick w1)"
      let ?is = "sort_by srt failover_less (Cluster_Instances (env_cluster env (w_io ?w2)))"
      obtain es1 where es1: "w_trace ?w2 = w_trace w1 @ es1" "w_active ?w2 = w_active w1"
        "exec_events ?lua (map rt_URI (Cluster_Routers (env_cluster env (w_io w1)))) es1"
        using exec_routers_trace[of env ?lua _ "tick w1"] by (metis world_simps(1,5))
      obtain es2 where es2: "w_trace (exec_instances env ?lua candidate ?is (tick ?w2)) = w_trace ?w2 @ es2"
        "w_active (exec_instances env ?lua candidate ?is (tick ?w2)) = w_active ?w2"
        "exec_events ?lua (map inst_URI (filter (\<lambda>i. inst_UUID i \<noteq> candidate) ?is)) es2"
        using exec_instances_trace[of env ?lua candidate ?is "tick ?w2"] by (metis world_simps(1,5))
      have io: "w_io w < w_io w1" "w_io w1 < w_io ?w2"
        using q exec_routers_io[of "tick w1" env ?lua] by (auto simp: exec_query_def Let_def less_eq_Suc_le)
      from assms(1) inst b True q ok have recs: "recs = [recv\<lparr>rv_Successor := Ident inst, rv_IsSuccessful := True,
          rv_EndTimestamp := env_now env (w_io (exec_instances env ?lua candidate ?is (tick ?w2))) div Second\<rparr>]"
        and w': "w' = tick (exec_instances env ?lua candidate ?is (tick ?w2))"
        by (auto simp: promote_elected_def Let_def return_recovery_result)
      have "promotion_execs srt env ?lua candidate (w_io w) True (EvExec (inst_URI inst) ?lua True # es1 @ es2)"
        using inst b True io exec_events_append[OF es1(3) es2(3)] by (intro promotion_execs.promoted) auto
      then show ?thesis
        using recs w' es1 es2 qr ok by (intro that[where r = "hd recs" and es = "EvExec (inst_URI inst) ?lua True # es1 @ es2"]) auto
    qed
  qed
qed

section \<open>A whole promotion\<close>

definition pre_hooks :: "failover \<Rightarrow> Recovery \<Rightarrow> event list \<Rightarrow> bool" where
  "pre_hooks f recv es \<longleftrightarrow> (\<exists>k. es = map (hook_event HookPreFailover recv) (take k (hooks_of (fo_hooker f) HookPreFailover)))"

lemma execute_loop_io:
  "w_io w \<le> w_io (snd (execute_loop env h t recv foe ps err w)) \<and>
   w_active (snd (execute_loop env h t recv foe ps err w)) = w_active w"
proof (induction ps arbitrary: err w)
  case (Cons p ps)
  let ?w = "emit (hook_event t recv p) w"
  from Cons.IH[of ?w] show ?case
    by (auto simp: execute_loop_Cons Let_def simp del: execute_loop.simps(2) intro: Suc_leD)
qed simp

lemma ExecuteProcesses_frame:
  assumes "ExecuteProcesses env h t recv foe w = (err, w')"
  shows "w_io w \<le> w_io w'" "w_active w' = w_active w"
  using execute_loop_io[of w env h t recv foe "hooks_of h t" None] assms
  by (simp_all add: ExecuteProcesses_loop)

lemma ExecuteProcesses_prefix:
  assumes "ExecuteProcesses env h t recv foe w = (err, w')"
  shows "\<exists>k. w_trace w' = w_trace w @ map (hook_event t recv) (take k (hooks_of h t))"
  using conjunct2[OF execute_loop_result[of env h t recv foe "hooks_of h t" w]] assms
  unfolding ExecuteProcesses_loop by (metis snd_conv)

lemma ExecuteProcesses_all:
  assumes "ExecuteProcesses env h t recv False w = (err, w')"
  shows "w_trace w' = w_trace w @ map (hook_event t recv) (hooks_of h t)"
  using execute_loop_result[of env h t recv False "hooks_of h t" w] assms
  unfolding ExecuteProcesses_loop by auto

lemma hasBlockedRecovery_frame:
  "hasBlockedRecovery env rs key w = (b, w') \<Longrightarrow> w_io w \<le> w_io w' \<and> w_active w' = w_active w \<and> w_trace w' = w_trace w"
proof (induction env rs key w arbitrary: b w' rule: hasBlockedRecovery.induct)
  case (2 env c rs key w)
  then show ?case
    by (cases "ScopeKey c = key"; cases "rv_Expiration c < env_now env (w_io w) div Second")
      (force simp: Expired_def Timestamp_def)+
qed simp

text \<open>The first recovery record of a promotion, and of a demotion.\<close>

definition started :: "env \<Rightarrow> RecoveryScope \<Rightarrow> InstanceIdent \<Rightarrow> ReplicationAnalysis \<Rightarrow> duration \<Rightarrow> string
    \<Rightarrow> nat \<Rightarrow> Recovery" where
  "started env scope failed analysis ttl name n =
     \<lparr>rv_Type = state_string (an_State analysis), rv_Scope = scope, rv_AnalysisEntry = analysis,
      rv_ClusterName = name, rv_SetUUID = set_UUID (an_Set analysis), rv_Failed = failed,
      rv_Successor = zero_InstanceIdent, rv_IsSuccessful = False,
      rv_StartTimestamp = env_now env n div Second, rv_EndTimestamp = 0,
      rv_Expiration = (env_now env (Suc n) + ttl) div Second\<rparr>"

lemma start_steps:
  "NewRecovery env scope failed analysis w =
     (started env scope failed analysis 0 [] (w_io w)\<lparr>rv_Expiration := 0\<rparr>, tick w)"
  "ExpireAfter env ttl (started env scope failed analysis 0 [] (w_io w)\<lparr>rv_Expiration := 0\<rparr>) (tick w) =
     (started env scope failed analysis ttl [] (w_io w), tick (tick w))"
  "started env scope failed analysis ttl [] n\<lparr>rv_ClusterName := name\<rparr> =
     started env scope failed analysis ttl name n"
  by (simp_all add: NewRecovery_def Timestamp_def ExpireAfter_def started_def)

lemma started_simps [simp]:
  "\<not> rv_IsSuccessful (started env scope failed analysis ttl name n)"
  "rv_Scope (started env scope failed analysis ttl name n) = scope"
  "rv_Failed (started env scope failed analysis ttl name n) = failed"
  "rv_SetUUID (started env scope failed analysis ttl name n) = set_UUID (an_Set analysis)"
  "rv_Expiration (started env scope failed analysis ttl name n) = (env_now env (Suc n) + ttl) div Second"
  by (simp_all add: started_def)

lemma promote_unfold:
  "promoteFollowerToMaster srt env f analysis w =
     (let badSet = an_Set analysis;
          (blocked, w) = hasBlockedRecovery env (fo_recoveries f) (set_UUID badSet) w
      in if blocked then Some ([], w)
         else
           let recv = started env RecoveryScopeSet (Ident (Master_or_zero badSet)) analysis
                        (fo_recvSetTTL f) (fo_clusterName f) (w_io w);
               (err, w) = ExecuteProcesses env (fo_hooker f) HookPreFailover recv True (tick (tick w))
           in if err \<noteq> None then Some (return_recovery env recv w)
              else case fo_elector f badSet of
                None \<Rightarrow> None
              | Some (Inl _) \<Rightarrow> Some (return_recovery env recv w)
              | Some (Inr candidateUUID) \<Rightarrow> promote_elected srt env badSet candidateUUID recv w)"
  unfolding promoteFollowerToMaster_def Let_def start_steps prod.case by (rule refl)

lemma promote_result:
  assumes "promoteFollowerToMaster srt env f analysis w = Some (recs, w')"
  obtains (blocked) "fst (hasBlockedRecovery env (fo_recoveries f) (set_UUID (an_Set analysis)) w)"
      "recs = []" "w_trace w' = w_trace w" "w_active w' = w_active w"
  | (attempted) n r hooks es where
      "\<not> fst (hasBlockedRecovery env (fo_recoveries f) (set_UUID (an_Set analysis)) w)"
      "w_io w \<le> n" "recs = [r]" "w_active w' = w_active w"
      "recovery_id r = recovery_id (started env RecoveryScopeSet (Ident (Master_or_zero (an_Set analysis)))
         analysis (fo_recvSetTTL f) (fo_clusterName f) n)"
      "w_trace w' = w_trace w @ hooks @ es"
      "pre_hooks f (started env RecoveryScopeSet (Ident (Master_or_zero (an_Set analysis)))
         analysis (fo_recvSetTTL f) (fo_clusterName f) n) hooks"
      "es = [] \<and> \<not> rv_IsSuccessful r \<or>
       (\<exists>c n'. fo_elector f (an_Set analysis) = Some (Inr c) \<and> n \<le> n' \<and>
          promotion_execs srt env (generateRecoveryLua (set_UUID (an_Set analysis)) c) c n' (rv_IsSuccessful r) es)"
proof -
  obtain b w1 where h: "hasBlockedRecovery env (fo_recoveries f) (set_UUID (an_Set analysis)) w = (b, w1)"
    by (cases "hasBlockedRecovery env (fo_recoveries f) (set_UUID (an_Set analysis)) w")
  note h' = hasBlockedRecovery_frame[OF h]
  show ?thesis
  proof (cases b)
    case True
    with assms h h' show ?thesis by (intro blocked) (auto simp: promote_unfold)
  next
    case False
    let ?r = "started env RecoveryScopeSet (Ident (Master_or_zero (an_Set analysis))) analysis
      (fo_recvSetTTL f) (fo_clusterName f) (w_io w1)"
    obtain err w2 where e: "ExecuteProcesses env (fo_hooker f) HookPreFailover ?r True (tick (tick w1)) = (err, w2)"
      by (cases "ExecuteProcesses env (fo_hooker f) HookPreFailover ?r True (tick (tick w1))")
    from ExecuteProcesses_prefix[OF e] obtain hooks where
      hk: "w_trace w2 = w_trace w1 @ hooks" "pre_hooks f ?r hooks" by (auto simp: pre_hooks_def)
    have io: "w_io w1 \<le> w_io w2" "w_active w2 = w_active w1" using ExecuteProcesses_frame[OF e] by simp_all
    have stop: ?thesis if "Some (return_recovery env ?r w2) = Some (recs, w')"
      using that h h' False hk io
      by (intro attempted[of "w_io w1" "hd recs" hooks "[]"])
        (auto simp: return_recovery_result)
    show ?thesis
    proof (cases "err = None")
      case False
      with assms h \<open>\<not> b\<close> e stop show ?thesis by (auto simp: promote_unfold Let_def)
    next
      case None: True
      from assms h False e None obtain x where x: "fo_elector f (an_Set analysis) = Some x"
        by (cases "fo_elector f (an_Set analysis)") (auto simp: promote_unfold Let_def)
      show ?thesis
      proof (cases x)
        case (Inl a)
        with assms h False e None x stop show ?thesis by (auto simp: promote_unfold Let_def)
      next
        case c: (Inr c)
        with assms h False e None x have "promote_elected srt env (an_Set analysis) c ?r w2 = Some (recs, w')"
          by (auto simp: promote_unfold Let_def)
        then obtain r es where "recs = [r]" "w_trace w' = w_trace w2 @ es" "w_active w' = w_active w2"
          "promotion_execs srt env (generateRecoveryLua (set_UUID (an_Set analysis)) c) c (w_io w2) (rv_IsSuccessful r) es"
          "recovery_id r = recovery_id ?r"
          by (rule promote_elected_result) simp_all
        with h h' False hk io x c show ?thesis
          by (intro attempted[of "w_io w1" r hooks es]) auto
      qed
    qed
  qed
qed

section \<open>Demoting co-masters\<close>

text \<open>
  The followers that were acted upon, their recoveries and what they leave in the trace: some
  hooks, and then either nothing, when a hook failed, or one query to that follower.
\<close>

inductive demoted :: "failover \<Rightarrow> string \<Rightarrow> Instance list \<Rightarrow> Recovery list \<Rightarrow> event list \<Rightarrow> bool" for f lua where
  demoted_nil: "demoted f lua [] [] []"
| demoted_cons: "rv_Scope r = RecoveryScopeInstance \<Longrightarrow> rv_Failed r = Ident inst \<Longrightarrow>
    pre_hooks f r0 hooks \<Longrightarrow>
    es = [] \<and> \<not> rv_IsSuccessful r \<or> es = [EvExec (inst_URI inst) lua (rv_IsSuccessful r)] \<Longrightarrow>
    demoted f lua insts rs rest \<Longrightarrow>
    demoted f lua (inst # insts) (r # rs) (hooks @ es @ rest)"

lemma demoted_snoc:
  assumes "demoted f lua insts rs evs"
    and "rv_Scope r = RecoveryScopeInstance" "rv_Failed r = Ident inst" "pre_hooks f r0 hooks"
    and "es = [] \<and> \<not> rv_IsSuccessful r \<or> es = [EvExec (inst_URI inst) lua (rv_IsSuccessful r)]"
  shows "demoted f lua (insts @ [inst]) (rs @ [r]) (evs @ hooks @ es)"
  using assms(1)
proof (induction rule: demoted.induct)
  case demoted_nil
  show ?case using demoted_cons[OF assms(2-5) demoted.demoted_nil] by simp
next
  case (demoted_cons r' inst' r0' hooks' es' insts rs rest)
  from demoted.demoted_cons[OF demoted_cons.hyps(1-4) demoted_cons.IH] show ?case by simp
qed

lemma demote_result:
  assumes "demote env f analysis lua inst w = (r, w')"
  obtains hooks es r0 where "rv_Scope r = RecoveryScopeInstance" "rv_Failed r = Ident inst"
    "pre_hooks f r0 hooks" "w_trace w' = w_trace w @ hooks @ es" "w_active w' = w_active w"
    "es = [] \<and> \<not> rv_IsSuccessful r \<or> es = [EvExec (inst_URI inst) lua (rv_IsSuccessful r)]"
proof -
  let ?r = "(started env RecoveryScopeInstance (Ident inst) analysis (fo_recvInstanceTTL f) [] (w_io w))
    \<lparr>rv_ClusterName := fo_clusterName f, rv_Successor := Ident inst\<rparr>"
  obtain err w2 where e: "ExecuteProcesses env (fo_hooker f) HookPreFailover ?r True (tick (tick w)) = (err, w2)"
    by (cases "ExecuteProcesses env (fo_hooker f) HookPreFailover ?r True (tick (tick w))")
  from ExecuteProcesses_prefix[OF e] obtain hooks where
    hk: "w_trace w2 = w_trace w @ hooks" "pre_hooks f ?r hooks" by (auto simp: pre_hooks_def)
  have act: "w_active w2 = w_active w" using ExecuteProcesses_frame[OF e] by simp
  have d: "demote env f analysis lua inst w =
     (case ExecuteProcesses env (fo_hooker f) HookPreFailover ?r True (tick (tick w)) of (err, w) \<Rightarrow>
        if err \<noteq> None then let (t, w) = Timestamp env w in (?r\<lparr>rv_EndTimestamp := t\<rparr>, w)
        else let (ok, w) = exec_query env (inst_URI inst) lua w;
                 recv = (if ok then ?r\<lparr>rv_IsSuccessful := True\<rparr> else ?r);
                 (t, w) = Timestamp env w
             in (recv\<lparr>rv_EndTimestamp := t\<rparr>, w))"
    unfolding demote_def Let_def start_steps(1,2) prod.case by (rule refl)
  show ?thesis
  proof (cases "err = None")
    case False
    with assms d e hk act show ?thesis
      by (intro that[of ?r hooks "[]"]) (auto simp: Timestamp_def)
  next
    case True
    obtain ok w3 where q: "exec_query env (inst_URI inst) lua w2 = (ok, w3)"
      by (cases "exec_query env (inst_URI inst) lua w2")
    have "rv_IsSuccessful r = ok" "rv_Scope r = RecoveryScopeInstance" "rv_Failed r = Ident inst"
      "w' = tick w3"
      using assms d e True q by (cases ok; auto simp: Timestamp_def)+
    with hk act exec_query_result[OF q] show ?thesis
      by (intro that[of ?r hooks "[EvExec (inst_URI inst) lua ok]"]) simp_all
  qed
qed

lemma demote_loop_result:
  assumes "demote_loop env f analysis lua master followers recs w = (recs', w')"
  obtains insts rs es where "recs' = recs @ rs" "demoted f lua insts rs es"
    "w_trace w' = w_trace w @ es" "w_active w' = w_active w"
    "subseq insts (filter (\<lambda>i. inst_VShardFingerprint i \<noteq> inst_VShardFingerprint master) followers)"
    "\<forall>i \<in> set followers. \<forall>b \<in> set (fo_recoveries f). ScopeKey b \<noteq> inst_UUID i \<Longrightarrow>
       insts = filter (\<lambda>i. inst_VShardFingerprint i \<noteq> inst_VShardFingerprint master) followers"
  using assms
proof (induction followers arbitrary: recs w thesis)
  case Nil
  then show ?case by (auto intro: demoted_nil)
next
  case (Cons inst followers)
  show ?case
  proof (cases "inst_VShardFingerprint inst = inst_VShardFingerprint master")
    case True
    with Cons.prems(2) have "demote_loop env f analysis lua master followers recs w = (recs', w')" by simp
    then show ?thesis
    proof (rule Cons.IH[rotated])
      fix rs insts es
      assume "recs' = recs @ rs" "demoted f lua insts rs es" "w_trace w' = w_trace w @ es"
        "w_active w' = w_active w"
        "subseq insts (filter (\<lambda>i. inst_VShardFingerprint i \<noteq> inst_VShardFingerprint master) followers)"
        "\<forall>i \<in> set followers. \<forall>b \<in> set (fo_recoveries f). ScopeKey b \<noteq> inst_UUID i \<Longrightarrow>
           insts = filter (\<lambda>i. inst_VShardFingerprint i \<noteq> inst_VShardFingerprint master) followers"
      then show ?thesis using True by (intro Cons.prems(1)[of rs insts es]) simp_all
    qed
  next
    case False
    obtain b w1 where h: "hasBlockedRecovery env (fo_recoveries f) (inst_UUID inst) w = (b, w1)"
      by (cases "hasBlockedRecovery env (fo_recoveries f) (inst_UUID inst) w")
    note h' = hasBlockedRecovery_frame[OF h]
    show ?thesis
    proof (cases b)
      case True
      with Cons.prems(2) False h have "demote_loop env f analysis lua master followers recs w1 = (recs', w')" by simp
      then obtain insts rs es where r: "recs' = recs @ rs" "demoted f lua insts rs es"
        "w_trace w' = w_trace w1 @ es" "w_active w' = w_active w1"
        "subseq insts (filter (\<lambda>i. inst_VShardFingerprint i \<noteq> inst_VShardFingerprint master) followers)"
        by (rule Cons.IH[rotated])
      have "\<exists>b \<in> set (fo_recoveries f). ScopeKey b = inst_UUID inst"
        using hasBlockedRecovery_no_key[of "fo_recoveries f" "inst_UUID inst" env w] h True by auto
      with r h' False show ?thesis by (intro Cons.prems(1)[of rs insts es]) auto
    next
      case nb: False
      obtain r w2 where d: "demote env f analysis lua inst w1 = (r, w2)" by (cases "demote env f analysis lua inst w1")
      with Cons.prems(2) False h nb have
        l: "demote_loop env f analysis lua master followers (recs @ [r]) w2 = (recs', w')" by simp
      from d obtain hooks es0 r0 where d': "rv_Scope r = RecoveryScopeInstance" "rv_Failed r = Ident inst"
        "pre_hooks f r0 hooks" "w_trace w2 = w_trace w1 @ hooks @ es0" "w_active w2 = w_active w1"
        "es0 = [] \<and> \<not> rv_IsSuccessful r \<or> es0 = [EvExec (inst_URI inst) lua (rv_IsSuccessful r)]"
        by (rule demote_result)
      from l show ?thesis
      proof (rule Cons.IH[rotated])
        fix rs insts es
        assume r: "recs' = (recs @ [r]) @ rs" "demoted f lua insts rs es" "w_trace w' = w_trace w2 @ es"
          "w_active w' = w_active w2"
          "subseq insts (filter (\<lambda>i. inst_VShardFingerprint i \<noteq> inst_VShardFingerprint master) followers)"
          "\<forall>i \<in> set followers. \<forall>b \<in> set (fo_recoveries f). ScopeKey b \<noteq> inst_UUID i \<Longrightarrow>
             insts = filter (\<lambda>i. inst_VShardFingerprint i \<noteq> inst_VShardFingerprint master) followers"
        show ?thesis
          using r h' d' False demoted_cons[OF d'(1-3,6) r(2)]
          by (intro Cons.prems(1)[of "r # rs" "inst # insts" "hooks @ es0 @ es"]) auto
      qed
    qed
  qed
qed

end
