(* ===== verification/Failover_Safety.thy ===== *)
theory Failover_Safety
  imports Orch_Failover
begin

text \<open>
  What a failover does and does not do: the trace of \<open>checkAndRecover\<close>, who is sent the new
  configuration and in which order, what blocks a repeated recovery, and where the code panics.
\<close>

section \<open>The end of a recovery\<close>

text \<open>The effects of the loop over the applied recoveries, for one of them.\<close>

definition post_events :: "failover \<Rightarrow> Recovery \<Rightarrow> event list" where
  "post_events f recv =
     (if fo_recoveredCB f then [EvRecoveredCB recv] else [])
     @ EvRegistered recv
     # map (hook_event (if rv_IsSuccessful recv then HookPostSuccessfulFailover
                        else HookPostUnsuccessfulFailover) recv)
         (hooks_of (fo_hooker f) (if rv_IsSuccessful recv then HookPostSuccessfulFailover
                                  else HookPostUnsuccessfulFailover))"

lemma post_events_recoveries [simp]:
  "post_events (f\<lparr>fo_recoveries := rs\<rparr>) = post_events f"
  "post_events (f\<lparr>fo_sampler := s\<rparr>) = post_events f"
  by (simp_all add: post_events_def fun_eq_iff)

lemma finish_recoveries_result:
  "finish_recoveries env recs f w = (f', w') \<Longrightarrow>
     f' = f\<lparr>fo_recoveries := fo_recoveries f @ recs\<rparr> \<and>
     w_trace w' = w_trace w @ concat (map (post_events f) recs) \<and> w_active w' = w_active w"
proof (induction recs arbitrary: f w)
  case (Cons r recs)
  let ?w = "emit (EvRegistered r) (if fo_recoveredCB f then emit (EvRecoveredCB r) w else w)"
  let ?t = "if rv_IsSuccessful r then HookPostSuccessfulFailover else HookPostUnsuccessfulFailover"
  let ?f = "f\<lparr>fo_recoveries := fo_recoveries f @ [r]\<rparr>"
  obtain err w1 where e: "ExecuteProcesses env (fo_hooker f) ?t r False ?w = (err, w1)"
    by (cases "ExecuteProcesses env (fo_hooker f) ?t r False ?w")
  from Cons.prems e have l: "finish_recoveries env recs ?f w1 = (f', w')"
    by (simp add: registryRecovery_def Let_def)
  show ?case
    using Cons.IH[OF l] ExecuteProcesses_all[OF e] ExecuteProcesses_frame(2)[OF e]
    by (auto simp: post_events_def)
qed simp

lemma finish_recoveries_io: "finish_recoveries env recs f w = (f', w') \<Longrightarrow> w_io w \<le> w_io w'"
proof (induction recs arbitrary: f w)
  case (Cons r recs)
  let ?w = "emit (EvRegistered r) (if fo_recoveredCB f then emit (EvRecoveredCB r) w else w)"
  let ?t = "if rv_IsSuccessful r then HookPostSuccessfulFailover else HookPostUnsuccessfulFailover"
  let ?f = "f\<lparr>fo_recoveries := fo_recoveries f @ [r]\<rparr>"
  obtain err w1 where e: "ExecuteProcesses env (fo_hooker f) ?t r False ?w = (err, w1)"
    by (cases "ExecuteProcesses env (fo_hooker f) ?t r False ?w")
  from Cons.prems e have l: "finish_recoveries env recs ?f w1 = (f', w')"
    by (simp add: registryRecovery_def Let_def)
  have "w_io w \<le> w_io ?w" by simp
  then show ?case using Cons.IH[OF l] ExecuteProcesses_frame(1)[OF e] by (meson order_trans)
qed simp

section \<open>checkAndRecover\<close>

lemma checkAndRecover_cases:
  assumes "checkAndRecover srt sha env analysis f w = Some (f', w')"
  obtains (no_action) "fst (getCheckAndRecoveryFunc (an_State analysis)) = None"
      "f' = f\<lparr>fo_sampler := snd (sample sha analysis (fo_sampler f))\<rparr>" "w' = w"
  | (recovered) rf w0 recs w1 where "fst (getCheckAndRecoveryFunc (an_State analysis)) = Some rf"
      "w_trace w0 = w_trace w @ [EvStartRecovery]" "w_active w0" "w_io w0 = Suc (w_io w)"
      "run_recovery srt env (f\<lparr>fo_sampler := snd (sample sha analysis (fo_sampler f))\<rparr>) rf analysis w0
         = Some (recs, w1)"
      "f' = f\<lparr>fo_sampler := snd (sample sha analysis (fo_sampler f)), fo_recoveries := fo_recoveries f @ recs\<rparr>"
      "w_trace w' = w_trace w1 @ concat (map (post_events f) recs)
         @ (if recs = [] then [] else [EvDiscover]) @ [EvStopRecovery]"
      "\<not> w_active w'" "w_io w1 \<le> w_io w'"
proof (cases "fst (getCheckAndRecoveryFunc (an_State analysis))")
  case None
  with assms show ?thesis by (intro no_action) (auto simp: checkAndRecover_def Let_def)
next
  case (Some rf)
  let ?f = "f\<lparr>fo_sampler := snd (sample sha analysis (fo_sampler f))\<rparr>"
  let ?w0 = "(emit EvStartRecovery w)\<lparr>w_active := True\<rparr>"
  from assms Some obtain recs w1 where r: "run_recovery srt env ?f rf analysis ?w0 = Some (recs, w1)"
    by (auto simp: checkAndRecover_def Let_def split: option.splits)
  obtain f2 w2 where fin: "finish_recoveries env recs ?f w1 = (f2, w2)"
    by (cases "finish_recoveries env recs ?f w1")
  note fr = finish_recoveries_result[OF fin] finish_recoveries_io[OF fin]
  have "f' = f2" and "w' = (emit EvStopRecovery (if recs = [] then w2 else emit EvDiscover w2))\<lparr>w_active := False\<rparr>"
    using assms Some r fin by (auto simp: checkAndRecover_def Let_def split: if_splits)
  with Some r fr show ?thesis
    by (intro recovered[of rf ?w0 recs w1]) auto
qed

lemma run_recovery_events:
  assumes "run_recovery srt env f rf analysis w = Some (recs, w')"
  obtains es where "w_trace w' = w_trace w @ es" "w_active w' = w_active w"
    "\<forall>e \<in> set es. (\<exists>t c. e = EvHook t c \<or> e = EvHookAsync t c) \<or> (\<exists>u l ok. e = EvExec u l ok)"
proof (cases rf)
  case PromoteFollowerToMaster
  with assms have p: "promoteFollowerToMaster srt env f analysis w = Some (recs, w')"
    by (simp add: run_recovery_def)
  have pre: "\<forall>e \<in> set hooks. (\<exists>t c. e = EvHook t c \<or> e = EvHookAsync t c)" if "pre_hooks f r hooks" for r hooks
    using that by (auto simp: pre_hooks_def hook_event_def Let_def case_prod_beta split: if_splits)
  have ex: "\<forall>e \<in> set es. \<exists>u l ok. e = EvExec u l ok" if "promotion_execs srt env lua c n b es" for lua c n b es
  proof -
    have evs: "exec_events lua us es \<Longrightarrow> e \<in> set es \<Longrightarrow> \<exists>u l ok. e = EvExec u l ok" for lua us es e
      unfolding exec_events_def by (induction rule: list_all2_induct) auto
    from that evs show ?thesis by (cases rule: promotion_execs.cases) auto
  qed
  from p show ?thesis
  proof (cases rule: promote_result)
    case blocked
    then show ?thesis by (intro that[of "[]"]) auto
  next
    case (attempted n r hooks es)
    have "\<forall>e \<in> set hooks. \<exists>t c. e = EvHook t c \<or> e = EvHookAsync t c"
      using pre attempted(7) by blast
    moreover have "\<forall>e \<in> set es. \<exists>u l ok. e = EvExec u l ok"
      using attempted(8) by (elim disjE exE conjE) (simp, erule ex)
    ultimately show ?thesis
      using attempted(4,6) by (intro that[of "hooks @ es"]) (auto simp del: split_paired_Ex)
  qed
next
  case ApplyFollowerRoleToCoMasters
  with assms obtain lua m where
    "demote_loop env f analysis lua m (Followers (an_Set analysis)) [] w = (recs, w')"
    by (auto simp: run_recovery_def applyFollowerRoleToCoMasters_def Let_def)
  then obtain insts rs es where d: "demoted f lua insts rs es" "w_trace w' = w_trace w @ es"
    "w_active w' = w_active w"
    by (rule demote_loop_result)
  have "\<forall>e \<in> set es. (\<exists>t c. e = EvHook t c \<or> e = EvHookAsync t c) \<or> (\<exists>u l ok. e = EvExec u l ok)"
    using d(1)
    by (induction rule: demoted.induct)
      (fastforce simp: pre_hooks_def hook_event_def Let_def case_prod_beta split: if_splits)+
  with d show ?thesis by (intro that) auto
qed

lemma checkAndRecover_returns:
  assumes "fst (getCheckAndRecoveryFunc (an_State analysis)) = Some rf"
    and "run_recovery srt env (f\<lparr>fo_sampler := snd (sample sha analysis (fo_sampler f))\<rparr>) rf analysis
      ((emit EvStartRecovery w)\<lparr>w_active := True\<rparr>) = Some (recs, w1)"
  shows "\<exists>f' w'. checkAndRecover srt sha env analysis f w = Some (f', w') \<and>
    fo_recoveries f' = fo_recoveries f @ recs"
proof -
  let ?f = "f\<lparr>fo_sampler := snd (sample sha analysis (fo_sampler f))\<rparr>"
  obtain f2 w2 where fin: "finish_recoveries env recs ?f w1 = (f2, w2)"
    by (cases "finish_recoveries env recs ?f w1")
  from finish_recoveries_result[OF fin] have "fo_recoveries f2 = fo_recoveries f @ recs" by simp
  with assms fin show ?thesis by (simp add: checkAndRecover_def Let_def)
qed

section \<open>The registry and its cleanup\<close>

text \<open>
  A list from which entries have been removed that are expired from interaction \<open>n\<close> on.  The
  clock is read once for every entry of the key, so the shorter list is read at earlier times.
\<close>

inductive dropped :: "env \<Rightarrow> nat \<Rightarrow> Recovery list \<Rightarrow> Recovery list \<Rightarrow> bool" for env n where
  dropped_nil: "dropped env n [] []"
| dropped_keep: "dropped env n rs alive \<Longrightarrow> dropped env n (b # rs) (b # alive)"
| dropped_gone: "dropped env n rs alive \<Longrightarrow> (\<And>k. n \<le> k \<Longrightarrow> rv_Expiration b < env_now env k div Second) \<Longrightarrow>
    dropped env n (b # rs) alive"

definition clock_mono :: "env \<Rightarrow> bool" where
  "clock_mono env \<longleftrightarrow> mono (env_now env)"

lemma clock_seconds: "clock_mono env \<Longrightarrow> m \<le> n \<Longrightarrow> env_now env m div Second \<le> env_now env n div Second"
  by (simp add: clock_mono_def mono_def zdiv_mono1)

lemma hasBlockedRecovery_Cons:
  "hasBlockedRecovery env (b # rs) key w =
     (if ScopeKey b = key
      then if rv_Expiration b < env_now env (w_io w) div Second then hasBlockedRecovery env rs key (tick w)
           else (True, tick w)
      else hasBlockedRecovery env rs key w)"
  by (simp add: Expired_def Timestamp_def)

lemma hasBlockedRecovery_dropped:
  assumes "dropped env n rs alive" and "clock_mono env" and "n \<le> w_io v" and "w_io v \<le> w_io w"
    and "fst (hasBlockedRecovery env rs key w)"
  shows "fst (hasBlockedRecovery env alive key v)"
  using assms(1,3-5)
proof (induction arbitrary: v w rule: dropped.induct)
  case (dropped_keep rs alive b)
  have "env_now env (w_io v) div Second \<le> env_now env (w_io w) div Second"
    using clock_seconds[OF assms(2) dropped_keep.prems(2)] .
  moreover have "fst (hasBlockedRecovery env rs key (tick w)) \<Longrightarrow> fst (hasBlockedRecovery env alive key (tick v))"
    using dropped_keep.IH[of "tick v" "tick w"] dropped_keep.prems(1,2) by simp
  moreover have "fst (hasBlockedRecovery env rs key w) \<Longrightarrow> fst (hasBlockedRecovery env alive key v)"
    using dropped_keep.IH[of v w] dropped_keep.prems(1,2) by simp
  ultimately show ?case
    using dropped_keep.prems(3) unfolding hasBlockedRecovery_Cons by (auto split: if_splits)
next
  case (dropped_gone rs alive b)
  have "rv_Expiration b < env_now env (w_io w) div Second"
    using dropped_gone.hyps(2) dropped_gone.prems(1,2) by (meson order_trans)
  then have "fst (hasBlockedRecovery env rs key (tick w)) \<or> fst (hasBlockedRecovery env rs key w)"
    using dropped_gone.prems(3) unfolding hasBlockedRecovery_Cons by (auto split: if_splits)
  then show ?case
    using dropped_gone.IH[of v "tick w"] dropped_gone.IH[of v w] dropped_gone.prems(1,2) by auto
qed simp

lemma alive_recoveries_dropped:
  assumes "clock_mono env"
  shows "alive_recoveries env rs w = (alive, w') \<Longrightarrow> w_io w \<le> w_io w' \<and> dropped env (w_io w') rs alive"
proof (induction rs arbitrary: w alive)
  case (Cons b rs)
  obtain alive1 where r: "alive_recoveries env rs (tick w) = (alive1, w')"
    and a: "alive = (if rv_Expiration b < env_now env (w_io w) div Second then alive1 else b # alive1)"
    using Cons.prems by (auto simp: Expired_def Timestamp_def Let_def split: prod.splits)
  note IH = Cons.IH[OF r]
  show ?case
  proof (cases "rv_Expiration b < env_now env (w_io w) div Second")
    case True
    have "rv_Expiration b < env_now env k div Second" if "w_io w' \<le> k" for k
      using True IH that clock_seconds[OF assms, of "w_io w" k] by force
    with IH a True show ?thesis by (auto intro: dropped_gone)
  next
    case False
    with IH a show ?thesis by (auto intro: dropped_keep)
  qed
qed (auto intro: dropped_nil)

section \<open>The order of updates\<close>

text \<open>Away from differing check results and NaN, the order of updates is an order.\<close>

lemma strict_weak_failover_less:
  assumes "\<forall>x \<in> A. Idle x \<noteq> FNaN" and "\<forall>x \<in> A. inst_LastCheckValid x = v"
  shows "strict_weak A failover_less"
proof -
  let ?rank = "\<lambda>i. if HasAlert i AlertUnreachableMaster then 0 else (1::nat)"
  let ?L = "lex_then (\<lambda>x y. ?rank x < ?rank y) (\<lambda>x y. f64_less (Idle x) (Idle y))"
  have "strict_weak A failover_less = strict_weak A ?L"
    using assms(2) by (intro strict_weak_cong) (auto simp: failover_less_def lex_then_def)
  moreover have "strict_weak A ?L"
    using strict_weak_idle[OF assms(1)] by (rule strict_weak_lex[OF strict_weak_key])
  ultimately show ?thesis by simp
qed

section \<open>A concrete failover\<close>

text \<open>A set with a dead master \<open>m\<close> and one follower \<open>a\<close>, one router, no hooks.\<close>

definition sample_analysis :: "Instance list \<Rightarrow> ReplicationAnalysis" where
  "sample_analysis fs = \<lparr>an_Set = sample_set fs, an_CountReplicas = 1, an_CountWorkingReplicas = 1,
     an_CountReplicatingReplicas = 0, an_CountInconsistentVShardConf = 0, an_State = DeadMaster,
     an_DeadFollowers = [''a'']\<rparr>"

definition failover_cluster :: "Instance list \<Rightarrow> Cluster" where
  "failover_cluster fs = \<lparr>cl_Name = ''k'', cl_template = sample_template, cl_rules = Map.empty,
     cl_snapshot = \<lparr>sn_Created = 5, sn_Routers = [NewRouter ''r:1''], sn_ReplicaSets = [sample_set fs],
       sn_priorities = Map.empty\<rparr>,
     cl_readOnly = False, cl_hasActiveRecovery = False, cl_discoveredCB = False\<rparr>"

definition sample_env :: "Instance list \<Rightarrow> env" where
  "sample_env fs = \<lparr>env_now = (\<lambda>_. 100 * Second), env_environ = (\<lambda>_. []), env_run = (\<lambda>_ _ _ _. (0, None)),
     env_exec = (\<lambda>_ _ _ _. answer VNil), env_codes = \<lparr>tc_ErrNoConnection = 1, tc_ErrTimeout = 2\<rparr>,
     env_cluster = (\<lambda>_. failover_cluster fs)\<rparr>"

definition sample_failover :: "choose_fun \<Rightarrow> failover" where
  "sample_failover elect = NewDefaultFailover ''k'' \<lparr>fc_Hooker = NewBashHooker, fc_Elector = elect,
     fc_InstanceRecoveryBlockTime = 10 * Minute, fc_ReplicaSetRecoveryBlockTime = 30 * Minute\<rparr>"

definition world0 :: world where
  "world0 = \<lparr>w_io = 0, w_trace = [], w_active = False\<rparr>"

lemma sample_failover_simps [simp]:
  "fo_recoveries (sample_failover elect) = []" "fo_elector (sample_failover elect) = elect"
  "hooks_of (fo_hooker (sample_failover elect)) t = []"
  "fo_recvSetTTL (sample_failover elect) = 30 * Minute" "\<not> fo_recoveredCB (sample_failover elect)"
  by (simp_all add: sample_failover_def NewDefaultFailover_def NewBashHooker_def NewHooker_def hooks_of_def)

lemma sample_env_simps [simp]:
  "env_cluster (sample_env fs) n = failover_cluster fs" "env_now (sample_env fs) n = 100 * Second"
  by (simp_all add: sample_env_def)

lemma sample_clock: "clock_mono (sample_env fs)"
  by (simp add: clock_mono_def mono_def)

lemma sample_cluster_simps [simp]:
  "Cluster_Routers (failover_cluster fs) = [NewRouter ''r:1'']"
  "Cluster_Instances (failover_cluster fs) = zero_Instance\<lparr>inst_UUID := ''m''\<rparr> # fs"
  "ReadOnly (failover_cluster fs) = False"
  by (simp_all add: Cluster_Routers_def Cluster_Instances_def failover_cluster_def sample_set_def ReadOnly_def)

lemma sample_exec: "exec_query (sample_env fs) uri lua w = (True, emit (EvExec uri lua True) w)"
  by (simp add: exec_query_def sample_env_def response_answer)

lemma sample_elect:
  "smart_ChooseMaster insertion_sort no_limits (sample_set [sample_follower ''a'' 7]) = Some (Inr ''a'')"
  by (simp add: smart_ChooseMaster_def sample_candidates sample_Master insertion_sort_def)

lemma sample_Instance:
  "Cluster_Instance (failover_cluster [sample_follower ''a'' 7]) ''a'' = Inr (sample_follower ''a'' 7)"
  by (simp add: Cluster_Instance_def failover_cluster_def sample_set_def)

lemma sample_promotes: "shouldPromoteFollower (sample_follower ''a'' 7) = Some True"
  by (simp add: shouldPromoteFollower_def)

text \<open>The promotion of \<open>a\<close> succeeds.\<close>

lemma sample_promotion:
  "\<exists>r w'. promoteFollowerToMaster insertion_sort (sample_env [sample_follower ''a'' 7])
      (sample_failover (smart_ChooseMaster insertion_sort no_limits)) (sample_analysis [sample_follower ''a'' 7]) w
    = Some ([r], w') \<and> rv_IsSuccessful r \<and> rv_SetUUID r = ''s'' \<and> rv_Scope r = RecoveryScopeSet"
proof -
  have set: "an_Set (sample_analysis [sample_follower ''a'' 7]) = sample_set [sample_follower ''a'' 7]"
    by (simp add: sample_analysis_def)
  show ?thesis
    unfolding promote_unfold set
    by (simp add: ExecuteProcesses_def sample_elect promote_elected_def Let_def sample_Instance sample_promotes
        sample_exec return_recovery_result set) (simp add: sample_set_def)
qed

section \<open>The queries of a trace\<close>

fun queries :: "event list \<Rightarrow> (string \<times> string \<times> bool) list" where
  "queries [] = []"
| "queries (EvExec uri lua ok # es) = (uri, lua, ok) # queries es"
| "queries (_ # es) = queries es"

lemma queries_append [simp]: "queries (es @ fs) = queries es @ queries fs"
  by (induction es rule: queries.induct) auto

lemma queries_hooks [simp]: "queries (map (hook_event t r) ps) = []"
  by (induction ps) (auto simp: hook_event_def Let_def case_prod_beta)

lemma queries_pre_hooks: "pre_hooks f r es \<Longrightarrow> queries es = []"
  by (auto simp: pre_hooks_def)

lemma queries_exec_events: "exec_events lua us es \<Longrightarrow> map fst (queries es) = us"
  unfolding exec_events_def by (induction rule: list_all2_induct) auto

lemma demoted_queries:
  "demoted f lua insts rs es \<Longrightarrow>
     list_all2 (\<lambda>i r. rv_Failed r = Ident i \<and> rv_Scope r = RecoveryScopeInstance) insts rs \<and>
     (\<exists>sent. subseq sent (zip insts rs) \<and>
        queries es = map (\<lambda>(i, r). (inst_URI i, lua, rv_IsSuccessful r)) sent \<and>
        filter (\<lambda>(i, r). rv_IsSuccessful r) sent = filter (\<lambda>(i, r). rv_IsSuccessful r) (zip insts rs))"
proof (induction rule: demoted.induct)
  case (demoted_cons r inst r0 hooks es insts rs rest)
  then obtain sent where s: "subseq sent (zip insts rs)"
    "queries rest = map (\<lambda>(i, r). (inst_URI i, lua, rv_IsSuccessful r)) sent"
    "filter (\<lambda>(i, r). rv_IsSuccessful r) sent = filter (\<lambda>(i, r). rv_IsSuccessful r) (zip insts rs)"
    by blast
  from demoted_cons.hyps(4) show ?case
  proof
    assume "es = [] \<and> \<not> rv_IsSuccessful r"
    with s demoted_cons.hyps(1,2) demoted_cons.IH queries_pre_hooks[OF demoted_cons.hyps(3)]
    show ?thesis by (auto intro!: exI[of _ sent])
  next
    assume "es = [EvExec (inst_URI inst) lua (rv_IsSuccessful r)]"
    with s demoted_cons.hyps(1,2) demoted_cons.IH queries_pre_hooks[OF demoted_cons.hyps(3)]
    show ?thesis by (auto intro!: exI[of _ "(inst, r) # sent"])
  qed
qed simp

section \<open>The loop of the failover\<close>

lemma serve_one_inactive:
  assumes "serve_one srt sha env input f w = Some (f', w')" and "\<not> w_active w"
  shows "\<not> w_active w'"
proof (cases input)
  case CleanupTick
  have "w_active v' = w_active v" if "alive_recoveries env rs v = (al, v')" for rs v al v'
    using that
    by (induction env rs v arbitrary: al v' rule: alive_recoveries.induct)
      (fastforce simp: Expired_def Timestamp_def Let_def split: prod.splits if_splits)+
  with CleanupTick assms show ?thesis
    by (auto simp: serve_one_def cleanup_def split: prod.splits if_splits)
next
  case (AnalysisReceived a)
  show ?thesis
  proof (cases "shouldBeAnalysisChecked env w")
    case True
    with AnalysisReceived assms have "checkAndRecover srt sha env a f (tick w) = Some (f', w')"
      by (simp add: serve_one_def)
    then show ?thesis by (cases rule: checkAndRecover_cases) (use assms in auto)
  qed (use AnalysisReceived assms in \<open>auto simp: serve_one_def\<close>)
qed

lemma serve_inactive:
  "serve srt sha env inputs f w = Some (f', w') \<Longrightarrow> \<not> w_active w \<Longrightarrow> \<not> w_active w'"
proof (induction inputs arbitrary: f w)
  case (Cons input inputs)
  then obtain f1 w1 where "serve_one srt sha env input f w = Some (f1, w1)"
    "serve srt sha env inputs f1 w1 = Some (f', w')"
    by (auto simp: bind_eq_Some_conv)
  with Cons.IH Cons.prems(2) serve_one_inactive show ?case by blast
qed simp

lemma serve_one_readonly:
  assumes "\<And>n. ReadOnly (env_cluster env n)"
  shows "\<exists>f' w'. serve_one srt sha env input f w = Some (f', w') \<and> w_trace w' = w_trace w"
proof (cases input)
  case CleanupTick
  obtain al v where c: "alive_recoveries env (fo_recoveries f) w = (al, v)"
    by (cases "alive_recoveries env (fo_recoveries f) w")
  with CleanupTick alive_recoveries_subset[OF c] show ?thesis by (auto simp: serve_one_def cleanup_def)
qed (use assms in \<open>simp add: serve_one_def shouldBeAnalysisChecked_def\<close>)

lemma promotion_steps:
  assumes "promoteFollowerToMaster srt env f analysis w = Some (recs, w')"
    and "r \<in> set recs" and "rv_IsSuccessful r"
  obtains c n n1 n2 inst hooks es where "fo_elector f (an_Set analysis) = Some (Inr c)"
    "w_io w \<le> n" "n < n1" "n1 < n2" "Cluster_Instance (env_cluster env n) c = Inr inst" "queries hooks = []"
    "w_trace w' = w_trace w @ hooks @ EvExec (inst_URI inst) (generateRecoveryLua (set_UUID (an_Set analysis)) c) True # es"
    "exec_events (generateRecoveryLua (set_UUID (an_Set analysis)) c)
      (map rt_URI (Cluster_Routers (env_cluster env n1))
       @ map inst_URI (filter (\<lambda>i. inst_UUID i \<noteq> c)
           (sort_by srt failover_less (Cluster_Instances (env_cluster env n2))))) es"
  using assms(1)
proof (cases rule: promote_result)
  case blocked
  with assms(2) show ?thesis by simp
next
  case (attempted n r' hooks es)
  then obtain c n' where c: "fo_elector f (an_Set analysis) = Some (Inr c)" "n \<le> n'"
    and p: "promotion_execs srt env (generateRecoveryLua (set_UUID (an_Set analysis)) c) c n' True es"
    using assms(2,3) by auto
  from p obtain inst n1 n2 es' where "n' < n1" "n1 < n2" "es = EvExec (inst_URI inst) (generateRecoveryLua (set_UUID (an_Set analysis)) c) True # es'"
    "Cluster_Instance (env_cluster env n') c = Inr inst"
    "exec_events (generateRecoveryLua (set_UUID (an_Set analysis)) c)
      (map rt_URI (Cluster_Routers (env_cluster env n1))
       @ map inst_URI (filter (\<lambda>i. inst_UUID i \<noteq> c)
           (sort_by srt failover_less (Cluster_Instances (env_cluster env n2))))) es'"
    by (auto elim!: promotion_execs_trueE)
  with c attempted(2,6) queries_pre_hooks[OF attempted(7)] show ?thesis by (intro that[of c n' n1 n2 inst hooks es']) simp_all
qed

section \<open>Properties\<close>









text \<open>The order in which instances are updated is not an order: of a reachable instance and an
  unreachable one that last reported an unreachable master, each comes before the other.\<close>

theorem failover_less_not_asymmetric:
  "\<exists>l r. inst_LastCheckValid l \<and> \<not> inst_LastCheckValid r \<and> failover_less l r \<and> failover_less r l"
proof -
  let ?l = "zero_Instance\<lparr>inst_LastCheckValid := True\<rparr>"
  let ?r = "zero_Instance\<lparr>inst_StorageInfo := zero_StorageInfo
    \<lparr>si_Alerts := [\<lparr>alert_Type = AlertUnreachableMaster, alert_Description = ''''\<rparr>]\<rparr>\<rparr>"
  have "failover_less ?l ?r \<and> failover_less ?r ?l"
    by (simp add: failover_less_def HasAlert_def zero_Instance_def zero_StorageInfo_def)
  then show ?thesis by (intro exI[of _ ?l] exI[of _ ?r]) (simp add: zero_Instance_def)
qed

text \<open>When the last checks of all instances agree and their idle times are numeric, they are
  updated in a proper order: first those that cannot reach the master, then by idle time.\<close>

theorem update_order:
  assumes "sort_contract srt" and "\<forall>x \<in> set insts. Idle x \<noteq> FNaN"
    and "\<forall>x \<in> set insts. inst_LastCheckValid x = v"
  shows "mset (sort_by srt failover_less insts) = mset insts \<and>
     sorted_wrt (\<lambda>x y. \<not> (HasAlert y AlertUnreachableMaster \<and> \<not> HasAlert x AlertUnreachableMaster) \<and>
         (HasAlert x AlertUnreachableMaster \<noteq> HasAlert y AlertUnreachableMaster \<or> \<not> f64_less (Idle y) (Idle x)))
       (sort_by srt failover_less insts)"
proof -
  have perm: "mset (sort_by srt failover_less insts) = mset insts"
    using assms(1) by (rule sort_contract.sort_by_perm)
  have "sorted_wrt (\<lambda>x y. \<not> failover_less y x) (sort_by srt failover_less insts)"
    using sort_contract.sort_by_sorted[OF assms(1) strict_weak_failover_less[OF assms(2,3)]] .
  moreover have "inst_LastCheckValid x = v" if "x \<in> set (sort_by srt failover_less insts)" for x
    using that assms(3) mset_eq_setD[OF perm] by simp
  ultimately have "sorted_wrt (\<lambda>x y. \<not> (HasAlert y AlertUnreachableMaster \<and> \<not> HasAlert x AlertUnreachableMaster) \<and>
         (HasAlert x AlertUnreachableMaster \<noteq> HasAlert y AlertUnreachableMaster \<or> \<not> f64_less (Idle y) (Idle x)))
       (sort_by srt failover_less insts)"
    by (elim sorted_wrt_mono_rel[rotated]) (auto simp: failover_less_def split: if_splits)
  with perm show ?thesis by simp
qed

theorem update_order_witness:
  "mset (sort_by insertion_sort failover_less [sample_follower ''a'' 1, sample_follower ''b'' 2])
     = mset [sample_follower ''a'' 1, sample_follower ''b'' 2]"
  by (rule update_order[where v = True, OF insertion_sort_contract, THEN conjunct1]) simp_all

text \<open>A clean-up of the registry only removes entries, and with a clock that does not go back
  it removes none that could still block: what is blocked at a later time is blocked by what
  the clean-up kept.\<close>

theorem cleanup_keeps_blocking:
  assumes "clock_mono env" and "cleanup env False recoveries w = (alive, w')" and "w_io w' \<le> w_io v"
    and "fst (hasBlockedRecovery env recoveries key v)"
  shows "fst (hasBlockedRecovery env alive key v) \<and> set alive \<subseteq> set recoveries"
proof -
  from assms(2,4) have a: "alive_recoveries env recoveries w = (alive, w')"
    by (cases recoveries) (simp_all add: cleanup_def)
  from alive_recoveries_dropped[OF assms(1) a] alive_recoveries_subset[OF a]
    hasBlockedRecovery_dropped[OF _ assms(1) assms(3) order_refl assms(4)]
  show ?thesis by blast
qed

theorem cleanup_keeps_blocking_witness:
  "\<exists>alive w'. cleanup (sample_env []) False
      [started (sample_env []) RecoveryScopeSet zero_InstanceIdent (sample_analysis []) Minute ''k'' 0] world0
      = (alive, w') \<and> fst (hasBlockedRecovery (sample_env []) alive ''s'' w')"
proof -
  let ?rs = "[started (sample_env []) RecoveryScopeSet zero_InstanceIdent (sample_analysis []) Minute ''k'' 0]"
  obtain alive w' where c: "cleanup (sample_env []) False ?rs world0 = (alive, w')"
    by (cases "cleanup (sample_env []) False ?rs world0")
  have "fst (hasBlockedRecovery (sample_env []) ?rs ''s'' w')"
    by (simp add: ScopeKey_def started_def sample_analysis_def sample_set_def Expired_def Timestamp_def)
  with cleanup_keeps_blocking[OF sample_clock c order_refl] c show ?thesis by blast
qed

text \<open>On a read-only cluster the failover never panics and has no effect, whatever analyses it
  is sent and however often it cleans up.\<close>

theorem serve_readonly:
  assumes "\<And>n. ReadOnly (env_cluster env n)"
  shows "\<exists>f' w'. serve srt sha env inputs f w = Some (f', w') \<and> w_trace w' = w_trace w"
proof (induction inputs arbitrary: f w)
  case (Cons input inputs)
  obtain f1 w1 where "serve_one srt sha env input f w = Some (f1, w1)" "w_trace w1 = w_trace w"
    using serve_one_readonly[OF assms] by blast
  with Cons[of f1 w1] show ?case by simp
qed simp

theorem serve_readonly_witness:
  "\<exists>f' w'. serve insertion_sort id ((sample_env [])\<lparr>env_cluster := \<lambda>_. (failover_cluster [])\<lparr>cl_readOnly := True\<rparr>\<rparr>)
      [CleanupTick, AnalysisReceived (sample_analysis [])] (sample_failover (idle_ChooseMaster no_limits)) world0
    = Some (f', w') \<and> w_trace w' = []"
  using serve_readonly[of "(sample_env [])\<lparr>env_cluster := \<lambda>_. (failover_cluster [])\<lparr>cl_readOnly := True\<rparr>\<rparr>"
      insertion_sort id "[CleanupTick, AnalysisReceived (sample_analysis [])]"
      "sample_failover (idle_ChooseMaster no_limits)" world0]
  by (simp add: ReadOnly_def world0_def)

text \<open>Whenever the failover is between two inputs the recovery flag of the cluster is down, so
  an analysis is only ever skipped because the cluster is read-only.\<close>

theorem serve_flag_down:
  assumes "serve srt sha env inputs f w = Some (f', w')" and "\<not> w_active w"
  shows "\<not> w_active w' \<and> shouldBeAnalysisChecked env w' = (\<not> ReadOnly (env_cluster env (w_io w')))"
  using serve_inactive[OF assms] by (simp add: shouldBeAnalysisChecked_def)

theorem serve_flag_down_witness:
  "\<exists>f' w'. serve insertion_sort id (sample_env []) [CleanupTick]
      (sample_failover (idle_ChooseMaster no_limits)) world0 = Some (f', w') \<and>
     shouldBeAnalysisChecked (sample_env []) w'"
proof -
  let ?f = "sample_failover (idle_ChooseMaster no_limits)"
  have "serve insertion_sort id (sample_env []) [CleanupTick] ?f world0 = Some (?f\<lparr>fo_recoveries := []\<rparr>, world0)"
    by (simp add: serve_one_def cleanup_def)
  from serve_flag_down[OF this] this show ?thesis by (simp add: world0_def)
qed

end
