(* ===== verification/Orch_Monitor.thy ===== *)
theory Orch_Monitor
  imports Orch_Analysis Vshard_Cluster
begin

text \<open>
  internal/vshard/orchestrator/monitor.go and config.go: when the monitor of a cluster discovers
  and when it analyses what was discovered.

  The goroutine of \<open>Serve\<close> is a function of what its \<open>select\<close> delivers.  Its effects are the
  goroutines it starts, \<open>GoDiscover\<close> and \<open>GoAnalyse\<close>; the latter sends what \<open>analyze\<close> returns.
  The two reads of the cluster in \<open>checkCluster\<close> take the lock separately, so a tick carries a
  cluster for each.  \<open>time.NewTicker\<close> panics (\<open>None\<close>) on a period that is not positive.
\<close>

section \<open>The monitor\<close>

record OrchestratorConfig =
  oc_RecoveryPollTime :: duration
  oc_DiscoveryPollTime :: duration

record storageMonitor =
  mon_config :: OrchestratorConfig
  mon_analyzed :: int

definition NewMonitor :: "OrchestratorConfig \<Rightarrow> storageMonitor" where
  "NewMonitor cfg = \<lparr>mon_config = cfg, mon_analyzed = 0\<rparr>"

datatype mon_effect = GoDiscover | GoAnalyse ReplicaSet

definition checkCluster :: "Cluster \<Rightarrow> Cluster \<Rightarrow> storageMonitor \<Rightarrow> mon_effect list \<times> storageMonitor" where
  "checkCluster c1 c2 m =
     (let discovered = LastDiscovered c1
      in if discovered \<le> mon_analyzed m then ([], m)
         else (map GoAnalyse (Cluster_ReplicaSets c2), m\<lparr>mon_analyzed := discovered\<rparr>))"

text \<open>
  The goroutine of one replica set: what it sends on the stream, and then the gauge of each state.
\<close>

definition analyse_set :: "ReplicaSet \<Rightarrow> (ReplicationAnalysis \<times> (ReplicaSetState \<times> bool) list) option" where
  "analyse_set rs =
     (case analyze rs of
        None \<Rightarrow> None
      | Some analysis \<Rightarrow>
          Some (analysis, map (\<lambda>state. (state, state = an_State analysis)) ReplicaSetStateEnum))"

datatype mon_input = StopReceived | DiscoveryTick | RecoveryTick int Cluster Cluster

definition NewTicker :: "duration \<Rightarrow> unit option" where
  "NewTicker d = (if d \<le> 0 then None else Some ())"

definition checkAndRecoverWaitPeriod :: "storageMonitor \<Rightarrow> duration" where
  "checkAndRecoverWaitPeriod m = 3 * oc_DiscoveryPollTime (mon_config m)"

definition time_ripe :: "int \<Rightarrow> storageMonitor \<Rightarrow> int \<Rightarrow> bool" where
  "time_ripe start m now \<longleftrightarrow> now - start \<ge> checkAndRecoverWaitPeriod m"

definition monitor_one :: "int \<Rightarrow> mon_input \<Rightarrow> storageMonitor \<Rightarrow> mon_effect list \<times> storageMonitor" where
  "monitor_one start input m =
     (case input of
        StopReceived \<Rightarrow> ([], m)
      | DiscoveryTick \<Rightarrow> ([GoDiscover], m)
      | RecoveryTick now c1 c2 \<Rightarrow> (if time_ripe start m now then checkCluster c1 c2 m else ([], m)))"

text \<open>The loop returns on a stop; the effects are listed per input.\<close>

fun monitor_loop :: "int \<Rightarrow> mon_input list \<Rightarrow> storageMonitor \<Rightarrow> mon_effect list list \<times> storageMonitor" where
  "monitor_loop start [] m = ([], m)"
| "monitor_loop start (input # inputs) m =
     (if input = StopReceived then ([], m)
      else let (es, m) = monitor_one start input m; (ess, m) = monitor_loop start inputs m
           in (es # ess, m))"

definition continuousDiscovery ::
  "int \<Rightarrow> mon_input list \<Rightarrow> storageMonitor \<Rightarrow> (mon_effect list list \<times> storageMonitor) option" where
  "continuousDiscovery start inputs m =
     do { NewTicker (oc_RecoveryPollTime (mon_config m));
          NewTicker (oc_DiscoveryPollTime (mon_config m));
          Some (monitor_loop start inputs m) }"

section \<open>Lemmas\<close>

lemma continuousDiscovery_None_iff:
  "continuousDiscovery start inputs m = None \<longleftrightarrow>
     oc_RecoveryPollTime (mon_config m) \<le> 0 \<or> oc_DiscoveryPollTime (mon_config m) \<le> 0"
  by (auto simp: continuousDiscovery_def NewTicker_def)

lemma monitor_one_frame:
  assumes "monitor_one start input m = (es, m')"
  shows "mon_config m' = mon_config m" "mon_analyzed m \<le> mon_analyzed m'"
  using assms by (auto simp: monitor_one_def checkCluster_def Let_def split: mon_input.splits if_splits)

text \<open>When an input starts analyses, and of what.\<close>

lemma GoAnalyse_monitor_one:
  assumes "monitor_one start input m = (es, m')" and "GoAnalyse rs \<in> set es"
  obtains now c1 c2 where "input = RecoveryTick now c1 c2" "time_ripe start m now"
    "mon_analyzed m < LastDiscovered c1" "mon_analyzed m' = LastDiscovered c1"
    "rs \<in> set (Cluster_ReplicaSets c2)"
  using assms by (auto simp: monitor_one_def checkCluster_def Let_def split: mon_input.splits if_splits)

text \<open>The monitor an input meets, and what the analyses started before tell about it.\<close>

lemma monitor_loop_nth:
  "monitor_loop start inputs m = (ess, m') \<Longrightarrow> i < length ess \<Longrightarrow>
   \<exists>mi mi'. monitor_one start (inputs ! i) mi = (ess ! i, mi') \<and> mon_config mi = mon_config m \<and>
     mon_analyzed m \<le> mon_analyzed mi \<and>
     (\<forall>j < i. \<forall>now c1 c2 rs. inputs ! j = RecoveryTick now c1 c2 \<and> GoAnalyse rs \<in> set (ess ! j) \<longrightarrow>
        LastDiscovered c1 \<le> mon_analyzed mi)"
proof (induction inputs arbitrary: m ess i)
  case (Cons input inputs)
  obtain es m1 where o: "monitor_one start input m = (es, m1)" by (cases "monitor_one start input m")
  obtain ess1 m2 where l: "monitor_loop start inputs m1 = (ess1, m2)" by (cases "monitor_loop start inputs m1")
  from Cons.prems o l have e: "ess = es # ess1" "m2 = m'" by (auto split: if_splits)
  note fr = monitor_one_frame[OF o]
  show ?case
  proof (cases i)
    case 0
    with o e show ?thesis by (intro exI[of _ m] exI[of _ m1]) simp
  next
    case (Suc k)
    with Cons.prems(2) e have "k < length ess1" by simp
    from Cons.IH[OF l[unfolded e(2)] this] show ?thesis
    proof (elim exE conjE)
      fix mi mi'
      assume IH: "monitor_one start (inputs ! k) mi = (ess1 ! k, mi')"
        "mon_config mi = mon_config m1" "mon_analyzed m1 \<le> mon_analyzed mi"
        "\<forall>j < k. \<forall>now c1 c2 rs. inputs ! j = RecoveryTick now c1 c2 \<and> GoAnalyse rs \<in> set (ess1 ! j) \<longrightarrow>
           LastDiscovered c1 \<le> mon_analyzed mi"
      have first: "LastDiscovered c1 \<le> mon_analyzed mi"
        if "input = RecoveryTick now c1 c2" "GoAnalyse rs \<in> set es" for now c1 c2 rs
        by (rule GoAnalyse_monitor_one[OF o that(2)]) (use that(1) IH(3) in simp)
      have "LastDiscovered c1 \<le> mon_analyzed mi"
        if "j < i" "(input # inputs) ! j = RecoveryTick now c1 c2" "GoAnalyse rs \<in> set (ess ! j)" for j now c1 c2 rs
      proof (cases j)
        case 0
        with that first e(1) show ?thesis by simp
      next
        case j: (Suc j')
        with that(1) Suc have "j' < k" by simp
        with IH(4) that(2,3) e(1) j show ?thesis by (metis nth_Cons_Suc)
      qed
      then have all: "\<forall>j < i. \<forall>now c1 c2 rs. (input # inputs) ! j = RecoveryTick now c1 c2 \<and>
          GoAnalyse rs \<in> set (ess ! j) \<longrightarrow> LastDiscovered c1 \<le> mon_analyzed mi" by blast
      show ?thesis
      proof (intro exI conjI)
        show "monitor_one start ((input # inputs) ! i) mi = (ess ! i, mi')" using IH(1) e(1) Suc by simp
        show "mon_config mi = mon_config m" using IH(2) fr(1) by simp
        show "mon_analyzed m \<le> mon_analyzed mi" using IH(3) fr(2) by simp
      qed (rule all)
    qed
  qed
qed simp

section \<open>Properties\<close>

definition sample_analysed :: Cluster where
  "sample_analysed = \<lparr>cl_Name = ''k'', cl_template = sample_template, cl_rules = Map.empty,
     cl_snapshot = \<lparr>sn_Created = 7, sn_Routers = [], sn_ReplicaSets = [sample_discovered],
       sn_priorities = Map.empty\<rparr>,
     cl_readOnly = False, cl_hasActiveRecovery = False, cl_discoveredCB = False\<rparr>"




text \<open>The monitor panics as soon as it starts exactly when one of its two periods is not
  positive.\<close>

theorem monitor_panics_iff:
  "continuousDiscovery start inputs (NewMonitor cfg) = None \<longleftrightarrow>
     oc_RecoveryPollTime cfg \<le> 0 \<or> oc_DiscoveryPollTime cfg \<le> 0"
  by (simp add: continuousDiscovery_None_iff NewMonitor_def)

end
