(* ===== verification/Qumomf_Coordinator.thy ===== *)
theory Qumomf_Coordinator
  imports Orch_Failover Orch_Monitor "HOL-Library.Signed_Division"
begin

text \<open>
  internal/coordinator/coordinator.go and the registration loop of cmd/qumomf/main.go: how the
  parts of a cluster are built from the configuration, and in which order they are shut down.

  \<open>RegisterCluster\<close> hands back the monitor and the failover whose goroutines it starts; \<open>None\<close>
  is a panic (an option that is nil, an unknown elector mode).  A shutdown task is named by what
  it stops.  The logger and the storage handle are left out.
\<close>

section \<open>time.Duration.Seconds\<close>

text \<open>
  \<open>float64(sec) + float64(nsec)/1e9\<close>.  The quotient of integers is cut to an integral number of
  units \<open>2 powr (-1074)\<close>, made odd when the cut lost something, and rounded: for an absolute value
  of at least \<open>10 powr (-9)\<close> the cut is far below the rounding position.
\<close>

definition f64_quot :: "int \<Rightarrow> int \<Rightarrow> float64" where
  "f64_quot a b =
     (let q = (\<bar>a\<bar> * 2 ^ 1074) div b; r = (\<bar>a\<bar> * 2 ^ 1074) mod b;
          q = (if r \<noteq> 0 \<and> even q then q + 1 else q)
      in f64_round (if a < 0 then - q else q))"

fun f64_add :: "float64 \<Rightarrow> float64 \<Rightarrow> float64" where
  "f64_add (FFin a) (FFin b) = f64_round (a + b)"
| "f64_add (FFin _) (FInf n) = FInf n"
| "f64_add (FInf n) (FFin _) = FInf n"
| "f64_add (FInf m) (FInf n) = (if m = n then FInf m else FNaN)"
| "f64_add _ _ = FNaN"

definition Seconds :: "duration \<Rightarrow> float64" where
  "Seconds d = f64_add (f64_of_int (d sdiv Second)) (f64_quot (d smod Second) 1000000000)"

lemma sdiv_smod_multiple:
  fixes n k :: int
  assumes "0 < k"
  shows "(n * k) sdiv k = n" and "(n * k) smod k = 0"
  using assms by (simp_all add: signed_divide_int_def signed_modulo_int_def abs_mult sgn_mult
      mult_sgn_abs)

text \<open>A whole number of seconds is that number.\<close>

lemma Seconds_whole: "\<bar>n\<bar> < 2 ^ 53 \<Longrightarrow> Seconds (n * Second) = FFin (n * 2 ^ 1074)"
proof -
  assume n: "\<bar>n\<bar> < 2 ^ 53"
  have "f64_round (n * 2 ^ 1074) = FFin (n * 2 ^ 1074)" by (rule f64_round_exact[OF n]) simp
  then show ?thesis
    unfolding Seconds_def using sdiv_smod_multiple[of Second n]
    by (simp add: f64_of_int_def f64_quot_def)
qed

section \<open>The coordinator\<close>

datatype shutdown_task = ShutdownCluster string | ShutdownMonitor string | ShutdownFailover string

record Coordinator =
  co_clusters :: "string \<rightharpoonup> Cluster"
  co_shutdownQueue :: "shutdown_task list"

datatype coordinator_error = ErrClusterAlreadyExist

definition coordinator_New :: Coordinator where
  "coordinator_New = \<lparr>co_clusters = Map.empty, co_shutdownQueue = []\<rparr>"

definition addShutdownTask :: "shutdown_task \<Rightarrow> Coordinator \<Rightarrow> Coordinator" where
  "addShutdownTask task c = c\<lparr>co_shutdownQueue := co_shutdownQueue c @ [task]\<rparr>"

definition initHooker :: "Config \<Rightarrow> Hooker" where
  "initHooker cfg =
     (let hooksCfg = q_Hooks (c_Qumomf cfg);
          hooker = NewHooker (hk_Shell hooksCfg);
          hooker = SetTimeout (hk_Timeout hooksCfg) hooker;
          hooker = SetTimeoutAsync (hk_TimeoutAsync hooksCfg) hooker;
          hooker = AddHook HookPreFailover (hk_PreFailover hooksCfg) hooker;
          hooker = AddHook HookPostSuccessfulFailover (hk_PostSuccessfulFailover hooksCfg) hooker;
          hooker = AddHook HookPostUnsuccessfulFailover (hk_PostUnsuccessfulFailover hooksCfg) hooker
      in hooker)"

definition RegisterCluster :: "Instance sorter \<Rightarrow> int \<Rightarrow> string \<Rightarrow> ClusterConfig \<Rightarrow> Config \<Rightarrow> Coordinator
    \<Rightarrow> ((coordinator_error, storageMonitor \<times> failover) go_result \<times> Coordinator) option" where
  "RegisterCluster srt now name cfg globalCfg c =
     (if co_clusters c name \<noteq> None then Some (Inl ErrClusterAlreadyExist, c)
      else case NewCluster now name cfg of
        None \<Rightarrow> None
      | Some cluster \<Rightarrow>
          let cluster = SetOnClusterDiscovered cluster;
              c = c\<lparr>co_clusters := (co_clusters c)(name \<mapsto> cluster)\<rparr>;
              c = addShutdownTask (ShutdownCluster name) c;
              base = c_Qumomf globalCfg;
              mon = NewMonitor \<lparr>oc_RecoveryPollTime = q_ClusterRecoveryTime base,
                                oc_DiscoveryPollTime = q_ClusterDiscoveryTime base\<rparr>;
              c = addShutdownTask (ShutdownMonitor name) c;
              hooker = initHooker globalCfg
          in case cfg_ElectionMode cfg of
               None \<Rightarrow> None
             | Some mode \<Rightarrow>
                 (case elector_New srt mode
                         \<lparr>ReasonableFollowerLSNLag = q_ReasonableFollowerLSNLag base,
                          ReasonableFollowerIdle = Seconds (q_ReasonableFollowerIdle base)\<rparr> of
                    None \<Rightarrow> None
                  | Some elector \<Rightarrow>
                      let f = NewDefaultFailover (cl_Name cluster)
                                \<lparr>fc_Hooker = hooker, fc_Elector = elector,
                                 fc_InstanceRecoveryBlockTime = q_InstanceRecoveryBlockTime base,
                                 fc_ReplicaSetRecoveryBlockTime = q_ShardRecoveryBlockTime base\<rparr>;
                          f = SetOnClusterRecovered f;
                          c = addShutdownTask (ShutdownFailover name) c
                      in Some (Inr (mon, f), c)))"

text \<open>The tasks in the order they are run.\<close>

definition Shutdown :: "Coordinator \<Rightarrow> shutdown_task list" where
  "Shutdown c = rev (co_shutdownQueue c)"

text \<open>The loop of \<open>main\<close>, over the clusters in the order the map yields them; \<open>clock\<close> gives the
  time of each registration.  A registration that returns an error is logged and skipped.\<close>

fun register_clusters :: "Instance sorter \<Rightarrow> (nat \<Rightarrow> int) \<Rightarrow> (string \<times> ClusterConfig) list \<Rightarrow> Config \<Rightarrow> Coordinator
    \<Rightarrow> ((string \<times> storageMonitor \<times> failover) list \<times> Coordinator) option" where
  "register_clusters srt clock [] cfg c = Some ([], c)"
| "register_clusters srt clock ((clusterName, clusterCfg) # clusters) cfg c =
     (case RegisterCluster srt (clock 0) clusterName clusterCfg cfg c of
        None \<Rightarrow> None
      | Some (Inl _, c) \<Rightarrow> register_clusters srt (clock \<circ> Suc) clusters cfg c
      | Some (Inr parts, c) \<Rightarrow>
          map_option (\<lambda>(rest, c). ((clusterName, parts) # rest, c))
            (register_clusters srt (clock \<circ> Suc) clusters cfg c))"

section \<open>Lemmas\<close>

lemma initHooker_hooks:
  "hooks_of (initHooker cfg) HookPreFailover = hk_PreFailover (q_Hooks (c_Qumomf cfg))"
  "hooks_of (initHooker cfg) HookPostSuccessfulFailover = hk_PostSuccessfulFailover (q_Hooks (c_Qumomf cfg))"
  "hooks_of (initHooker cfg) HookPostUnsuccessfulFailover = hk_PostUnsuccessfulFailover (q_Hooks (c_Qumomf cfg))"
  "hr_shell (initHooker cfg) = hk_Shell (q_Hooks (c_Qumomf cfg))"
  by (simp_all add: initHooker_def Let_def hooks_of_def AddHook_def NewHooker_def SetTimeout_def SetTimeoutAsync_def)

text \<open>What a registration builds.\<close>

definition built_monitor :: "Config \<Rightarrow> storageMonitor" where
  "built_monitor cfg = NewMonitor \<lparr>oc_RecoveryPollTime = q_ClusterRecoveryTime (c_Qumomf cfg),
     oc_DiscoveryPollTime = q_ClusterDiscoveryTime (c_Qumomf cfg)\<rparr>"

definition elector_options :: "Config \<Rightarrow> Options" where
  "elector_options cfg = \<lparr>ReasonableFollowerLSNLag = q_ReasonableFollowerLSNLag (c_Qumomf cfg),
     ReasonableFollowerIdle = Seconds (q_ReasonableFollowerIdle (c_Qumomf cfg))\<rparr>"

definition built_failover :: "Config \<Rightarrow> string \<Rightarrow> choose_fun \<Rightarrow> failover" where
  "built_failover cfg name elect = SetOnClusterRecovered (NewDefaultFailover name
     \<lparr>fc_Hooker = initHooker cfg, fc_Elector = elect,
      fc_InstanceRecoveryBlockTime = q_InstanceRecoveryBlockTime (c_Qumomf cfg),
      fc_ReplicaSetRecoveryBlockTime = q_ShardRecoveryBlockTime (c_Qumomf cfg)\<rparr>)"

lemma RegisterCluster_complete:
  assumes "complete_Cluster k" and "co_clusters c name = None"
  obtains cluster elect mode where "NewCluster now name k = Some cluster"
    "cfg_ElectionMode k = Some mode" "elector_New srt mode (elector_options cfg) = Some elect"
    "RegisterCluster srt now name k cfg c =
       Some (Inr (built_monitor cfg, built_failover cfg name elect),
         c\<lparr>co_clusters := (co_clusters c)(name \<mapsto> SetOnClusterDiscovered cluster),
           co_shutdownQueue := co_shutdownQueue c @ [ShutdownCluster name, ShutdownMonitor name, ShutdownFailover name]\<rparr>)"
proof -
  obtain cluster where n: "NewCluster now name k = Some cluster"
    using NewCluster_complete[OF assms(1), of now name] by auto
  obtain mode where m: "cfg_ElectionMode k = Some mode" "mode = ModeIdle \<or> mode = ModeSmart"
    using assms(1) by (auto simp: complete_Cluster_def)
  then obtain elect where e: "elector_New srt mode (elector_options cfg) = Some elect"
    by (auto simp: elector_New_def)
  have "cl_Name (SetOnClusterDiscovered cluster) = name"
    using NewCluster_Some(6)[OF n] by (simp add: SetOnClusterDiscovered_def)
  with n m e assms(2) show ?thesis
    by (intro that[OF n m(1) e])
      (simp add: RegisterCluster_def Let_def addShutdownTask_def built_monitor_def built_failover_def elector_options_def)
qed

lemma register_clusters_complete:
  assumes "list_all (\<lambda>(_, k). complete_Cluster k) ks" and "distinct (map fst ks)"
    and "\<forall>n \<in> fst ` set ks. co_clusters c n = None"
  shows "\<exists>parts c'. register_clusters srt clock ks cfg c = Some (parts, c') \<and>
     map fst parts = map fst ks \<and>
     list_all2 (\<lambda>(n, k) (_, m, f). m = built_monitor cfg \<and>
        (\<exists>mode elect. cfg_ElectionMode k = Some mode \<and>
           elector_New srt mode (elector_options cfg) = Some elect \<and> f = built_failover cfg n elect)) ks parts \<and>
     dom (co_clusters c') = dom (co_clusters c) \<union> fst ` set ks \<and>
     co_shutdownQueue c' = co_shutdownQueue c @
       concat (map (\<lambda>(n, _). [ShutdownCluster n, ShutdownMonitor n, ShutdownFailover n]) ks)"
  using assms
proof (induction ks arbitrary: c clock)
  case (Cons nk ks)
  obtain n k where nk: "nk = (n, k)" by (cases nk)
  from Cons.prems nk have k: "complete_Cluster k" "co_clusters c n = None" by simp_all
  obtain cluster elect mode where r: "cfg_ElectionMode k = Some mode"
    "elector_New srt mode (elector_options cfg) = Some elect"
    "RegisterCluster srt (clock 0) n k cfg c = Some (Inr (built_monitor cfg, built_failover cfg n elect),
       c\<lparr>co_clusters := (co_clusters c)(n \<mapsto> SetOnClusterDiscovered cluster),
         co_shutdownQueue := co_shutdownQueue c @ [ShutdownCluster n, ShutdownMonitor n, ShutdownFailover n]\<rparr>)"
    by (rule RegisterCluster_complete[OF k])
  let ?c = "c\<lparr>co_clusters := (co_clusters c)(n \<mapsto> SetOnClusterDiscovered cluster),
         co_shutdownQueue := co_shutdownQueue c @ [ShutdownCluster n, ShutdownMonitor n, ShutdownFailover n]\<rparr>"
  have fresh: "\<forall>m \<in> fst ` set ks. co_clusters ?c m = None"
    using Cons.prems(2,3) nk by auto
  from Cons.prems(1,2) nk have "list_all (\<lambda>(_, k). complete_Cluster k) ks" "distinct (map fst ks)" by simp_all
  from Cons.IH[OF this fresh, of "clock \<circ> Suc"] obtain parts c' where IH:
    "register_clusters srt (clock \<circ> Suc) ks cfg ?c = Some (parts, c')" "map fst parts = map fst ks"
    "list_all2 (\<lambda>(n, k) (_, m, f). m = built_monitor cfg \<and>
        (\<exists>mode elect. cfg_ElectionMode k = Some mode \<and>
           elector_New srt mode (elector_options cfg) = Some elect \<and> f = built_failover cfg n elect)) ks parts"
    "dom (co_clusters c') = dom (co_clusters ?c) \<union> fst ` set ks"
    "co_shutdownQueue c' = co_shutdownQueue ?c @
       concat (map (\<lambda>(n, _). [ShutdownCluster n, ShutdownMonitor n, ShutdownFailover n]) ks)" by blast
  show ?case
    by (intro exI[of _ "(n, built_monitor cfg, built_failover cfg n elect) # parts"] exI[of _ c'])
      (use nk r IH in auto)
qed simp

lemma rev_tasks: "rev (concat (map (\<lambda>(n, k). [ShutdownCluster n, ShutdownMonitor n, ShutdownFailover n]) ks)) =
    concat (map (\<lambda>n. [ShutdownFailover n, ShutdownMonitor n, ShutdownCluster n]) (rev (map fst ks)))"
  by (induction ks) auto

section \<open>Properties\<close>

text \<open>Registering clusters of different names whose options are complete succeeds for each of
  them, with the options of the configuration, and a shutdown then stops, last cluster first,
  the failover of a cluster, then its monitor, and closes its connections last.\<close>

theorem register_and_shutdown:
  assumes "list_all (\<lambda>(_, k). complete_Cluster k) ks" and "distinct (map fst ks)"
  shows "\<exists>parts c. register_clusters srt clock ks cfg coordinator_New = Some (parts, c) \<and>
     map fst parts = map fst ks \<and> dom (co_clusters c) = fst ` set ks \<and>
     list_all (\<lambda>(n, m, f). fo_clusterName f = n \<and> fo_recvSetTTL f = q_ShardRecoveryBlockTime (c_Qumomf cfg) \<and>
        hooks_of (fo_hooker f) HookPreFailover = hk_PreFailover (q_Hooks (c_Qumomf cfg))) parts \<and>
     Shutdown c = concat (map (\<lambda>n. [ShutdownFailover n, ShutdownMonitor n, ShutdownCluster n]) (rev (map fst ks)))"
proof -
  from register_clusters_complete[OF assms, of coordinator_New srt clock cfg] obtain parts c where
    r: "register_clusters srt clock ks cfg coordinator_New = Some (parts, c)" "map fst parts = map fst ks"
    and p: "list_all2 (\<lambda>(n, k) (_, m, f). m = built_monitor cfg \<and>
        (\<exists>mode elect. cfg_ElectionMode k = Some mode \<and>
           elector_New srt mode (elector_options cfg) = Some elect \<and> f = built_failover cfg n elect)) ks parts"
    and d: "dom (co_clusters c) = fst ` set ks"
    and q: "co_shutdownQueue c = concat (map (\<lambda>(n, _). [ShutdownCluster n, ShutdownMonitor n, ShutdownFailover n]) ks)"
    by (auto simp: coordinator_New_def)
  have f: "fo_clusterName (built_failover cfg n e) = n"
    "fo_recvSetTTL (built_failover cfg n e) = q_ShardRecoveryBlockTime (c_Qumomf cfg)"
    "fo_hooker (built_failover cfg n e) = initHooker cfg" for n e
    by (simp_all add: built_failover_def SetOnClusterRecovered_def NewDefaultFailover_def)
  have "list_all (\<lambda>(n, m, f). fo_clusterName f = n \<and> fo_recvSetTTL f = q_ShardRecoveryBlockTime (c_Qumomf cfg) \<and>
        hooks_of (fo_hooker f) HookPreFailover = hk_PreFailover (q_Hooks (c_Qumomf cfg))) parts"
    using p r(2)
    by (induction rule: list_all2_induct) (auto simp: f initHooker_hooks[simplified])
  then show ?thesis using r d q rev_tasks[of ks] unfolding Shutdown_def
    by (intro exI[of _ parts] exI[of _ c]) simp
qed

theorem register_and_shutdown_witness:
  "\<exists>parts c. register_clusters insertion_sort (\<lambda>_. 0) [(''a'', sample_config), (''b'', sample_config)] zero_Config
      coordinator_New = Some (parts, c) \<and>
     Shutdown c = [ShutdownFailover ''b'', ShutdownMonitor ''b'', ShutdownCluster ''b'',
       ShutdownFailover ''a'', ShutdownMonitor ''a'', ShutdownCluster ''a'']"
proof -
  have "complete_Cluster sample_config"
    by (simp add: complete_Cluster_def complete_Connection_def sample_config_def default_Connection_def)
  then have "list_all (\<lambda>(_, k). complete_Cluster k) [(''a'', sample_config), (''b'', sample_config)]"
    "distinct (map fst [(''a'', sample_config), (''b'', sample_config)])" by simp_all
  from register_and_shutdown[OF this, of insertion_sort "\<lambda>_. 0" zero_Config] show ?thesis by auto
qed

end
