(* ===== verification/Vshard_Pool.thy ===== *)
theory Vshard_Pool
  imports Vshard_Cluster
begin

text \<open>
  internal/vshard/tarantool.go: the pool of connectors, and its two uses by a cluster.

  The pool is used by many goroutines, so it is a step relation over the shared map, the holder of
  the write lock and the position of each goroutine inside its call of \<open>Get\<close> or \<open>Close\<close>.  A critical
  section under the read lock is one step, taken when nobody holds the write lock.  The map is the
  list of its entries; a connector is known by its position among all connectors ever made.
\<close>

section \<open>The pool\<close>

datatype pool_call = CallGet string | CallClose

datatype pool_pc =
    GetStart string
  | GetMissed string
  | GetLocked string
  | GetDone string nat
  | CloseStart
  | CloseDone

record pool =
  p_template :: ConnOptions
  p_m :: "(string \<times> nat) list"
  p_conns :: "Connector list"
  p_writer :: "nat option"
  p_pc :: "nat \<Rightarrow> pool_pc"

definition set_pc :: "nat \<Rightarrow> pool_pc \<Rightarrow> pool \<Rightarrow> pool" where
  "set_pc t pc p = p\<lparr>p_pc := (p_pc p)(t := pc)\<rparr>"

text \<open>Where a call starts; \<open>Get\<close> first computes the key of the URI, which needs no lock.\<close>

definition call_start :: "(string \<rightharpoonup> string) \<Rightarrow> pool_call \<Rightarrow> pool_pc" where
  "call_start rules call = (case call of CallGet uri \<Rightarrow> GetStart (pool_key rules uri) | CallClose \<Rightarrow> CloseStart)"

definition NewConnPool :: "ConnOptions \<Rightarrow> (string \<rightharpoonup> string) \<Rightarrow> (nat \<Rightarrow> pool_call) \<Rightarrow> pool" where
  "NewConnPool template rules calls =
     \<lparr>p_template = template, p_m = [], p_conns = [], p_writer = None, p_pc = (\<lambda>t. call_start rules (calls t))\<rparr>"

text \<open>The loop of \<open>Close\<close> over the entries of the map.\<close>

fun close_all :: "(string \<times> nat) list \<Rightarrow> Connector list \<Rightarrow> Connector list" where
  "close_all [] conns = conns"
| "close_all ((_, c) # m) conns = close_all m (conns[c := Connector_Close (conns ! c)])"

text \<open>
  One rule per stretch between lock operations.  \<open>recheck_hit\<close> is the early return of the double
  check: it leaves the write lock held.
\<close>

inductive get_step :: "pool \<Rightarrow> pool \<Rightarrow> bool" where
  read_hit: "p_pc p t = GetStart u \<Longrightarrow> p_writer p = None \<Longrightarrow> map_of (p_m p) u = Some c \<Longrightarrow>
     get_step p (set_pc t (GetDone u c) p)"
| read_miss: "p_pc p t = GetStart u \<Longrightarrow> p_writer p = None \<Longrightarrow> map_of (p_m p) u = None \<Longrightarrow>
     get_step p (set_pc t (GetMissed u) p)"
| lock: "p_pc p t = GetMissed u \<Longrightarrow> p_writer p = None \<Longrightarrow>
     get_step p ((set_pc t (GetLocked u) p)\<lparr>p_writer := Some t\<rparr>)"
| recheck_hit: "p_pc p t = GetLocked u \<Longrightarrow> map_of (p_m p) u = Some c \<Longrightarrow>
     get_step p (set_pc t (GetDone u c) p)"
| create: "p_pc p t = GetLocked u \<Longrightarrow> map_of (p_m p) u = None \<Longrightarrow>
     get_step p ((set_pc t (GetDone u (length (p_conns p))) p)
       \<lparr>p_m := (u, length (p_conns p)) # p_m p, p_conns := p_conns p @ [setupConnection u (p_template p)],
        p_writer := None\<rparr>)"
| close: "p_pc p t = CloseStart \<Longrightarrow> p_writer p = None \<Longrightarrow>
     get_step p ((set_pc t CloseDone p)\<lparr>p_conns := close_all (p_m p) (p_conns p)\<rparr>)"

inductive pool_reach :: "pool \<Rightarrow> pool \<Rightarrow> bool" for p0 where
  pool_refl: "pool_reach p0 p0"
| pool_step: "pool_reach p0 p \<Longrightarrow> get_step p q \<Longrightarrow> pool_reach p0 q"

inductive_simps get_step_iff: "get_step p q"

section \<open>Its use by a cluster\<close>

text \<open>The pool \<open>NewCluster\<close> makes, and the calls of \<open>Connector\<close> and \<open>Shutdown\<close> on it.\<close>

definition cluster_pool :: "Cluster \<Rightarrow> (nat \<Rightarrow> pool_call) \<Rightarrow> pool" where
  "cluster_pool c calls = NewConnPool (cl_template c) (cl_rules c) calls"

definition Cluster_Connector :: "string \<Rightarrow> pool_call" where
  "Cluster_Connector uri = CallGet uri"

definition Cluster_Shutdown :: pool_call where
  "Cluster_Shutdown = CallClose"

section \<open>Invariants\<close>

lemma set_pc_simps [simp]:
  "p_m (set_pc t pc p) = p_m p" "p_conns (set_pc t pc p) = p_conns p" "p_template (set_pc t pc p) = p_template p"
  "p_writer (set_pc t pc p) = p_writer p" "p_pc (set_pc t pc p) = (p_pc p)(t := pc)"
  by (simp_all add: set_pc_def)

lemma close_all_length [simp]: "length (close_all m conns) = length conns"
  by (induction m conns rule: close_all.induct) simp_all

lemma close_all_nth:
  "i < length conns \<Longrightarrow> close_all m conns ! i =
     (if i \<in> snd ` set m then Connector_Close (conns ! i) else conns ! i)"
proof (induction m conns rule: close_all.induct)
  case (2 u c m conns)
  have "Connector_Close (Connector_Close x) = Connector_Close x" for x by (simp add: Connector_Close_def)
  with 2 show ?case by (cases "i = c") auto
qed simp

text \<open>
  A finished \<open>Get\<close> returned what the map holds for its URI; an entry of the map was set up for its
  URI with the options of the pool; every connector has an entry; whoever is past the write lock holds it.
\<close>

definition pool_inv :: "pool \<Rightarrow> bool" where
  "pool_inv p \<longleftrightarrow>
     (\<forall>t u c. p_pc p t = GetDone u c \<longrightarrow> map_of (p_m p) u = Some c) \<and>
     (\<forall>u c. map_of (p_m p) u = Some c \<longrightarrow> c < length (p_conns p) \<and>
        con_uri (p_conns p ! c) = u \<and> con_opts (p_conns p ! c) = p_template p) \<and>
     snd ` set (p_m p) = {..< length (p_conns p)} \<and>
     (\<forall>t u. p_pc p t = GetLocked u \<longrightarrow> p_writer p = Some t)"

lemma pool_invD:
  assumes "pool_inv p"
  shows "p_pc p t = GetDone u c \<Longrightarrow> map_of (p_m p) u = Some c"
    "map_of (p_m p) u = Some c \<Longrightarrow> c < length (p_conns p)"
    "map_of (p_m p) u = Some c \<Longrightarrow> con_uri (p_conns p ! c) = u"
    "map_of (p_m p) u = Some c \<Longrightarrow> con_opts (p_conns p ! c) = p_template p"
    "snd ` set (p_m p) = {..< length (p_conns p)}"
    "p_pc p t = GetLocked u \<Longrightarrow> p_writer p = Some t"
  using assms unfolding pool_inv_def by simp_all

lemma pool_inv_init: "pool_inv (NewConnPool template rules calls)"
  by (auto simp: pool_inv_def NewConnPool_def call_start_def split: pool_call.splits)

lemma get_step_inv [go_inv]:
  assumes "get_step p q" and "pool_inv p"
  shows "pool_inv q"
  using assms
proof (induction rule: get_step.induct)
  case (create p t u)
  note inv = pool_invD[OF create.prems]
  have other: "t' = t" if "p_pc p t' = GetLocked v" for t' v
    using inv(6)[OF that] inv(6)[OF create.hyps(1)] by simp
  show ?case
    unfolding pool_inv_def
  proof (intro conjI allI impI, goal_cases)
    case (1 t' v c)
    then show ?case using inv(1)[of t' v c] create.hyps by (auto split: if_split_asm)
  next
    case (2 v c)
    then show ?case using inv(2)[of v c] by (auto simp: less_Suc_eq split: if_split_asm)
  next
    case (3 v c)
    then show ?case using inv(2,3)[of v c] by (auto simp: nth_append split: if_split_asm)
  next
    case (4 v c)
    then show ?case using inv(2,4)[of v c] by (auto simp: nth_append split: if_split_asm)
  next
    case 5
    show ?case using inv(5) by (simp add: lessThan_Suc)
  next
    case (6 t' v)
    then show ?case using other[of t' v] by (auto split: if_split_asm)
  qed
next
  case (close p t)
  then show ?case unfolding pool_inv_def by (auto simp: close_all_nth split: if_split_asm)
qed (auto simp: pool_inv_def split: if_split_asm)

lemma pool_reach_inv: "pool_reach p0 p \<Longrightarrow> pool_inv p0 \<Longrightarrow> pool_inv p"
  by (induction rule: pool_reach.induct) (auto intro: go_inv)

text \<open>The URI a goroutine works with is fixed on entry, and so are the options of the pool.\<close>

fun pc_call :: "pool_pc \<Rightarrow> string option" where
  "pc_call (GetStart u) = Some u" | "pc_call (GetMissed u) = Some u" | "pc_call (GetLocked u) = Some u"
| "pc_call (GetDone u c) = Some u" | "pc_call CloseStart = None" | "pc_call CloseDone = None"

lemma get_step_frame: "get_step p q \<Longrightarrow> pc_call (p_pc q t) = pc_call (p_pc p t) \<and> p_template q = p_template p"
  by (induction rule: get_step.induct) auto

lemma pool_reach_frame:
  "pool_reach p0 p \<Longrightarrow> pc_call (p_pc p t) = pc_call (p_pc p0 t) \<and> p_template p = p_template p0"
  by (induction rule: pool_reach.induct) (simp_all add: get_step_frame)

text \<open>An entry, once in the map, stays, and a connector, once closed, stays closed.\<close>

lemma get_step_keeps: "get_step p q \<Longrightarrow> map_of (p_m p) u = Some c \<Longrightarrow> map_of (p_m q) u = Some c"
  by (induction rule: get_step.induct) auto

lemma pool_reach_keeps: "pool_reach p q \<Longrightarrow> map_of (p_m p) u = Some c \<Longrightarrow> map_of (p_m q) u = Some c"
  by (induction rule: pool_reach.induct) (auto intro: get_step_keeps)

lemma get_step_closed:
  "get_step p q \<Longrightarrow> c < length (p_conns p) \<and> con_closed (p_conns p ! c) \<Longrightarrow>
   c < length (p_conns q) \<and> con_closed (p_conns q ! c)"
  by (induction rule: get_step.induct) (auto simp: nth_append close_all_nth)

lemma pool_reach_closed:
  "pool_reach p q \<Longrightarrow> c < length (p_conns p) \<and> con_closed (p_conns p ! c) \<Longrightarrow>
   c < length (p_conns q) \<and> con_closed (p_conns q ! c)"
  by (induction rule: pool_reach.induct) (auto dest: get_step_closed)

text \<open>The step that ends a call of \<open>Close\<close>.\<close>

lemma close_step:
  assumes "get_step p q" and "p_pc p t = CloseStart" and "p_pc q t = CloseDone"
  shows "p_m q = p_m p" "p_conns q = close_all (p_m p) (p_conns p)"
  using assms by (auto simp: get_step_iff split: if_split_asm)

text \<open>
  A state in which the write lock is held by a goroutine that has left its call is dead: no
  step is possible from it any more.
\<close>

definition lock_leaked :: "pool \<Rightarrow> bool" where
  "lock_leaked p \<longleftrightarrow> (\<exists>t u c. p_writer p = Some t \<and> p_pc p t = GetDone u c)"

lemma lock_leaked_stuck:
  assumes "pool_inv p" and "lock_leaked p"
  shows "\<not> get_step p q"
proof
  assume s: "get_step p q"
  from assms(2) obtain t u c where w: "p_writer p = Some t" "p_pc p t = GetDone u c"
    by (auto simp: lock_leaked_def)
  have "p_pc p t' \<noteq> GetLocked v" for t' v
    using pool_invD(6)[OF assms(1), of t' v] w by auto
  with s w show False by (auto simp: get_step_iff)
qed

text \<open>Two calls of \<open>Get\<close> for the same URI, whatever the other goroutines call.\<close>

definition two_gets :: "string \<Rightarrow> (nat \<Rightarrow> pool_call) \<Rightarrow> nat \<Rightarrow> pool_call" where
  "two_gets uri calls t = (if t < 2 then CallGet uri else calls t)"

text \<open>The interleaving of the two that leaks the write lock.\<close>

lemma pool_leak_trace:
  "\<exists>p. pool_reach (NewConnPool template rules (two_gets uri calls)) p \<and> p_writer p = Some 1 \<and>
     p_pc p 0 = GetDone (pool_key rules uri) 0 \<and> p_pc p 1 = GetDone (pool_key rules uri) 0 \<and>
     (\<forall>t \<ge> 2. p_pc p t = call_start rules (calls t))"
proof -
  let ?u = "pool_key rules uri" and ?p0 = "NewConnPool template rules (two_gets uri calls)"
  note d = NewConnPool_def call_start_def two_gets_def
  let ?p1 = "set_pc 0 (GetMissed ?u) ?p0" let ?p2 = "set_pc 1 (GetMissed ?u) ?p1"
  let ?p3 = "(set_pc 0 (GetLocked ?u) ?p2)\<lparr>p_writer := Some 0\<rparr>"
  let ?p4 = "(set_pc 0 (GetDone ?u (length (p_conns ?p3))) ?p3)
    \<lparr>p_m := (?u, length (p_conns ?p3)) # p_m ?p3, p_conns := p_conns ?p3 @ [setupConnection ?u (p_template ?p3)],
     p_writer := None\<rparr>"
  let ?p5 = "(set_pc 1 (GetLocked ?u) ?p4)\<lparr>p_writer := Some 1\<rparr>"
  let ?p6 = "set_pc 1 (GetDone ?u 0) ?p5"
  have s1: "get_step ?p0 ?p1" by (rule read_miss) (simp_all add: d)
  have s2: "get_step ?p1 ?p2" by (rule read_miss) (simp_all add: d)
  have s3: "get_step ?p2 ?p3" by (rule lock) (simp_all add: d)
  have s4: "get_step ?p3 ?p4" by (rule create) (simp_all add: d)
  have s5: "get_step ?p4 ?p5" by (rule lock) simp_all
  have s6: "get_step ?p5 ?p6" by (rule recheck_hit) (simp_all add: d)
  have r: "pool_reach ?p0 ?p6"
    by (rule pool_step[OF _ s6], rule pool_step[OF _ s5], rule pool_step[OF _ s4], rule pool_step[OF _ s3],
        rule pool_step[OF _ s2], rule pool_step[OF _ s1], rule pool_refl)
  then show ?thesis
    by (intro exI[of _ ?p6]) (simp add: d)
qed

section \<open>Properties\<close>

text \<open>C17: at every moment of every interleaving of concurrent calls, two calls of \<open>Get\<close> that have
  returned got the same connector exactly when their URIs agree after removing user information and
  applying the override rules, and that connector is set up for this URI with the options of the pool.\<close>

theorem pool_one_connector_per_uri:
  assumes "pool_reach (NewConnPool template rules calls) p" and "calls t = CallGet x" and "calls t' = CallGet y"
    and "p_pc p t = GetDone u c" and "p_pc p t' = GetDone v c'"
  shows "(c = c' \<longleftrightarrow> pool_key rules x = pool_key rules y) \<and>
    con_uri (p_conns p ! c) = pool_key rules x \<and> con_opts (p_conns p ! c) = template"
proof -
  have inv: "pool_inv p" using assms(1) pool_inv_init by (rule pool_reach_inv)
  note m = pool_invD(1)[OF inv assms(4)] pool_invD(1)[OF inv assms(5)]
  have "u = pool_key rules x" "v = pool_key rules y" "p_template p = template"
    using pool_reach_frame[OF assms(1), of t] pool_reach_frame[OF assms(1), of t'] assms(2-5)
    by (simp_all add: NewConnPool_def call_start_def)
  moreover have "c = c' \<longleftrightarrow> u = v"
    using m pool_invD(3)[OF inv m(1)] pool_invD(3)[OF inv m(2)] by (metis option.inject)
  ultimately show ?thesis using pool_invD(3,4)[OF inv m(1)] by simp
qed

theorem pool_one_connector_per_uri_witness:
  "\<exists>p c. pool_reach (NewConnPool sample_template Map.empty (\<lambda>_. CallGet ''h:1'')) p \<and>
     p_pc p 0 = GetDone ''h:1'' c \<and> p_pc p 1 = GetDone ''h:1'' c \<and> con_uri (p_conns p ! c) = ''h:1''"
proof -
  have k: "pool_key Map.empty ''h:1'' = ''h:1''" by (simp add: pool_key_def removeUserInfo_none overrideURI_def)
  have "two_gets ''h:1'' (\<lambda>_. CallGet ''h:1'') = (\<lambda>_. CallGet ''h:1'')" by (simp add: two_gets_def fun_eq_iff)
  with pool_leak_trace[of sample_template Map.empty "''h:1''" "\<lambda>_. CallGet ''h:1''"]
  obtain p where p: "pool_reach (NewConnPool sample_template Map.empty (\<lambda>_. CallGet ''h:1'')) p"
    "p_pc p 0 = GetDone ''h:1'' 0" "p_pc p 1 = GetDone ''h:1'' 0" by (auto simp: k)
  from pool_one_connector_per_uri[OF p(1) _ _ p(2,3), of "''h:1''" "''h:1''"] p show ?thesis by (auto simp: k)
qed

text \<open>C16: two goroutines asking for the same new URI can leave the write lock of the pool held for ever: the
  second finds the connector on its double check and returns without unlocking.  From then on no call
  makes progress, neither a \<open>Get\<close>, whatever its URI, nor the \<open>Close\<close> of a shutdown.\<close>

theorem pool_get_deadlock:
  "\<exists>p. pool_reach (NewConnPool template rules (two_gets uri calls)) p \<and> p_writer p = Some 1 \<and>
     p_pc p 0 = GetDone (pool_key rules uri) 0 \<and> p_pc p 1 = GetDone (pool_key rules uri) 0 \<and>
     (\<forall>t. p_pc p (t + 2) = call_start rules (calls (t + 2))) \<and> (\<forall>q. \<not> get_step p q)"
proof -
  obtain p where p: "pool_reach (NewConnPool template rules (two_gets uri calls)) p" "p_writer p = Some 1"
    "p_pc p 0 = GetDone (pool_key rules uri) 0" "p_pc p 1 = GetDone (pool_key rules uri) 0"
    "\<forall>t \<ge> 2. p_pc p t = call_start rules (calls t)"
    using pool_leak_trace by blast
  have "lock_leaked p" using p(2,4) by (auto simp: lock_leaked_def)
  then have "\<not> get_step p q" for q
    using lock_leaked_stuck pool_reach_inv[OF p(1) pool_inv_init] by blast
  with p show ?thesis by auto
qed



end
