(* ===== verification/Qumomf_Runtime.thy ===== *)
theory Qumomf_Runtime
  imports Failover_Safety Qumomf_Coordinator Vshard_Pool
begin

text \<open>
  The goroutines of one cluster at work together: the monitor (monitor.go, \<open>continuousDiscovery\<close>), the
  goroutines it starts per replica set (\<open>checkCluster\<close>), which block on the unbuffered stream until the
  failover receives, the failover (failover.go, \<open>Serve\<close>), the two stop channels, which hold one
  token each, and the coordinator's \<open>Shutdown\<close>, which runs the tasks that are left.

  The failover is busy from the receipt of an analysis it reacts to until \<open>checkAndRecover\<close> returns; all
  others may move in between.  \<open>rt_world\<close> is the world of the failover's goroutine when it last was
  at its \<open>select\<close>.
\<close>

section \<open>The goroutines\<close>

datatype fo_pc = FoSelect | FoBusy ReplicationAnalysis | FoStopped

record runtime =
  rt_mon :: storageMonitor
  rt_mon_runs :: bool
  rt_mon_stop :: bool
  rt_senders :: "ReplicationAnalysis list"
  rt_fo :: failover
  rt_world :: world
  rt_pc :: fo_pc
  rt_fo_stop :: bool
  rt_tasks :: "shutdown_task list"
  rt_closed :: bool

definition rt_init :: "storageMonitor \<Rightarrow> failover \<Rightarrow> world \<Rightarrow> shutdown_task list \<Rightarrow> runtime" where
  "rt_init m f w tasks = \<lparr>rt_mon = m, rt_mon_runs = True, rt_mon_stop = False, rt_senders = [], rt_fo = f,
     rt_world = w, rt_pc = FoSelect, rt_fo_stop = False, rt_tasks = tasks, rt_closed = False\<rparr>"

text \<open>The goroutines a monitor starts send what \<open>analyze\<close> returns, unless it is nil.\<close>

definition spawned :: "mon_effect list \<Rightarrow> ReplicationAnalysis list" where
  "spawned es = List.map_filter (\<lambda>e. case e of GoAnalyse rs \<Rightarrow> analyze rs | GoDiscover \<Rightarrow> None) es"

datatype rt_act = MonInput mon_input | MonStops | FoCleans | FoReceives | FoReturns | FoStops | TaskRuns

inductive rt_step :: "Instance sorter \<Rightarrow> (string \<Rightarrow> string) \<Rightarrow> env \<Rightarrow> int \<Rightarrow> runtime \<Rightarrow> rt_act \<Rightarrow> runtime \<Rightarrow> bool"
  for srt sha env start where
  monitor: "rt_mon_runs s \<Longrightarrow> input \<noteq> StopReceived \<Longrightarrow> monitor_one start input (rt_mon s) = (es, m) \<Longrightarrow>
     rt_step srt sha env start s (MonInput input)
       (s\<lparr>rt_mon := m, rt_senders := rt_senders s @ spawned es\<rparr>)"
| mon_stops: "rt_mon_runs s \<Longrightarrow> rt_mon_stop s \<Longrightarrow>
     rt_step srt sha env start s MonStops (s\<lparr>rt_mon_runs := False, rt_mon_stop := False\<rparr>)"
| cleans: "rt_pc s = FoSelect \<Longrightarrow>
     serve_one srt sha env CleanupTick (rt_fo s) (rt_world s) = Some (f, w) \<Longrightarrow>
     rt_step srt sha env start s FoCleans (s\<lparr>rt_fo := f, rt_world := w\<rparr>)"
| skips: "rt_pc s = FoSelect \<Longrightarrow> rt_senders s = before @ a # after \<Longrightarrow>
     \<not> shouldBeAnalysisChecked env (rt_world s) \<Longrightarrow>
     rt_step srt sha env start s FoReceives
       (s\<lparr>rt_senders := before @ after, rt_world := tick (rt_world s)\<rparr>)"
| receives: "rt_pc s = FoSelect \<Longrightarrow> rt_senders s = before @ a # after \<Longrightarrow>
     shouldBeAnalysisChecked env (rt_world s) \<Longrightarrow>
     rt_step srt sha env start s FoReceives (s\<lparr>rt_senders := before @ after, rt_pc := FoBusy a\<rparr>)"
| returns: "rt_pc s = FoBusy a \<Longrightarrow>
     checkAndRecover srt sha env a (rt_fo s) (tick (rt_world s)) = Some (f, w) \<Longrightarrow>
     rt_step srt sha env start s FoReturns (s\<lparr>rt_fo := f, rt_world := w, rt_pc := FoSelect\<rparr>)"
| fo_stops: "rt_pc s = FoSelect \<Longrightarrow> rt_fo_stop s \<Longrightarrow>
     rt_step srt sha env start s FoStops (s\<lparr>rt_pc := FoStopped, rt_fo_stop := False\<rparr>)"
| task_failover: "rt_tasks s = ShutdownFailover name # tasks \<Longrightarrow> \<not> rt_fo_stop s \<Longrightarrow>
     rt_step srt sha env start s TaskRuns (s\<lparr>rt_fo_stop := True, rt_tasks := tasks\<rparr>)"
| task_monitor: "rt_tasks s = ShutdownMonitor name # tasks \<Longrightarrow> \<not> rt_mon_stop s \<Longrightarrow>
     rt_step srt sha env start s TaskRuns (s\<lparr>rt_mon_stop := True, rt_tasks := tasks\<rparr>)"
| task_cluster: "rt_tasks s = ShutdownCluster name # tasks \<Longrightarrow>
     rt_step srt sha env start s TaskRuns (s\<lparr>rt_closed := True, rt_tasks := tasks\<rparr>)"

inductive rt_run :: "Instance sorter \<Rightarrow> (string \<Rightarrow> string) \<Rightarrow> env \<Rightarrow> int \<Rightarrow> runtime \<Rightarrow> rt_act list \<Rightarrow> runtime \<Rightarrow> bool"
  for srt sha env start where
  rt_nil: "rt_run srt sha env start s [] s"
| rt_snoc: "rt_run srt sha env start s0 acts s \<Longrightarrow> rt_step srt sha env start s act s' \<Longrightarrow>
     rt_run srt sha env start s0 (acts @ [act]) s'"

section \<open>The runtime as a monitor followed by a failover\<close>

text \<open>What the monitor was given, and which analyses a failover was given.\<close>

definition mon_inputs :: "rt_act list \<Rightarrow> mon_input list" where
  "mon_inputs acts = List.map_filter (\<lambda>act. case act of MonInput input \<Rightarrow> Some input | _ \<Rightarrow> None) acts"

definition received :: "serve_input list \<Rightarrow> ReplicationAnalysis list" where
  "received inputs = List.map_filter (\<lambda>i. case i of AnalysisReceived a \<Rightarrow> Some a | CleanupTick \<Rightarrow> None) inputs"

definition in_progress :: "fo_pc \<Rightarrow> ReplicationAnalysis list" where
  "in_progress pc = (case pc of FoBusy a \<Rightarrow> [a] | _ \<Rightarrow> [])"

lemma map_filter_append: "List.map_filter f (xs @ ys) = List.map_filter f xs @ List.map_filter f ys"
  by (simp add: List.map_filter_def)

lemma mon_inputs_snoc:
  "mon_inputs (acts @ [act]) = mon_inputs acts @ (case act of MonInput input \<Rightarrow> [input] | _ \<Rightarrow> [])"
  by (simp add: mon_inputs_def map_filter_append map_filter_simps split: rt_act.split)

lemma received_snoc:
  "received (inputs @ [i]) = received inputs @ (case i of AnalysisReceived a \<Rightarrow> [a] | CleanupTick \<Rightarrow> [])"
  by (simp add: received_def map_filter_append map_filter_simps split: serve_input.split)

lemma spawned_append: "spawned (es @ es') = spawned es @ spawned es'"
  by (simp add: spawned_def map_filter_append)

lemma monitor_loop_snoc:
  "monitor_loop start inputs m = (ess, m1) \<Longrightarrow> StopReceived \<notin> set inputs \<Longrightarrow> input \<noteq> StopReceived \<Longrightarrow>
   monitor_one start input m1 = (es, m2) \<Longrightarrow> monitor_loop start (inputs @ [input]) m = (ess @ [es], m2)"
proof (induction inputs arbitrary: m ess)
  case (Cons i inputs)
  then show ?case by (cases "monitor_one start i m"; cases "monitor_loop start inputs (snd (monitor_one start i m))") auto
qed auto

lemma serve_snoc:
  "serve srt sha env inputs f w = Some (f1, w1) \<Longrightarrow> serve_one srt sha env i f1 w1 = Some (f2, w2) \<Longrightarrow>
   serve srt sha env (inputs @ [i]) f w = Some (f2, w2)"
  by (induction inputs arbitrary: f w) (auto simp: bind_eq_Some_conv)

text \<open>The relation between the states of a run and the two sequential loops.\<close>

definition refines :: "Instance sorter \<Rightarrow> (string \<Rightarrow> string) \<Rightarrow> env \<Rightarrow> int \<Rightarrow> runtime \<Rightarrow> rt_act list \<Rightarrow> runtime \<Rightarrow> bool" where
  "refines srt sha env start s0 acts s \<longleftrightarrow>
     StopReceived \<notin> set (mon_inputs acts) \<and>
     (\<exists>ess. monitor_loop start (mon_inputs acts) (rt_mon s0) = (ess, rt_mon s) \<and>
       (\<exists>inputs. serve srt sha env inputs (rt_fo s0) (rt_world s0) = Some (rt_fo s, rt_world s) \<and>
          mset (received inputs) + mset (in_progress (rt_pc s)) + mset (rt_senders s) = mset (spawned (concat ess)))) \<and>
     (\<forall>a. rt_pc s = FoBusy a \<longrightarrow> shouldBeAnalysisChecked env (rt_world s))"

lemma refinesI:
  "StopReceived \<notin> set (mon_inputs acts) \<Longrightarrow>
   monitor_loop start (mon_inputs acts) (rt_mon s0) = (ess, rt_mon s) \<Longrightarrow>
   serve srt sha env inputs (rt_fo s0) (rt_world s0) = Some (rt_fo s, rt_world s) \<Longrightarrow>
   mset (received inputs) + mset (in_progress (rt_pc s)) + mset (rt_senders s) = mset (spawned (concat ess)) \<Longrightarrow>
   (\<And>a. rt_pc s = FoBusy a \<Longrightarrow> shouldBeAnalysisChecked env (rt_world s)) \<Longrightarrow> refines srt sha env start s0 acts s"
  unfolding refines_def by blast

lemma refinesE:
  assumes "refines srt sha env start s0 acts s"
  obtains ess inputs where "StopReceived \<notin> set (mon_inputs acts)"
    "monitor_loop start (mon_inputs acts) (rt_mon s0) = (ess, rt_mon s)"
    "serve srt sha env inputs (rt_fo s0) (rt_world s0) = Some (rt_fo s, rt_world s)"
    "mset (received inputs) + mset (in_progress (rt_pc s)) + mset (rt_senders s) = mset (spawned (concat ess))"
    "\<forall>a. rt_pc s = FoBusy a \<longrightarrow> shouldBeAnalysisChecked env (rt_world s)"
  using assms that unfolding refines_def by blast

lemma rt_step_refines:
  assumes "rt_step srt sha env start s act s'" and r: "refines srt sha env start s0 acts s"
  shows "refines srt sha env start s0 (acts @ [act]) s'"
proof -
  from r obtain ess inputs where h: "StopReceived \<notin> set (mon_inputs acts)"
    "monitor_loop start (mon_inputs acts) (rt_mon s0) = (ess, rt_mon s)"
    "serve srt sha env inputs (rt_fo s0) (rt_world s0) = Some (rt_fo s, rt_world s)"
    "mset (received inputs) + mset (in_progress (rt_pc s)) + mset (rt_senders s) = mset (spawned (concat ess))"
    "\<forall>a. rt_pc s = FoBusy a \<longrightarrow> shouldBeAnalysisChecked env (rt_world s)" by (rule refinesE)
  from assms(1) show ?thesis
  proof (cases rule: rt_step.cases)
  case (monitor input es m)
  show ?thesis
    by (rule refinesI[where ess = "ess @ [es]" and inputs = inputs])
      (use h monitor monitor_loop_snoc[OF h(2,1) monitor(4,5)] in
        \<open>auto simp: mon_inputs_snoc spawned_append add.assoc[symmetric]\<close>)
next
  case (cleans f w)
  show ?thesis
    by (rule refinesI[where ess = ess and inputs = "inputs @ [CleanupTick]"])
      (use h cleans serve_snoc[OF h(3) cleans(4)] in \<open>auto simp: mon_inputs_snoc received_snoc\<close>)
next
  case (skips before a after)
  have "serve_one srt sha env (AnalysisReceived a) (rt_fo s) (rt_world s) = Some (rt_fo s, tick (rt_world s))"
    using skips by (simp add: serve_one_def)
  from serve_snoc[OF h(3) this] show ?thesis
    by (intro refinesI[where ess = ess and inputs = "inputs @ [AnalysisReceived a]"])
      (use h skips in \<open>auto simp: mon_inputs_snoc received_snoc in_progress_def\<close>)
next
  case (receives before a after)
  show ?thesis
    by (rule refinesI[where ess = ess and inputs = inputs])
      (use h receives in \<open>auto simp: mon_inputs_snoc in_progress_def\<close>)
next
  case (returns a f w)
  have "serve_one srt sha env (AnalysisReceived a) (rt_fo s) (rt_world s) = Some (f, w)"
    using returns h(5) by (simp add: serve_one_def)
  from serve_snoc[OF h(3) this] show ?thesis
    by (intro refinesI[where ess = ess and inputs = "inputs @ [AnalysisReceived a]"])
      (use h returns in \<open>auto simp: mon_inputs_snoc received_snoc in_progress_def\<close>)
qed (use h in \<open>auto intro!: refinesI[where ess = ess and inputs = inputs] simp: mon_inputs_snoc in_progress_def\<close>)
qed

lemma refines_init: "refines srt sha env start (rt_init m f w tasks) [] (rt_init m f w tasks)"
  by (rule refinesI[where ess = "[]" and inputs = "[]"])
    (simp_all add: mon_inputs_def received_def spawned_def in_progress_def rt_init_def map_filter_simps)

lemma rt_run_refines:
  "rt_run srt sha env start s0 acts s \<Longrightarrow> refines srt sha env start s0 [] s0 \<Longrightarrow> refines srt sha env start s0 acts s"
  by (induction rule: rt_run.induct) (auto intro: rt_step_refines)

section \<open>Shutdown\<close>

text \<open>The tasks of one cluster, and what each still to run finds: room in its stop channel.\<close>

definition cluster_tasks :: "string \<Rightarrow> shutdown_task list" where
  "cluster_tasks name = [ShutdownFailover name, ShutdownMonitor name, ShutdownCluster name]"

definition tasks_inv :: "string \<Rightarrow> runtime \<Rightarrow> bool" where
  "tasks_inv name s \<longleftrightarrow> suffix (rt_tasks s) (cluster_tasks name) \<and>
     (ShutdownFailover name \<in> set (rt_tasks s) \<longrightarrow> \<not> rt_fo_stop s) \<and>
     (ShutdownMonitor name \<in> set (rt_tasks s) \<longrightarrow> \<not> rt_mon_stop s) \<and>
     (rt_closed s \<longleftrightarrow> ShutdownCluster name \<notin> set (rt_tasks s))"

lemma suffix_cluster_tasks:
  "suffix ts (cluster_tasks name) \<longleftrightarrow> ts \<in> {cluster_tasks name, [ShutdownMonitor name, ShutdownCluster name],
     [ShutdownCluster name], []}"
  by (auto simp: cluster_tasks_def suffix_Cons)

lemma tasks_inv_init: "tasks_inv name (rt_init m f w (cluster_tasks name))"
  by (simp add: tasks_inv_def rt_init_def cluster_tasks_def)

lemma rt_step_tasks [go_inv]:
  assumes "rt_step srt sha env start s act s'" and "tasks_inv name s"
  shows "tasks_inv name s'"
  using assms unfolding tasks_inv_def suffix_cluster_tasks
  by (cases rule: rt_step.cases) (auto simp: cluster_tasks_def)

lemma rt_run_tasks: "rt_run srt sha env start s0 acts s \<Longrightarrow> tasks_inv name s0 \<Longrightarrow> tasks_inv name s"
  by (induction rule: rt_run.induct) (auto intro: go_inv)

text \<open>The goroutines, without the tasks and what the tasks change.\<close>

definition goroutines :: "runtime \<Rightarrow> storageMonitor \<times> bool \<times> ReplicationAnalysis list \<times> failover \<times> world \<times> fo_pc" where
  "goroutines s = (rt_mon s, rt_mon_runs s, rt_senders s, rt_fo s, rt_world s, rt_pc s)"

lemma task_enabled:
  assumes "tasks_inv name s" and "rt_tasks s \<noteq> []"
  obtains s' where "rt_step srt sha env start s TaskRuns s'" "rt_tasks s' = tl (rt_tasks s)"
    "goroutines s' = goroutines s"
proof -
  consider "rt_tasks s = cluster_tasks name" | "rt_tasks s = [ShutdownMonitor name, ShutdownCluster name]"
    | "rt_tasks s = [ShutdownCluster name]"
    using assms unfolding tasks_inv_def suffix_cluster_tasks by blast
  then show ?thesis
  proof cases
    case 1
    then have t: "rt_tasks s = ShutdownFailover name # [ShutdownMonitor name, ShutdownCluster name]" "\<not> rt_fo_stop s"
      using assms(1) by (simp_all add: tasks_inv_def cluster_tasks_def)
    show ?thesis by (rule that[OF task_failover[OF t]]) (simp_all add: t goroutines_def)
  next
    case 2
    then have t: "rt_tasks s = ShutdownMonitor name # [ShutdownCluster name]" "\<not> rt_mon_stop s"
      using assms(1) by (simp_all add: tasks_inv_def)
    show ?thesis by (rule that[OF task_monitor[OF t]]) (simp_all add: t goroutines_def)
  next
    case 3
    show ?thesis by (rule that[OF task_cluster[OF 3]]) (simp_all add: 3 goroutines_def)
  qed
qed

lemma rt_run_Cons:
  "rt_run srt sha env start s1 acts s2 \<Longrightarrow> rt_step srt sha env start s0 act s1 \<Longrightarrow>
   rt_run srt sha env start s0 (act # acts) s2"
proof (induction rule: rt_run.induct)
  case (rt_nil s)
  from rt_snoc[OF rt_run.rt_nil rt_nil] show ?case by simp
next
  case (rt_snoc s1 acts s act' s')
  from rt_run.rt_snoc[OF rt_snoc.IH[OF rt_snoc.prems] rt_snoc.hyps(2)] show ?case by simp
qed

lemma tasks_run_through:
  "tasks_inv name s \<Longrightarrow> \<exists>s'. rt_run srt sha env start s (replicate (length (rt_tasks s)) TaskRuns) s' \<and>
     rt_tasks s' = [] \<and> rt_closed s' \<and> goroutines s' = goroutines s"
proof (induction "length (rt_tasks s)" arbitrary: s)
  case 0
  then have "rt_closed s" by (simp add: tasks_inv_def)
  with 0 show ?case using rt_nil by (intro exI[of _ s]) simp
next
  case (Suc n)
  then obtain s1 where s1: "rt_step srt sha env start s TaskRuns s1" "rt_tasks s1 = tl (rt_tasks s)"
    "goroutines s1 = goroutines s"
    using task_enabled[OF Suc.prems, of srt sha env start] by force
  from Suc.hyps(2) s1(2) have n: "n = length (rt_tasks s1)" by simp
  from Suc.hyps(1)[OF n rt_step_tasks[OF s1(1) Suc.prems]] obtain s' where
    s': "rt_run srt sha env start s1 (replicate (length (rt_tasks s1)) TaskRuns) s'"
    "rt_tasks s' = []" "rt_closed s'" "goroutines s' = goroutines s1" by blast
  have len: "length (rt_tasks s) = Suc (length (rt_tasks s1))" using Suc.hyps(2) n by simp
  from rt_run_Cons[OF s'(1) s1(1)] s'(2-4) s1(3) show ?case
    unfolding len by (intro exI[of _ s']) simp
qed

text \<open>A failover that has stopped stays so.\<close>

lemma stopped_step:
  "rt_step srt sha env start s act s' \<Longrightarrow> rt_pc s = FoStopped \<Longrightarrow>
   rt_pc s' = FoStopped \<and> rt_world s' = rt_world s \<and> rt_fo s' = rt_fo s \<and>
   (\<exists>more. rt_senders s' = rt_senders s @ more)"
  by (cases rule: rt_step.cases) auto

lemma stopped_run:
  "rt_run srt sha env start s acts s' \<Longrightarrow> rt_pc s = FoStopped \<Longrightarrow>
   rt_pc s' = FoStopped \<and> rt_world s' = rt_world s \<and> rt_fo s' = rt_fo s \<and>
   (\<exists>more. rt_senders s' = rt_senders s @ more)"
proof (induction rule: rt_run.induct)
  case (rt_snoc s0 acts s act s')
  with stopped_step[OF rt_snoc.hyps(2)] show ?case by fastforce
qed simp

section \<open>A concrete run\<close>

text \<open>The sample set of the failover, as the monitor analyses it.\<close>

abbreviation sample_fs :: "Instance list" where
  "sample_fs \<equiv> [sample_follower ''a'' 7]"

abbreviation sample_fo :: failover where
  "sample_fo \<equiv> sample_failover (smart_ChooseMaster insertion_sort no_limits)"

lemma sample_analyze: "analyze (sample_set sample_fs) = Some (sample_analysis sample_fs)"
proof -
  have "Followers (sample_set sample_fs) = sample_fs" by (simp add: Followers_eq sample_set_def)
  then show ?thesis
    by (simp add: analyze_def sample_Master Let_def sample_analysis_def tally_step_def tally_status_def
        tally0_def decide_state_def sample_follower_def zero_Instance_def zero_StorageInfo_def)
qed

definition sample_seen :: Cluster where
  "sample_seen = sample_analysed\<lparr>cl_snapshot := (cl_snapshot sample_analysed)\<lparr>sn_ReplicaSets := [sample_set sample_fs]\<rparr>\<rparr>"

text \<open>The monitor has seen the dead master, and the failover has received the analysis.\<close>

definition sample_start :: runtime where
  "sample_start = rt_init (NewMonitor \<lparr>oc_RecoveryPollTime = 1, oc_DiscoveryPollTime = 5\<rparr>) sample_fo world0
     (cluster_tasks ''k'')"

lemma sample_busy:
  "\<exists>s. rt_run insertion_sort id (sample_env sample_fs) 0 sample_start
       [MonInput (RecoveryTick 20 sample_seen sample_seen), FoReceives] s \<and>
     rt_pc s = FoBusy (sample_analysis sample_fs) \<and> rt_tasks s = cluster_tasks ''k'' \<and> \<not> rt_closed s \<and>
     rt_fo s = sample_fo \<and> rt_world s = world0"
proof -
  let ?in = "RecoveryTick 20 sample_seen sample_seen"
  let ?s1 = "sample_start\<lparr>rt_mon := (rt_mon sample_start)\<lparr>mon_analyzed := 7\<rparr>,
    rt_senders := rt_senders sample_start @ spawned [GoAnalyse (sample_set sample_fs)]\<rparr>"
  have m: "monitor_one 0 ?in (rt_mon sample_start) =
      ([GoAnalyse (sample_set sample_fs)], (rt_mon sample_start)\<lparr>mon_analyzed := 7\<rparr>)"
    by (simp add: sample_start_def rt_init_def monitor_one_def time_ripe_def NewMonitor_def sample_seen_def
        checkAndRecoverWaitPeriod_def checkCluster_def sample_analysed_def LastDiscovered_def Cluster_ReplicaSets_def)
  have s1: "rt_step insertion_sort id (sample_env sample_fs) 0 sample_start (MonInput ?in) ?s1"
    by (rule rt_step.monitor[OF _ _ m]) (simp_all add: sample_start_def rt_init_def)
  have snd: "rt_senders ?s1 = [] @ sample_analysis sample_fs # []"
    by (simp add: sample_start_def rt_init_def spawned_def map_filter_simps sample_analyze)
  have "shouldBeAnalysisChecked (sample_env sample_fs) (rt_world ?s1)"
    by (simp add: sample_start_def rt_init_def shouldBeAnalysisChecked_def world0_def sample_env_def ReadOnly_def
        failover_cluster_def)
  from rt_step.receives[OF _ snd this, of insertion_sort id 0]
  have s2: "rt_step insertion_sort id (sample_env sample_fs) 0 ?s1 FoReceives
      (?s1\<lparr>rt_senders := [] @ [], rt_pc := FoBusy (sample_analysis sample_fs)\<rparr>)"
    by (simp add: sample_start_def rt_init_def)
  from rt_snoc[OF rt_snoc[OF rt_nil s1] s2] show ?thesis
    by (intro exI[of _ "?s1\<lparr>rt_senders := [] @ [], rt_pc := FoBusy (sample_analysis sample_fs)\<rparr>"])
      (simp add: sample_start_def rt_init_def)
qed

section \<open>Where an analysis comes from\<close>

lemma spawned_member: "a \<in> set (spawned es) \<longleftrightarrow> (\<exists>rs. GoAnalyse rs \<in> set es \<and> analyze rs = Some a)"
proof -
  have "spawned es = map (\<lambda>e. the (case e of GoAnalyse rs \<Rightarrow> analyze rs | GoDiscover \<Rightarrow> None))
      (filter (\<lambda>e. (case e of GoAnalyse rs \<Rightarrow> analyze rs | GoDiscover \<Rightarrow> None) \<noteq> None) es)"
    by (simp add: spawned_def List.map_filter_def comp_def)
  then show ?thesis by (force split: mon_effect.splits)
qed

lemma received_member: "a \<in> set (received inputs) \<longleftrightarrow> AnalysisReceived a \<in> set inputs"
  by (induction inputs) (auto simp: received_def map_filter_simps split: serve_input.splits)

lemma monitor_loop_length: "monitor_loop start inputs m = (ess, m') \<Longrightarrow> length ess \<le> length inputs"
  by (induction inputs arbitrary: m ess) (auto split: if_splits prod.splits)

text \<open>An analysis a failover received is of a replica set the monitor found in the cluster on a tick.\<close>

lemma refines_received:
  assumes "refines srt sha env start s0 acts s"
  obtains inputs where "serve srt sha env inputs (rt_fo s0) (rt_world s0) = Some (rt_fo s, rt_world s)"
    "\<And>a. AnalysisReceived a \<in> set inputs \<Longrightarrow> \<exists>rs now c1 c2. RecoveryTick now c1 c2 \<in> set (mon_inputs acts) \<and>
       rs \<in> set (Cluster_ReplicaSets c2) \<and> analyze rs = Some a"
proof -
  from assms obtain ess inputs where h:
    "monitor_loop start (mon_inputs acts) (rt_mon s0) = (ess, rt_mon s)"
    "serve srt sha env inputs (rt_fo s0) (rt_world s0) = Some (rt_fo s, rt_world s)"
    "mset (received inputs) + mset (in_progress (rt_pc s)) + mset (rt_senders s) = mset (spawned (concat ess))"
    by (rule refinesE)
  have "\<exists>rs now c1 c2. RecoveryTick now c1 c2 \<in> set (mon_inputs acts) \<and>
       rs \<in> set (Cluster_ReplicaSets c2) \<and> analyze rs = Some a" if "AnalysisReceived a \<in> set inputs" for a
  proof -
    have "a \<in># mset (received inputs) + mset (in_progress (rt_pc s)) + mset (rt_senders s)"
      using that by (simp add: received_member)
    then have "a \<in> set (spawned (concat ess))" unfolding h(3) by simp
    then obtain rs es where rs: "analyze rs = Some a" "es \<in> set ess" "GoAnalyse rs \<in> set es"
      by (auto simp: spawned_member)
    then obtain i where i: "i < length ess" "GoAnalyse rs \<in> set (ess ! i)" by (auto simp: in_set_conv_nth)
    from monitor_loop_nth[OF h(1) i(1)] obtain mi mi' where "monitor_one start (mon_inputs acts ! i) mi = (ess ! i, mi')"
      by blast
    from GoAnalyse_monitor_one[OF this i(2)] obtain now c1 c2 where
      "mon_inputs acts ! i = RecoveryTick now c1 c2" "rs \<in> set (Cluster_ReplicaSets c2)" by metis
    with rs(1) i(1) monitor_loop_length[OF h(1)] show ?thesis by (metis nth_mem order_less_le_trans)
  qed
  with h(2) show ?thesis by (rule that)
qed

section \<open>Properties\<close>

text \<open>C2: in every interleaving of the goroutines, monitor and failover do what they would do one
  after the other: the state of the monitor is that after its inputs, the state and the effects of the
  failover are those of serving some of the analyses the monitor has started, in some order, and every
  analysis started is exactly once served, in progress or waiting to be received.\<close>

theorem runtime_refines_loops:
  assumes "rt_run srt sha env start (rt_init m f w tasks) acts s"
  shows "\<exists>ess inputs. monitor_loop start (mon_inputs acts) m = (ess, rt_mon s) \<and>
     serve srt sha env inputs f w = Some (rt_fo s, rt_world s) \<and>
     mset (received inputs) + mset (in_progress (rt_pc s)) + mset (rt_senders s) = mset (spawned (concat ess))"
  by (rule refinesE[OF rt_run_refines[OF assms refines_init]]) (auto simp: rt_init_def)

theorem runtime_refines_loops_witness:
  "\<exists>(s :: runtime) ess inputs. rt_pc s = FoBusy (sample_analysis sample_fs) \<and>
     monitor_loop 0 [RecoveryTick 20 sample_seen sample_seen] (rt_mon sample_start) = (ess, rt_mon s) \<and>
     serve insertion_sort id (sample_env sample_fs) inputs sample_fo world0 = Some (rt_fo s, rt_world s) \<and>
     mset (received inputs) + {#sample_analysis sample_fs#} + mset (rt_senders s) = mset (spawned (concat ess))"
proof -
  from sample_busy obtain s where s: "rt_run insertion_sort id (sample_env sample_fs) 0 sample_start
       [MonInput (RecoveryTick 20 sample_seen sample_seen), FoReceives] s"
     "rt_pc s = FoBusy (sample_analysis sample_fs)" by blast
  from runtime_refines_loops[OF s(1)[unfolded sample_start_def]] obtain ess inputs where
    "monitor_loop 0 [RecoveryTick 20 sample_seen sample_seen] (rt_mon sample_start) = (ess, rt_mon s)"
    "serve insertion_sort id (sample_env sample_fs) inputs sample_fo world0 = Some (rt_fo s, rt_world s)"
    "mset (received inputs) + {#sample_analysis sample_fs#} + mset (rt_senders s) = mset (spawned (concat ess))"
    by (simp only: mon_inputs_def map_filter_simps in_progress_def sample_start_def rt_init_def s(2)) auto
  with s(2) show ?thesis by blast
qed



text \<open>Once the failover has taken its stop it sends nothing more and receives nothing more: the analyses
  still waiting, and those the monitor starts later, wait for ever.\<close>

theorem stopped_failover_silent:
  assumes "rt_step srt sha env start s FoStops s1" and "rt_run srt sha env start s1 acts s2"
  shows "rt_world s2 = rt_world s \<and> rt_fo s2 = rt_fo s \<and> (\<exists>more. rt_senders s2 = rt_senders s @ more)"
proof -
  have "rt_pc s1 = FoStopped" "rt_world s1 = rt_world s" "rt_fo s1 = rt_fo s" "rt_senders s1 = rt_senders s"
    using assms(1) by (auto elim: rt_step.cases)
  with stopped_run[OF assms(2)] show ?thesis by simp
qed

end
