(* ===== verification/Vshard_Query.thy ===== *)
theory Vshard_Query
  imports Vshard_Cluster Quorum_Elector
begin

text \<open>
  internal/vshard/cluster.go, lines 23 to 83: the two Lua programs the discovery sends to the
  instances, as functions of what they read on the server, and what the Go side understands of
  their answers.

  A Lua table is a map; where the program iterates over one with \<open>pairs\<close>, the order is that of
  an association list with distinct keys.  Log sequence numbers are integers: Lua keeps them exact
  in the range of \<open>int64\<close>.  How a server writes integers and arrays to the wire is the record
  \<open>lua_wire\<close> with the contract \<open>wire_contract\<close>; the CRC of the module \<open>digest\<close> is the record
  \<open>digest\<close>.
\<close>

section \<open>The replication query\<close>

text \<open>What \<open>box.info.replication\<close> says of one replica; the query adds \<open>lsn_behind_master\<close>.\<close>

record lua_downstream =
  ld_status :: string
  ld_vclock :: "(nat \<rightharpoonup> int) option"

record lua_replica =
  lr_id :: nat
  lr_uuid :: string
  lr_lsn :: int
  lr_upstream :: "Upstream option"
  lr_downstream :: "lua_downstream option"
  lr_lsn_behind_master :: "int option"

record box_info =
  bi_id :: nat
  bi_lsn :: int
  bi_replication :: "(nat \<times> lua_replica) list"

text \<open>The body of the loop over \<open>box.info.replication\<close>, for one replica \<open>r\<close>.\<close>

definition repl_entry :: "nat \<Rightarrow> int \<Rightarrow> lua_replica \<Rightarrow> lua_replica" where
  "repl_entry master_id master_lsn r =
     (case lr_downstream r of
        None \<Rightarrow> r
      | Some d \<Rightarrow>
          let lsn = (case ld_vclock d of
                       None \<Rightarrow> 0
                     | Some vclock \<Rightarrow> (case vclock master_id of Some n \<Rightarrow> n | None \<Rightarrow> 0))
          in r\<lparr>lr_lsn_behind_master := Some (master_lsn - lsn),
               lr_downstream := Some (d\<lparr>ld_vclock := None\<rparr>)\<rparr>)"

definition vshardBoxInfoQuery :: "box_info \<Rightarrow> (nat \<rightharpoonup> lua_replica)" where
  "vshardBoxInfoQuery box =
     fold (\<lambda>(i, r) repl. let r = repl_entry (bi_id box) (bi_lsn box) r in repl(lr_id r \<mapsto> r))
       (bi_replication box) Map.empty"

section \<open>The instance query\<close>

text \<open>A value of a replica's configuration; \<open>LuaOther\<close> is any other one, with its \<open>tostring\<close>.\<close>

datatype lua_value = LuaStr string | LuaBool bool | LuaInt int | LuaOther string

fun tostring :: "lua_value \<Rightarrow> string" where
  "tostring (LuaStr s) = s"
| "tostring (LuaBool b) = (if b then ''true'' else ''false'')"
| "tostring (LuaInt n) = Itoa n"
| "tostring (LuaOther s) = s"

record 'c digest =
  crc_new :: 'c
  crc_update :: "'c \<Rightarrow> string \<Rightarrow> 'c"
  crc_result :: "'c \<Rightarrow> nat"

type_synonym replica_cfg = "(string \<times> lua_value) list"
type_synonym shard_cfg = "(string \<times> replica_cfg) list"

text \<open>\<open>table.insert\<close> over \<open>pairs\<close> and \<open>table.sort\<close>: the keys of a table in ascending order.\<close>

definition sorted_keys :: "(string \<times> 'a) list \<Rightarrow> string list" where
  "sorted_keys t = sort (map fst t)"

text \<open>Indexing a table with one of its own keys, as both loops do.\<close>

definition index :: "(string \<times> 'a) list \<Rightarrow> string \<Rightarrow> 'a" where
  "index t k = the (map_of t k)"

definition fingerprint :: "'c digest \<Rightarrow> shard_cfg \<Rightarrow> nat" where
  "fingerprint digest shard_cfg =
     (let c = crc_new digest;
          c = fold (\<lambda>ik c.
                let c = crc_update digest c ik;
                    inst = index shard_cfg ik
                in fold (\<lambda>vk c. crc_update digest c (tostring (index inst vk))) (sorted_keys inst) c)
              (sorted_keys shard_cfg) c
      in crc_result digest c)"

record instance_box =
  ib_shard_cfg :: shard_cfg
  ib_storage :: StorageInfo
  ib_read_only :: bool

record lua_instance_info =
  li_storage :: StorageInfo
  li_read_only :: bool
  li_vshard_fingerprint :: nat

definition vshardInstanceInfoQuery :: "'c digest \<Rightarrow> instance_box \<Rightarrow> lua_instance_info" where
  "vshardInstanceInfoQuery digest box =
     \<lparr>li_storage = ib_storage box, li_read_only = ib_read_only box,
      li_vshard_fingerprint = fingerprint digest (ib_shard_cfg box)\<rparr>"

section \<open>The answers on the wire\<close>

record lua_wire =
  lw_int :: "int \<Rightarrow> ivalue"
  lw_array :: "(nat \<rightharpoonup> ivalue) \<Rightarrow> ivalue list"

text \<open>
  An integer arrives as a signed or an unsigned number of 64 bits.  A table with positive integer keys
  arrives as an array with nils in its gaps, unless it is excessively sparse: then the server sends
  a map.  The bounds are the server's defaults.
\<close>

definition dense :: "nat set \<Rightarrow> bool" where
  "dense K \<longleftrightarrow> finite K \<and> 0 \<notin> K \<and> (\<forall>k \<in> K. k \<le> 10 \<or> k \<le> 2 * card K)"

definition wire_contract :: "lua_wire \<Rightarrow> bool" where
  "wire_contract w \<longleftrightarrow>
     (\<forall>n. lw_int w n \<in> {VInt64 (word_of_int n), VUint64 (word_of_int n)}) \<and>
     (\<forall>m. dense (dom m) \<and> VNil \<notin> ran m \<longrightarrow>
        filter (\<lambda>t. t \<noteq> VNil) (lw_array w m) = map (the \<circ> m) (sorted_list_of_set (dom m)))"

definition wire_replica :: "lua_wire \<Rightarrow> lua_replica \<Rightarrow> ivalue" where
  "wire_replica w r = VMap
     ([(''id'', lw_int w (int (lr_id r))), (''uuid'', VStr (lr_uuid r)), (''lsn'', lw_int w (lr_lsn r))]
      @ (case lr_lsn_behind_master r of None \<Rightarrow> [] | Some n \<Rightarrow> [(''lsn_behind_master'', lw_int w n)])
      @ (case lr_upstream r of None \<Rightarrow> [] | Some u \<Rightarrow> [(''upstream'', encode_upstream u)])
      @ (case lr_downstream r of None \<Rightarrow> []
         | Some d \<Rightarrow> [(''downstream'', VMap [(''status'', VStr (ld_status d))])]))"

definition answer_box_info :: "lua_wire \<Rightarrow> box_info \<Rightarrow> ivalue list list" where
  "answer_box_info w box = [lw_array w (\<lambda>i. map_option (wire_replica w) (vshardBoxInfoQuery box i))]"

definition answer_instance_info :: "lua_instance_info \<Rightarrow> ivalue list list" where
  "answer_instance_info i = [[encode_info
     \<lparr>info_Readonly = li_read_only i, info_VShardFingerprint = of_nat (li_vshard_fingerprint i),
      info_StorageInfo = li_storage i\<rparr>]]"

text \<open>A wire that meets the contract.\<close>

definition plain_wire :: lua_wire where
  "plain_wire = \<lparr>lw_int = (\<lambda>n. VInt64 (word_of_int n)),
     lw_array = (\<lambda>m. map (\<lambda>i. case m i of Some v \<Rightarrow> v | None \<Rightarrow> VNil) [1..<Suc (Max (insert 0 (dom m)))])\<rparr>"

section \<open>Lemmas\<close>

subsection \<open>The fingerprint does not depend on the order of \<open>pairs\<close>\<close>

text \<open>The same table met in two orders: distinct keys, and the same entries.\<close>

definition table :: "(string \<times> 'a) list \<Rightarrow> bool" where
  "table t \<longleftrightarrow> distinct (map fst t)"

definition same_table :: "(string \<times> 'a) list \<Rightarrow> (string \<times> 'a) list \<Rightarrow> bool" where
  "same_table t t' \<longleftrightarrow> table t \<and> table t' \<and> set t = set t'"

definition same_cfg :: "shard_cfg \<Rightarrow> shard_cfg \<Rightarrow> bool" where
  "same_cfg cfg cfg' \<longleftrightarrow> table cfg \<and> table cfg' \<and> fst ` set cfg = fst ` set cfg' \<and>
     (\<forall>(k, c) \<in> set cfg. \<forall>(k', c') \<in> set cfg'. k = k' \<longrightarrow> same_table c c')"

lemma set_sorted_keys [simp]: "set (sorted_keys t) = fst ` set t"
  by (simp add: sorted_keys_def)

lemma sorted_keys_unique:
  "table t \<Longrightarrow> table t' \<Longrightarrow> fst ` set t = fst ` set t' \<Longrightarrow> sorted_keys t = sorted_keys t'"
  unfolding sorted_keys_def table_def
  by (rule sorted_distinct_set_unique) (simp_all only: sorted_sort distinct_sort set_sort set_map)

lemma index_eq: "table t \<Longrightarrow> (k, v) \<in> set t \<Longrightarrow> index t k = v"
  by (simp add: index_def table_def)

lemma index_same_table:
  "same_table t t' \<Longrightarrow> k \<in> fst ` set t \<Longrightarrow> index t k = index t' k"
  by (auto simp: same_table_def index_eq)

lemma index_same_cfg:
  assumes "same_cfg cfg cfg'" and "k \<in> fst ` set cfg"
  shows "same_table (index cfg k) (index cfg' k)"
proof -
  from assms(2) obtain c where "(k, c) \<in> set cfg" by auto
  moreover have "k \<in> fst ` set cfg'" using assms by (simp add: same_cfg_def)
  then obtain c' where "(k, c') \<in> set cfg'" by auto
  ultimately show ?thesis using assms(1) by (auto simp: same_cfg_def index_eq)
qed

lemma fold_attributes_same:
  assumes "same_table t t'"
  shows "fold (\<lambda>vk c. upd c (tostring (index t vk))) (sorted_keys t) c =
     fold (\<lambda>vk c. upd c (tostring (index t' vk))) (sorted_keys t') c"
proof -
  have k: "sorted_keys t' = sorted_keys t"
    using assms by (auto simp: same_table_def intro: sorted_keys_unique)
  show ?thesis unfolding k by (intro fold_cong refl) (simp add: index_same_table[OF assms])
qed

lemma fingerprint_same:
  assumes "same_cfg cfg cfg'"
  shows "fingerprint digest cfg = fingerprint digest cfg'"
proof -
  have k: "sorted_keys cfg' = sorted_keys cfg"
    by (rule sorted_keys_unique) (use assms in \<open>simp_all add: same_cfg_def\<close>)
  have "fold (\<lambda>vk c. crc_update digest c (tostring (index (index cfg ik) vk))) (sorted_keys (index cfg ik)) c =
      fold (\<lambda>vk c. crc_update digest c (tostring (index (index cfg' ik) vk))) (sorted_keys (index cfg' ik)) c"
    if "ik \<in> set (sorted_keys cfg)" for ik c
    by (rule fold_attributes_same) (use that in \<open>simp add: index_same_cfg[OF assms]\<close>)
  then show ?thesis
    unfolding fingerprint_def Let_def k by (intro arg_cong[of _ _ "crc_result digest"] fold_cong refl) auto
qed

subsection \<open>The answer of the replication query\<close>

lemma repl_entry_simps [simp]:
  "lr_id (repl_entry i n r) = lr_id r" "lr_uuid (repl_entry i n r) = lr_uuid r"
  "lr_lsn (repl_entry i n r) = lr_lsn r" "lr_upstream (repl_entry i n r) = lr_upstream r"
  by (simp_all add: repl_entry_def Let_def split: option.split)

text \<open>The entries of \<open>box.info.replication\<close> are kept under the id of their replica.\<close>

definition wf_replication :: "box_info \<Rightarrow> bool" where
  "wf_replication box \<longleftrightarrow> distinct (map fst (bi_replication box)) \<and>
     list_all (\<lambda>(i, r). lr_id r = i \<and> lr_lsn_behind_master r = None) (bi_replication box)"

abbreviation replicas :: "box_info \<Rightarrow> lua_replica list" where
  "replicas box \<equiv> map snd (bi_replication box)"

lemma wf_replication_ids:
  "wf_replication box \<Longrightarrow> map lr_id (replicas box) = map fst (bi_replication box)"
  by (auto simp: wf_replication_def list_all_iff)

lemma fold_insert_map:
  "distinct (map fst ers) \<Longrightarrow> list_all (\<lambda>(i, r). lr_id r = i) ers \<Longrightarrow>
   fold (\<lambda>(i, r) repl. let r = repl_entry m n r in repl(lr_id r \<mapsto> r)) ers M =
     M ++ (\<lambda>i. map_option (repl_entry m n) (map_of ers i))"
proof (induction ers arbitrary: M)
  case (Cons e ers)
  obtain i r where e: "e = (i, r)" by (cases e)
  with Cons.prems have "lr_id r = i" and i: "map_of ers i = None" by (auto simp: map_of_eq_None_iff)
  moreover have "M(i \<mapsto> repl_entry m n r) ++ (\<lambda>j. map_option (repl_entry m n) (map_of ers j)) =
      M ++ (\<lambda>j. map_option (repl_entry m n) (map_of (e # ers) j))"
    using e i by (auto simp: fun_eq_iff map_add_def split: option.splits)
  ultimately show ?case using Cons e by (simp add: Let_def fun_upd_def)
qed (simp add: map_add_def)

lemma vshardBoxInfoQuery_eq:
  "wf_replication box \<Longrightarrow> vshardBoxInfoQuery box =
     (\<lambda>i. map_option (repl_entry (bi_id box) (bi_lsn box)) (map_of (bi_replication box) i))"
  unfolding vshardBoxInfoQuery_def
  by (subst fold_insert_map) (auto simp: wf_replication_def list_all_iff)

lemma sorted_ids:
  assumes "wf_replication box"
  shows "sorted_list_of_set (fst ` set (bi_replication box)) = map lr_id (sort_key lr_id (replicas box))"
proof (rule sorted_distinct_set_unique)
  note ids = wf_replication_ids[OF assms]
  have "mset (map lr_id (sort_key lr_id (replicas box))) = mset (map fst (bi_replication box))"
    using ids by (metis mset_map mset_sort)
  then show "distinct (map lr_id (sort_key lr_id (replicas box)))"
    using assms unfolding wf_replication_def by (metis mset_eq_imp_distinct_iff)
  show "set (sorted_list_of_set (fst ` set (bi_replication box))) = set (map lr_id (sort_key lr_id (replicas box)))"
    using arg_cong[OF ids, of set] by (simp add: image_image)
qed simp_all

text \<open>What the Go side makes of one replica.\<close>

definition replica_lag :: "box_info \<Rightarrow> lua_replica \<Rightarrow> int" where
  "replica_lag box r =
     (case lr_downstream r of
        None \<Rightarrow> 0
      | Some d \<Rightarrow> bi_lsn box -
          (case ld_vclock d of
             None \<Rightarrow> 0
           | Some vclock \<Rightarrow> (case vclock (bi_id box) of Some n \<Rightarrow> n | None \<Rightarrow> 0)))"

definition reported :: "box_info \<Rightarrow> lua_replica \<Rightarrow> Instance" where
  "reported box r = zero_Instance\<lparr>inst_ID := of_nat (lr_id r), inst_UUID := lr_uuid r,
     inst_URI := (case lr_upstream r of None \<Rightarrow> '''' | Some u \<Rightarrow> removeUserInfo (up_Peer u)),
     inst_LSN := lr_lsn r, inst_LSNBehindMaster := replica_lag box r, inst_Upstream := lr_upstream r,
     inst_Downstream := map_option (\<lambda>d. \<lparr>down_Status = ld_status d\<rparr>) (lr_downstream r)\<rparr>"

definition lsns_in_range :: "box_info \<Rightarrow> lua_replica \<Rightarrow> bool" where
  "lsns_in_range box r \<longleftrightarrow> in_int64 (lr_lsn r) \<and> in_int64 (replica_lag box r)"

lemma getInt64_wire:
  "wire_contract w \<Longrightarrow> in_int64 n \<Longrightarrow> map_of dt k = Some (lw_int w n) \<Longrightarrow> getInt64 dt k = Inr n"
  unfolding wire_contract_def
  by (elim conjE allE[of _ n]) (auto simp: getInt64_def field_def sint_int64)

lemma getUInt64_wire:
  "wire_contract w \<Longrightarrow> map_of dt k = Some (lw_int w n) \<Longrightarrow> getUInt64 dt k = Inr (word_of_int n)"
  unfolding wire_contract_def
  by (elim conjE allE[of _ n]) (auto simp: getUInt64_def field_def)

lemma parse_wire_replica:
  assumes w: "wire_contract w" and b: "lsns_in_range box r" and n: "lr_lsn_behind_master r = None"
  shows "parse_replica (wire_replica w (repl_entry (bi_id box) (bi_lsn box) r)) = Inr (reported box r)"
proof -
  let ?r = "repl_entry (bi_id box) (bi_lsn box) r"
  obtain dt where dt: "wire_replica w ?r = VMap dt" by (simp add: wire_replica_def)
  note wire = dt[unfolded wire_replica_def ivalue.inject, symmetric]
  have id: "getUInt64 dt ''id'' = Inr (of_nat (lr_id r))"
    using w by (subst getUInt64_wire[of w _ _ "int (lr_id r)"]) (auto simp: wire)
  have lsn: "getInt64 dt ''lsn'' = Inr (lr_lsn r)"
    using w b by (intro getInt64_wire[of w]) (auto simp: wire lsns_in_range_def)
  have uuid: "getString dt ''uuid'' = Inr (lr_uuid r)"
    by (auto simp: wire getters)
  have up: "parseUpstream dt = Inr (lr_upstream r)"
    by (cases "lr_upstream r"; cases "lr_downstream ?r"; cases "lr_lsn_behind_master ?r")
      (auto simp: wire intro!: parseUpstream_encode parseUpstream_missing)
  have down: "parseDownstream dt = Inr (map_option (\<lambda>d. \<lparr>down_Status = ld_status d\<rparr>) (lr_downstream r))"
  proof (cases "lr_downstream r")
    case None
    then show ?thesis using n
      by (cases "lr_upstream r") (auto simp: wire repl_entry_def intro!: parseDownstream_missing)
  next
    case (Some d)
    have "map_of dt ''downstream'' = Some (VMap [(''status'', VStr (down_Status \<lparr>down_Status = ld_status d\<rparr>))])"
      using Some by (cases "lr_upstream r") (auto simp: wire repl_entry_def Let_def)
    from parseDownstream_encode[OF this] Some show ?thesis by simp
  qed
  have lag: "(if has_key dt ''lsn_behind_master'' then getInt64 dt ''lsn_behind_master'' else Inr 0) =
      Inr (replica_lag box r)"
  proof (cases "lr_downstream r")
    case None
    then show ?thesis using n
      by (cases "lr_upstream r") (auto simp: wire repl_entry_def has_key_def replica_lag_def)
  next
    case (Some d)
    then have m: "map_of dt ''lsn_behind_master'' = Some (lw_int w (replica_lag box r))"
      by (cases "lr_upstream r") (auto simp: wire repl_entry_def replica_lag_def Let_def)
    then show ?thesis using getInt64_wire[OF w _ m] b by (simp add: has_key_def lsns_in_range_def)
  qed
  show ?thesis
    unfolding dt parse_replica_def reported_def by (simp add: id uuid lsn up down lag)
qed

lemma parse_replicas_map:
  assumes "\<And>x. x \<in> set xs \<Longrightarrow> parse_replica (f x) = Inr (g x)" and "\<And>x. x \<in> set xs \<Longrightarrow> f x \<noteq> VNil"
  shows "parse_replicas (map f xs) = Inr (map g xs)"
  using assms
proof (induction xs)
  case (Cons x xs)
  then have "parse_replicas (f x # map f xs) =
      bindR (parse_replica (f x)) (\<lambda>inst. bindR (parse_replicas (map f xs)) (\<lambda>insts. Inr (inst # insts)))"
    by (cases "f x") simp_all
  with Cons show ?case by simp
qed simp

lemma ParseReplication_answer:
  assumes w: "wire_contract w" and wf: "wf_replication box" and d: "dense (fst ` set (bi_replication box))"
    and ne: "bi_replication box \<noteq> []" and b: "list_all (lsns_in_range box) (replicas box)"
  shows "ParseReplication (answer_box_info w box) =
     Inr (map (reported box) (sort_key lr_id (replicas box)))"
proof -
  let ?e = "repl_entry (bi_id box) (bi_lsn box)" and ?rs = "sort_key lr_id (replicas box)"
  let ?m = "\<lambda>i. map_option (wire_replica w) (vshardBoxInfoQuery box i)"
  have m: "?m = (\<lambda>i. map_option (wire_replica w \<circ> ?e) (map_of (bi_replication box) i))"
    using vshardBoxInfoQuery_eq[OF wf] by (simp add: option.map_comp)
  have dom: "dom ?m = fst ` set (bi_replication box)"
    unfolding m by (auto simp: dom_map_of_conv_image_fst[symmetric])
  have nil: "VNil \<notin> ran ?m" by (auto simp: m ran_def wire_replica_def)
  have entry: "map_of (bi_replication box) (lr_id r) = Some r" if "r \<in> set (replicas box)" for r
    using wf that by (force simp: wf_replication_def list_all_iff)
  have "filter (\<lambda>t. t \<noteq> VNil) (lw_array w ?m) = map (the \<circ> ?m) (sorted_list_of_set (dom ?m))"
    using w d nil unfolding wire_contract_def dom[symmetric] by blast
  also have "\<dots> = map (the \<circ> ?m) (map lr_id ?rs)" unfolding dom sorted_ids[OF wf] ..
  also have "\<dots> = map (wire_replica w \<circ> ?e) ?rs"
    unfolding map_map by (rule map_cong) (simp_all add: m entry)
  finally have f: "filter (\<lambda>t. t \<noteq> VNil) (lw_array w ?m) = map (wire_replica w \<circ> ?e) ?rs" .
  have "parse_replicas (map (wire_replica w \<circ> ?e) ?rs) = Inr (map (reported box) ?rs)"
    using wf b by (intro parse_replicas_map)
      (auto simp: wf_replication_def list_all_iff intro!: parse_wire_replica[OF w], simp add: wire_replica_def)
  with f have "parse_replicas (lw_array w ?m) = Inr (map (reported box) ?rs)"
    by (subst parse_replicas_gaps) simp
  moreover have "lw_array w ?m \<noteq> []" using f ne by (metis filter.simps(1) length_0_conv length_map length_sort map_is_Nil_conv)
  ultimately show ?thesis
    by (cases "lw_array w ?m") (simp_all add: ParseReplication_def answer_box_info_def)
qed

lemma set_master_URI_map:
  "distinct (map inst_UUID is) \<Longrightarrow>
   set_master_URI master is = map (\<lambda>i. if inst_UUID i = rip_UUID master then i\<lparr>inst_URI := rip_URI master\<rparr> else i) is"
proof (induction "is")
  case (Cons i "is")
  have "map (\<lambda>i. if inst_UUID i = rip_UUID master then i\<lparr>inst_URI := rip_URI master\<rparr> else i) is = is"
    if "rip_UUID master \<notin> inst_UUID ` set is"
    using that by (intro map_idI) (metis image_eqI)
  with Cons show ?case by (cases "inst_UUID i = rip_UUID master") simp_all
qed simp

lemma reported_simps [simp]:
  "inst_UUID (reported box r) = lr_uuid r" "inst_LSN (reported box r) = lr_lsn r"
  "inst_LSNBehindMaster (reported box r) = replica_lag box r"
  "inst_Upstream (reported box r) = lr_upstream r"
  "inst_URI (reported box r) = (case lr_upstream r of None \<Rightarrow> '''' | Some u \<Rightarrow> removeUserInfo (up_Peer u))"
  by (simp_all add: reported_def)

lemma dense_small: "finite K \<Longrightarrow> 0 \<notin> K \<Longrightarrow> (\<And>k. k \<in> K \<Longrightarrow> k \<le> 10) \<Longrightarrow> dense K"
  by (auto simp: dense_def)

lemma plain_wire_contract: "wire_contract plain_wire"
proof -
  have "filter (\<lambda>t. t \<noteq> VNil) (lw_array plain_wire m) = map (the \<circ> m) (sorted_list_of_set (dom m))"
    if d: "dense (dom m)" and n: "VNil \<notin> ran m" for m
  proof -
    let ?xs = "[1..<Suc (Max (insert 0 (dom m)))]"
    let ?f = "\<lambda>i. case m i of Some v \<Rightarrow> v | None \<Rightarrow> VNil"
    have fin: "finite (dom m)" and z: "0 \<notin> dom m" using d by (simp_all add: dense_def)
    have nil: "?f i \<noteq> VNil \<longleftrightarrow> i \<in> dom m" for i
      using n by (auto simp: ran_def split: option.split)
    have "set (filter (\<lambda>i. i \<in> dom m) ?xs) = dom m"
    proof -
      have "i \<in> set ?xs" if "i \<in> dom m" for i
      proof -
        have "i \<le> Max (insert 0 (dom m))" using that fin by (intro Max_ge) auto
        moreover have "0 < i" using that z by (cases i) auto
        ultimately show ?thesis by (simp only: set_upt atLeastLessThan_iff less_Suc_eq_le One_nat_def Suc_le_eq)
      qed
      then show ?thesis by auto
    qed
    moreover have "sorted (filter (\<lambda>i. i \<in> dom m) ?xs)" by (intro sorted_wrt_filter sorted_upt)
    ultimately have "sorted_list_of_set (dom m) = filter (\<lambda>i. i \<in> dom m) ?xs"
      using fin by (intro sorted_distinct_set_unique) simp_all
    moreover have "filter (\<lambda>t. t \<noteq> VNil) (map ?f ?xs) = map ?f (filter (\<lambda>i. i \<in> dom m) ?xs)"
      by (simp only: filter_map comp_def nil)
    moreover have "map ?f (filter (\<lambda>i. i \<in> dom m) ?xs) = map (the \<circ> m) (filter (\<lambda>i. i \<in> dom m) ?xs)"
      by (rule map_cong) auto
    ultimately show ?thesis by (simp add: plain_wire_def)
  qed
  then show ?thesis by (simp add: wire_contract_def plain_wire_def)
qed

section \<open>Properties\<close>

text \<open>C9: what a discovery learns from a master that answers the replication query: one instance per entry
  of \<open>box.info.replication\<close>, in the order of the ids, with its upstream, and with the
  number of operations it is behind, which is that of the master less the one the master knows the
  replica to have; 0 for a replica the master has no downstream to.  The URI of the master itself
  is the one the router knows.\<close>

theorem replication_discovered:
  assumes "wire_contract w" and "wf_replication box" and "dense (fst ` set (bi_replication box))"
    and "bi_replication box \<noteq> []" and "list_all (lsns_in_range box) (replicas box)"
    and "distinct (map lr_uuid (replicas box))"
    and "rip_Status master = InstanceAvailable" and "res_Error (exec (rip_URI master)) = None"
    and "res_Data (exec (rip_URI master)) = answer_box_info w box"
  shows "\<exists>topology. discoverReplication exec master = Inr topology \<and>
    list_all2 (\<lambda>r inst. inst_UUID inst = lr_uuid r \<and> inst_LSN inst = lr_lsn r \<and>
        inst_Upstream inst = lr_upstream r \<and>
        inst_LSNBehindMaster inst =
          (case lr_downstream r of
             None \<Rightarrow> 0
           | Some d \<Rightarrow> bi_lsn box -
               (case ld_vclock d of
                  None \<Rightarrow> 0
                | Some vclock \<Rightarrow> (case vclock (bi_id box) of Some n \<Rightarrow> n | None \<Rightarrow> 0))) \<and>
        inst_URI inst =
          (if lr_uuid r = rip_UUID master then rip_URI master
           else case lr_upstream r of None \<Rightarrow> '''' | Some u \<Rightarrow> removeUserInfo (up_Peer u)))
      (sort_key lr_id (replicas box)) topology"
proof -
  let ?rs = "sort_key lr_id (replicas box)"
  let ?set = "\<lambda>i. if inst_UUID i = rip_UUID master then i\<lparr>inst_URI := rip_URI master\<rparr> else i"
  have "mset (map lr_uuid ?rs) = mset (map lr_uuid (replicas box))" by (metis mset_map mset_sort)
  with assms(6) have "distinct (map lr_uuid ?rs)" by (metis mset_eq_imp_distinct_iff)
  then have "distinct (map inst_UUID (map (reported box) ?rs))" by (simp add: comp_def)
  then have "discoverReplication exec master = Inr (map ?set (map (reported box) ?rs))"
    using ParseReplication_answer[OF assms(1-5)] assms(7-9)
    by (simp add: discoverReplication_def Let_def set_master_URI_map)
  then show ?thesis
    by (auto simp: list_all2_map2 replica_lag_def intro!: list_all2_refl)
qed

text \<open>C10: instances that hold the same configuration of their shard get the same fingerprint, in whatever
  order Lua iterates over its tables.\<close>

theorem same_config_same_fingerprint:
  assumes "same_cfg (ib_shard_cfg box) (ib_shard_cfg box')"
    and "res_Error (exec (inst_URI a)) = None" and "res_Error (exec' (inst_URI b)) = None"
    and "res_Data (exec (inst_URI a)) = answer_instance_info (vshardInstanceInfoQuery digest box)"
    and "res_Data (exec' (inst_URI b)) = answer_instance_info (vshardInstanceInfoQuery digest box')"
    and "wf_info \<lparr>info_Readonly = False, info_VShardFingerprint = 0, info_StorageInfo = ib_storage box\<rparr>"
    and "wf_info \<lparr>info_Readonly = False, info_VShardFingerprint = 0, info_StorageInfo = ib_storage box'\<rparr>"
  shows "inst_LastCheckValid (discoverInstance exec a) \<and> inst_LastCheckValid (discoverInstance exec' b) \<and>
    inst_Readonly (discoverInstance exec a) = ib_read_only box \<and>
    inst_StorageInfo (discoverInstance exec a) = ib_storage box \<and>
    inst_VShardFingerprint (discoverInstance exec a) = inst_VShardFingerprint (discoverInstance exec' b)"
proof -
  have d: "discoverInstance e i = i\<lparr>inst_Readonly := ib_read_only x, inst_StorageInfo := ib_storage x,
      inst_VShardFingerprint := of_nat (fingerprint digest (ib_shard_cfg x)), inst_LastCheckValid := True\<rparr>"
    if "res_Error (e (inst_URI i)) = None"
      and "res_Data (e (inst_URI i)) = answer_instance_info (vshardInstanceInfoQuery digest x)"
      and "wf_info \<lparr>info_Readonly = False, info_VShardFingerprint = 0, info_StorageInfo = ib_storage x\<rparr>"
    for e i x
  proof -
    have "wf_info \<lparr>info_Readonly = ib_read_only x, info_VShardFingerprint = of_nat (fingerprint digest (ib_shard_cfg x)),
        info_StorageInfo = ib_storage x\<rparr>"
      using that(3) by (simp add: wf_info_def)
    from ParseInstanceInfo_encode[OF this, of "[]" "[]"] that(1,2) show ?thesis
      by (simp add: discoverInstance_def answer_instance_info_def vshardInstanceInfoQuery_def Let_def)
  qed
  show ?thesis
    using d[of exec a box, OF assms(2,4,6)] d[of exec' b box', OF assms(3,5,7)] fingerprint_same[OF assms(1), of digest] by simp
qed

section \<open>A master with a follower it has lost\<close>

text \<open>
  The master \<open>m\<close> has 1000 operations.  Follower \<open>a\<close> has received 999 of them.  Follower \<open>b\<close> still
  sends to the master but no longer receives from it, so the master has no downstream to it and
  cannot know how far it is behind.
\<close>

definition sample_upstream :: "string \<Rightarrow> Upstream" where
  "sample_upstream peer = \<lparr>up_Peer = peer, up_Status = UpstreamFollow, up_Idle = FFin 0, up_Lag = FFin 0, up_Message = ''''\<rparr>"

definition sample_box :: box_info where
  "sample_box = \<lparr>bi_id = 1, bi_lsn = 1000, bi_replication =
     [(2, \<lparr>lr_id = 2, lr_uuid = ''a'', lr_lsn = 0, lr_upstream = Some (sample_upstream ''a:1''),
        lr_downstream = Some \<lparr>ld_status = ''follow'', ld_vclock = Some [1 \<mapsto> 999]\<rparr>, lr_lsn_behind_master = None\<rparr>),
      (1, \<lparr>lr_id = 1, lr_uuid = ''m'', lr_lsn = 1000, lr_upstream = None, lr_downstream = None,
        lr_lsn_behind_master = None\<rparr>),
      (3, \<lparr>lr_id = 3, lr_uuid = ''b'', lr_lsn = 0, lr_upstream = Some (sample_upstream ''b:1''),
        lr_downstream = None, lr_lsn_behind_master = None\<rparr>)]\<rparr>"

definition sample_router_master :: RouterInstanceParameters where
  "sample_router_master = \<lparr>rip_UUID = ''m'', rip_Status = InstanceAvailable, rip_URI = ''m:1'', rip_NetworkTimeout = FFin 0\<rparr>"

definition sample_answer :: "string \<Rightarrow> tnt_result" where
  "sample_answer uri = \<lparr>res_Error = None, res_ErrorCode = 0, res_Data = answer_box_info plain_wire sample_box\<rparr>"

lemma sample_box_ok:
  "wf_replication sample_box" "dense (fst ` set (bi_replication sample_box))" "bi_replication sample_box \<noteq> []"
  "list_all (lsns_in_range sample_box) (replicas sample_box)" "distinct (map lr_uuid (replicas sample_box))"
  by (auto simp: sample_box_def wf_replication_def lsns_in_range_def in_int64_def replica_lag_def intro!: dense_small)

theorem replication_discovered_witness:
  "\<exists>topology. discoverReplication sample_answer sample_router_master = Inr topology \<and>
     map inst_UUID topology = [''m'', ''a'', ''b''] \<and> map inst_LSNBehindMaster topology = [0, 1, 0] \<and>
     map inst_URI topology = [''m:1'', ''a:1'', ''b:1'']"
proof -
  have s: "sort_key lr_id (replicas sample_box) =
      [snd (bi_replication sample_box ! 1), snd (bi_replication sample_box ! 0), snd (bi_replication sample_box ! 2)]"
    by (simp add: sample_box_def)
  from replication_discovered[OF plain_wire_contract sample_box_ok, of sample_router_master sample_answer] show ?thesis
    unfolding s
    by (auto simp: sample_router_master_def sample_answer_def list_all2_Cons1 sample_box_def
        sample_upstream_def removeUserInfo_none)
qed

definition sample_digest :: "string digest" where
  "sample_digest = \<lparr>crc_new = '''', crc_update = (\<lambda>c s. c @ s), crc_result = size\<rparr>"

definition sample_instance_box :: "shard_cfg \<Rightarrow> instance_box" where
  "sample_instance_box cfg = \<lparr>ib_shard_cfg = cfg, ib_storage = zero_StorageInfo, ib_read_only = True\<rparr>"

abbreviation sample_cfg :: "bool \<Rightarrow> shard_cfg" where
  "sample_cfg flip \<equiv> (if flip then rev else id)
     [(''a'', [(''uri'', LuaStr ''a:1''), (''name'', LuaStr ''a'')]), (''m'', [(''name'', LuaStr ''m''), (''master'', LuaBool True)])]"

theorem same_config_same_fingerprint_witness:
  "let ask = (\<lambda>cfg uri. \<lparr>res_Error = None, res_ErrorCode = 0, res_Data =
         answer_instance_info (vshardInstanceInfoQuery sample_digest (sample_instance_box cfg))\<rparr>)
   in inst_VShardFingerprint (discoverInstance (ask (sample_cfg False)) zero_Instance) =
      inst_VShardFingerprint (discoverInstance (ask (sample_cfg True)) zero_Instance)"
  unfolding Let_def
  by (intro conjunct2[OF conjunct2[OF conjunct2[OF conjunct2[OF same_config_same_fingerprint[where
        digest = sample_digest and box = "sample_instance_box (sample_cfg False)" and
        box' = "sample_instance_box (sample_cfg True)"]]]]])
    (simp_all add: sample_instance_box_def same_cfg_def same_table_def table_def wf_info_def Let_def
      zero_StorageInfo_def zero_InstanceBucket_def in_int64_def insert_commute)

text \<open>C36: a follower the master has no downstream to counts as one without lag: it passes every limit on the
  lag, and the smart elector prefers it to a follower that is known to have all but one operation.\<close>

theorem lost_follower_elected:
  assumes "0 < lag" and "discoverReplication sample_answer sample_router_master = Inr topology"
  shows "smart_ChooseMaster insertion_sort \<lparr>ReasonableFollowerLSNLag = lag, ReasonableFollowerIdle = f64_of_int 0\<rparr>
     \<lparr>set_UUID = ''s'', set_MasterUUID = ''m'', set_MasterURI = ''m:1'',
      set_Instances = map (inst_LastCheckValid_update (\<lambda>_. True)) topology\<rparr> = Some (Inr ''b'')"
proof -
  have "sort_key lr_id (replicas sample_box) =
      [snd (bi_replication sample_box ! 1), snd (bi_replication sample_box ! 0), snd (bi_replication sample_box ! 2)]"
    by (simp add: sample_box_def)
  with ParseReplication_answer[OF plain_wire_contract sample_box_ok(1-4)] assms(2)
  have "topology = set_master_URI sample_router_master (map (reported sample_box)
      [snd (bi_replication sample_box ! 1), snd (bi_replication sample_box ! 0), snd (bi_replication sample_box ! 2)])"
    by (auto simp: discoverReplication_def sample_answer_def sample_router_master_def)
  with assms(1) show ?thesis
    by (simp add: sample_router_master_def reported_def sample_box_def replica_lag_def sample_upstream_def
        smart_ChooseMaster_def filter_candidates_def AliveFollowers_eq alive_follower_def admissible_def
        zero_Instance_def Master_def insertion_sort_def smart_less_def Let_def)
qed

theorem lost_follower_elected_witness:
  "\<exists>topology. discoverReplication sample_answer sample_router_master = Inr topology \<and>
     smart_ChooseMaster insertion_sort \<lparr>ReasonableFollowerLSNLag = 10, ReasonableFollowerIdle = f64_of_int 0\<rparr>
       \<lparr>set_UUID = ''s'', set_MasterUUID = ''m'', set_MasterURI = ''m:1'',
        set_Instances = map (inst_LastCheckValid_update (\<lambda>_. True)) topology\<rparr> = Some (Inr ''b'')"
proof -
  have "\<exists>topology. discoverReplication sample_answer sample_router_master = Inr topology"
    using ParseReplication_answer[OF plain_wire_contract sample_box_ok(1-4)]
    by (simp add: discoverReplication_def sample_answer_def sample_router_master_def)
  with lost_follower_elected[of 10] show ?thesis by auto
qed

end
