(* ===== verification/Failover_Run.thy ===== *)
theory Failover_Run
  imports Failover_Safety
begin

text \<open>
  What holds over a whole run of the failover loop: the count of interactions only grows, the
  trace is only extended, an entry of the registry stays until it expires, and which queries
  and which registrations a reaction to an analysis can add.
\<close>

section \<open>Interactions are counted\<close>

lemma exec_instances_io: "w_io w \<le> w_io (exec_instances env lua c insts w)"
proof (induction insts arbitrary: w)
  case (Cons i insts)
  obtain ok w1 where q: "exec_query env (inst_URI i) lua w = (ok, w1)" by (cases "exec_query env (inst_URI i) lua w")
  then have "w_io w1 = Suc (w_io w)" by (auto simp: exec_query_def Let_def)
  with Cons[of w1] Cons[of w] q show ?case by simp
qed simp

lemma promote_elected_io:
  assumes "promote_elected srt env badSet c recv w = Some (recs, w')"
  shows "w_io w \<le> w_io w'"
proof -
  obtain inst where i: "inst = (case Cluster_Instance (env_cluster env (w_io w)) c of Inr i \<Rightarrow> i | Inl _ \<Rightarrow> zero_Instance)"
    by simp
  obtain ok w1 where q: "exec_query env (inst_URI inst) (generateRecoveryLua (set_UUID badSet) c) (tick w) = (ok, w1)"
    by (cases "exec_query env (inst_URI inst) (generateRecoveryLua (set_UUID badSet) c) (tick w)")
  then have "w_io w \<le> w_io w1" by (auto simp: exec_query_def Let_def)
  moreover have "w_io w1 \<le> w_io (exec_instances env lua c insts (tick (exec_routers env lua routers (tick w1))))"
    for lua routers insts
    using exec_routers_io[of "tick w1" env lua routers]
      exec_instances_io[of "tick (exec_routers env lua routers (tick w1))" env lua c insts] by simp
  ultimately have "w_io w \<le> Suc (w_io (exec_instances env lua c insts (tick (exec_routers env lua routers (tick w1)))))"
    for lua routers insts
    by (meson le_SucI order_trans)
  with \<open>w_io w \<le> w_io w1\<close> show ?thesis
    using assms q unfolding promote_elected_def i[symmetric]
    by (auto simp: Let_def return_recovery_result split: option.splits bool.splits if_splits)
qed

lemma promote_io:
  assumes "promoteFollowerToMaster srt env f a w = Some (recs, w')"
  shows "w_io (snd (hasBlockedRecovery env (fo_recoveries f) (set_UUID (an_Set a)) w)) \<le> w_io w'"
proof -
  obtain b w1 where h: "hasBlockedRecovery env (fo_recoveries f) (set_UUID (an_Set a)) w = (b, w1)"
    by (cases "hasBlockedRecovery env (fo_recoveries f) (set_UUID (an_Set a)) w")
  show ?thesis
  proof (cases b)
    case True
    with assms h show ?thesis by (auto simp: promote_unfold)
  next
    case False
    let ?r = "started env RecoveryScopeSet (Ident (Master_or_zero (an_Set a))) a
      (fo_recvSetTTL f) (fo_clusterName f) (w_io w1)"
    obtain err w2 where e: "ExecuteProcesses env (fo_hooker f) HookPreFailover ?r True (tick (tick w1)) = (err, w2)"
      by (cases "ExecuteProcesses env (fo_hooker f) HookPreFailover ?r True (tick (tick w1))")
    have io: "w_io w1 \<le> w_io w2" using ExecuteProcesses_frame(1)[OF e] by simp
    have stop: "w_io w1 \<le> w_io w'" if "Some (return_recovery env ?r w2) = Some (recs, w')"
      using that io by (auto simp: return_recovery_result)
    show ?thesis
      using assms h False e stop io
      by (auto simp: promote_unfold Let_def dest: promote_elected_io split: if_splits option.splits sum.splits
          intro: order_trans)
  qed
qed

lemma demote_io: "demote env f a lua inst w = (r, w') \<Longrightarrow> w_io w \<le> w_io w'"
proof -
  assume d: "demote env f a lua inst w = (r, w')"
  let ?r = "(started env RecoveryScopeInstance (Ident inst) a (fo_recvInstanceTTL f) [] (w_io w))
    \<lparr>rv_ClusterName := fo_clusterName f, rv_Successor := Ident inst\<rparr>"
  obtain err w2 where e: "ExecuteProcesses env (fo_hooker f) HookPreFailover ?r True (tick (tick w)) = (err, w2)"
    by (cases "ExecuteProcesses env (fo_hooker f) HookPreFailover ?r True (tick (tick w))")
  have "w_io w \<le> w_io w2" using ExecuteProcesses_frame(1)[OF e] by simp
  then show ?thesis
    using d e unfolding demote_def Let_def start_steps(1,2) prod.case
    by (auto simp: Timestamp_def exec_query_def Let_def split: if_splits)
qed

lemma demote_loop_io: "demote_loop env f a lua m fs recs w = (recs', w') \<Longrightarrow> w_io w \<le> w_io w'"
proof (induction fs arbitrary: recs w)
  case (Cons i fs)
  obtain b w1 where h: "hasBlockedRecovery env (fo_recoveries f) (inst_UUID i) w = (b, w1)"
    by (cases "hasBlockedRecovery env (fo_recoveries f) (inst_UUID i) w")
  obtain r w2 where d: "demote env f a lua i w1 = (r, w2)" by (cases "demote env f a lua i w1")
  have "w_io w \<le> w_io w1" "w_io w1 \<le> w_io w2" using hasBlockedRecovery_frame[OF h] demote_io[OF d] by simp_all
  with Cons h d show ?case by (auto split: if_splits intro: order_trans)
qed simp

lemma run_recovery_io:
  "run_recovery srt env f rf a w = Some (recs, w') \<Longrightarrow> w_io w \<le> w_io w'"
proof (cases rf)
  case PromoteFollowerToMaster
  moreover have "w_io w \<le> w_io (snd (hasBlockedRecovery env (fo_recoveries f) (set_UUID (an_Set a)) w))"
    using hasBlockedRecovery_frame by (metis prod.collapse)
  moreover assume "run_recovery srt env f rf a w = Some (recs, w')"
  ultimately show ?thesis using promote_io by (fastforce simp: run_recovery_def)
next
  case ApplyFollowerRoleToCoMasters
  moreover assume "run_recovery srt env f rf a w = Some (recs, w')"
  ultimately show ?thesis
    by (auto simp: run_recovery_def applyFollowerRoleToCoMasters_def Let_def dest: demote_loop_io)
qed

text \<open>What a reaction keeps and extends.\<close>

lemma checkAndRecover_frame:
  assumes "checkAndRecover srt sha env a f w = Some (f', w')"
  shows "w_io w \<le> w_io w' \<and> fo_elector f' = fo_elector f \<and> fo_recvSetTTL f' = fo_recvSetTTL f \<and>
    (\<exists>es. w_trace w' = w_trace w @ es)"
  using assms
proof (cases rule: checkAndRecover_cases)
  case (recovered rf w0 recs w1)
  from run_recovery_events[OF recovered(5)] obtain es where "w_trace w1 = w_trace w0 @ es" .
  with recovered run_recovery_io[OF recovered(5)] show ?thesis by auto
qed auto

section \<open>One input of the loop\<close>

lemma serve_one_cases:
  assumes "serve_one srt sha env input f w = Some (f', w')"
  obtains (cleaned) alive where "input = CleanupTick" "cleanup env False (fo_recoveries f) w = (alive, w')"
      "f' = f\<lparr>fo_recoveries := alive\<rparr>"
  | (skipped) a where "input = AnalysisReceived a" "f' = f" "w' = tick w"
  | (handled) a where "input = AnalysisReceived a" "checkAndRecover srt sha env a f (tick w) = Some (f', w')"
proof (cases input)
  case CleanupTick
  obtain alive w1 where "cleanup env False (fo_recoveries f) w = (alive, w1)"
    by (cases "cleanup env False (fo_recoveries f) w")
  with CleanupTick assms show ?thesis by (intro cleaned[of alive]) (auto simp: serve_one_def)
next
  case (AnalysisReceived a)
  show ?thesis
  proof (cases "shouldBeAnalysisChecked env w")
    case True
    with AnalysisReceived assms show ?thesis by (intro handled[of a]) (simp_all add: serve_one_def)
  next
    case False
    with AnalysisReceived assms show ?thesis by (intro skipped[of a]) (simp_all add: serve_one_def)
  qed
qed

lemma alive_recoveries_io: "alive_recoveries env rs w = (alive, w') \<Longrightarrow> w_io w \<le> w_io w'"
proof (induction rs arbitrary: w alive w')
  case (Cons b rs)
  obtain alive1 w1 where r: "alive_recoveries env rs (tick w) = (alive1, w1)"
    by (cases "alive_recoveries env rs (tick w)")
  with Cons.prems Cons.IH[OF r] show ?case
    by (auto simp: Expired_def Timestamp_def Let_def)
qed simp

lemma cleanup_frame:
  assumes "cleanup env False rs w = (alive, w')"
  shows "w_trace w' = w_trace w \<and> w_io w \<le> w_io w'"
  using assms alive_recoveries_subset[of env rs w alive w'] alive_recoveries_io[of env rs w alive w']
  by (auto simp: cleanup_def split: if_splits)

lemma serve_one_frame:
  assumes "serve_one srt sha env input f w = Some (f', w')"
  shows "w_io w \<le> w_io w' \<and> fo_elector f' = fo_elector f \<and> fo_recvSetTTL f' = fo_recvSetTTL f \<and>
    (\<exists>es. w_trace w' = w_trace w @ es)"
  using assms
proof (cases rule: serve_one_cases)
  case (cleaned alive)
  with cleanup_frame[OF cleaned(2)] show ?thesis by simp
next
  case (handled a)
  from checkAndRecover_frame[OF handled(2)] show ?thesis by auto
qed auto

lemma serve_frame:
  "serve srt sha env inputs f w = Some (f', w') \<Longrightarrow>
   w_io w \<le> w_io w' \<and> fo_elector f' = fo_elector f \<and> (\<exists>es. w_trace w' = w_trace w @ es)"
proof (induction inputs arbitrary: f w)
  case (Cons input inputs)
  then obtain f1 w1 where o: "serve_one srt sha env input f w = Some (f1, w1)"
    "serve srt sha env inputs f1 w1 = Some (f', w')"
    by (auto simp: bind_eq_Some_conv)
  from serve_one_frame[OF o(1)] Cons.IH[OF o(2)] show ?case by auto
qed simp

text \<open>A property of the new part of the trace holds of a run when it holds of every step.\<close>

lemma serve_new_events:
  assumes "serve srt sha env inputs f w = Some (f', w')" and "I f w"
    and "\<And>input f w f' w'. input \<in> set inputs \<Longrightarrow> serve_one srt sha env input f w = Some (f', w') \<Longrightarrow> I f w \<Longrightarrow>
      w_io w' \<le> n \<Longrightarrow> I f' w' \<and> (\<forall>e \<in> set (drop (length (w_trace w)) (w_trace w')). P e)"
    and "w_io w' \<le> n"
  shows "\<forall>e \<in> set (drop (length (w_trace w)) (w_trace w')). P e"
  using assms
proof (induction inputs arbitrary: f w)
  case (Cons input inputs)
  from Cons.prems(1) obtain f1 w1 where o: "serve_one srt sha env input f w = Some (f1, w1)"
    "serve srt sha env inputs f1 w1 = Some (f', w')"
    by (auto simp: bind_eq_Some_conv)
  from serve_one_frame[OF o(1)] obtain es where es: "w_trace w1 = w_trace w @ es" by blast
  from serve_frame[OF o(2)] obtain es' where es': "w_trace w' = w_trace w1 @ es'" and io: "w_io w1 \<le> w_io w'"
    by blast
  have s: "I f1 w1 \<and> (\<forall>e \<in> set (drop (length (w_trace w)) (w_trace w1)). P e)"
    using Cons.prems(3)[OF _ o(1) Cons.prems(2)] io Cons.prems(4) by simp
  have "\<forall>e \<in> set (drop (length (w_trace w1)) (w_trace w')). P e"
  proof (rule Cons.IH[OF o(2)])
    show "I f1 w1" using s by simp
    show "w_io w' \<le> n" by (rule Cons.prems(4))
  qed (rule Cons.prems(3); simp)
  with s es es' show ?case by auto
qed simp

section \<open>Which queries a reaction sends\<close>

lemma exec_in_queries: "EvExec u l ok \<in> set es \<longleftrightarrow> (u, l, ok) \<in> set (queries es)"
  by (induction es rule: queries.induct) auto

lemma exec_events_lua: "exec_events lua us es \<Longrightarrow> EvExec u l ok \<in> set es \<Longrightarrow> l = lua"
  unfolding exec_events_def by (induction rule: list_all2_induct) auto

lemma promotion_execs_lua:
  "promotion_execs srt env lua c n b es \<Longrightarrow> EvExec u l ok \<in> set es \<Longrightarrow> l = lua"
  by (induction rule: promotion_execs.induct) (auto dest: exec_events_lua)

lemma demoted_exec:
  "demoted f lua insts rs es \<Longrightarrow> EvExec u l ok \<in> set es \<Longrightarrow> l = lua \<and> (\<exists>i \<in> set insts. u = inst_URI i)"
proof (induction rule: demoted.induct)
  case (demoted_cons r inst r0 hooks es insts rs rest)
  from queries_pre_hooks[OF demoted_cons.hyps(3)] have "EvExec u l ok \<notin> set hooks"
    by (simp add: exec_in_queries)
  with demoted_cons show ?case by auto
qed simp

lemma subseq_members: "subseq xs ys \<Longrightarrow> set xs \<subseteq> set ys"
  by (induction rule: list_emb.induct) auto

lemma run_recovery_queries:
  assumes "run_recovery srt env f rf a w = Some (recs, w')" and "w_trace w' = w_trace w @ es"
    and "EvExec u l ok \<in> set es"
  shows "case rf of
      PromoteFollowerToMaster \<Rightarrow> \<exists>c. fo_elector f (an_Set a) = Some (Inr c) \<and>
        l = generateRecoveryLua (set_UUID (an_Set a)) c
    | ApplyFollowerRoleToCoMasters \<Rightarrow>
        l = generateRecoveryLua (set_UUID (an_Set a)) (set_MasterUUID (an_Set a)) \<and>
        (\<exists>i \<in> set (Followers (an_Set a)). u = inst_URI i \<and>
           inst_VShardFingerprint i \<noteq> inst_VShardFingerprint (Master_or_zero (an_Set a)))"
proof (cases rf)
  case PromoteFollowerToMaster
  with assms(1) have "promoteFollowerToMaster srt env f a w = Some (recs, w')" by (simp add: run_recovery_def)
  then show ?thesis
  proof (cases rule: promote_result)
    case blocked
    with assms(2,3) show ?thesis by simp
  next
    case (attempted n r hooks es')
    from queries_pre_hooks[OF attempted(7)] have "EvExec u l ok \<notin> set hooks" by (simp add: exec_in_queries)
    with assms(2,3) attempted(6) have "EvExec u l ok \<in> set es'" by auto
    with attempted(8) PromoteFollowerToMaster show ?thesis by (auto dest: promotion_execs_lua)
  qed
next
  case ApplyFollowerRoleToCoMasters
  let ?lua = "generateRecoveryLua (set_UUID (an_Set a)) (set_MasterUUID (an_Set a))"
  from assms(1) ApplyFollowerRoleToCoMasters have
    d: "demote_loop env f a ?lua (Master_or_zero (an_Set a)) (Followers (an_Set a)) [] w = (recs, w')"
    by (simp add: run_recovery_def applyFollowerRoleToCoMasters_def Let_def)
  show ?thesis
  proof (rule demote_loop_result[OF d])
    fix rs insts es'
    assume r: "demoted f ?lua insts rs es'" "w_trace w' = w_trace w @ es'"
      "subseq insts (filter (\<lambda>i. inst_VShardFingerprint i \<noteq>
         inst_VShardFingerprint (Master_or_zero (an_Set a))) (Followers (an_Set a)))"
    have sub: "set insts \<subseteq> set (filter (\<lambda>i. inst_VShardFingerprint i \<noteq>
         inst_VShardFingerprint (Master_or_zero (an_Set a))) (Followers (an_Set a)))"
      using r(3) by (rule subseq_members)
    from r(2) assms(2,3) have "EvExec u l ok \<in> set es'" by simp
    from demoted_exec[OF r(1) this] sub ApplyFollowerRoleToCoMasters show ?thesis by auto
  qed
qed

lemma post_events_no_exec [simp]: "EvExec u l ok \<notin> set (post_events f r)"
  by (auto simp: post_events_def hook_event_def Let_def case_prod_beta split: if_splits)

lemma checkAndRecover_queries:
  assumes "checkAndRecover srt sha env a f w = Some (f', w')"
    and "EvExec u l ok \<in> set (drop (length (w_trace w)) (w_trace w'))"
  shows "(an_State a \<in> {DeadMaster, DeadMasterAndSomeFollowers} \<and>
      (\<exists>c. fo_elector f (an_Set a) = Some (Inr c) \<and> l = generateRecoveryLua (set_UUID (an_Set a)) c)) \<or>
    (an_State a = MasterMasterReplication \<and>
      l = generateRecoveryLua (set_UUID (an_Set a)) (set_MasterUUID (an_Set a)) \<and>
      (\<exists>i \<in> set (Followers (an_Set a)). u = inst_URI i \<and>
         inst_VShardFingerprint i \<noteq> inst_VShardFingerprint (Master_or_zero (an_Set a))))"
  using assms(1)
proof (cases rule: checkAndRecover_cases)
  case no_action
  with assms(2) show ?thesis by simp
next
  case (recovered rf w0 recs w1)
  from run_recovery_events[OF recovered(5)] obtain es where es: "w_trace w1 = w_trace w0 @ es" .
  have "EvExec u l ok \<in> set es"
    using assms(2) recovered(2,7) es by (auto split: if_splits)
  note q = run_recovery_queries[OF recovered(5) es this]
  have s: "(rf = PromoteFollowerToMaster \<and> an_State a \<in> {DeadMaster, DeadMasterAndSomeFollowers}) \<or>
      (rf = ApplyFollowerRoleToCoMasters \<and> an_State a = MasterMasterReplication)"
    using recovered(1) by (cases "an_State a") auto
  with q show ?thesis by auto
qed

section \<open>How long an entry blocks\<close>

text \<open>
  \<open>blocks_until key T rs\<close>: some recovery of a whole replica set in the registry has the key and
  does not expire before second \<open>T\<close>.
\<close>

definition blocks_until :: "string \<Rightarrow> int \<Rightarrow> Recovery list \<Rightarrow> bool" where
  "blocks_until key T rs \<longleftrightarrow> (\<exists>b \<in> set rs. rv_Scope b = RecoveryScopeSet \<and> ScopeKey b = key \<and> T \<le> rv_Expiration b)"

lemma blocks_until_append: "blocks_until key T rs \<Longrightarrow> blocks_until key T (rs @ rs')"
  by (auto simp: blocks_until_def)

lemma hasBlockedRecovery_until:
  "b \<in> set rs \<Longrightarrow> ScopeKey b = key \<Longrightarrow>
   \<forall>n < w_io (snd (hasBlockedRecovery env rs key w)). env_now env n div Second \<le> rv_Expiration b \<Longrightarrow>
   fst (hasBlockedRecovery env rs key w)"
proof (induction rs arbitrary: w)
  case (Cons c rs)
  have "w_io (tick w) \<le> w_io (snd (hasBlockedRecovery env rs key (tick w)))"
    using hasBlockedRecovery_frame by (metis prod.collapse)
  with Cons show ?case unfolding hasBlockedRecovery_Cons
    by (auto split: if_splits dest: spec[of _ "w_io w"])
qed simp

lemma alive_recoveries_until:
  "alive_recoveries env rs w = (alive, w') \<Longrightarrow> b \<in> set rs \<Longrightarrow>
   \<forall>n < w_io w'. env_now env n div Second \<le> rv_Expiration b \<Longrightarrow> b \<in> set alive"
proof (induction rs arbitrary: w alive w')
  case (Cons c rs)
  obtain alive1 w1 where r: "alive_recoveries env rs (tick w) = (alive1, w1)"
    by (cases "alive_recoveries env rs (tick w)")
  with Cons.prems(1) have e: "w1 = w'" "alive = (if rv_Expiration c < env_now env (w_io w) div Second then alive1 else c # alive1)"
    by (auto simp: Expired_def Timestamp_def Let_def split: if_splits)
  have "w_io w < w_io w'" using alive_recoveries_io[OF r] e(1) by simp
  with Cons.prems(3) have now: "env_now env (w_io w) div Second \<le> rv_Expiration b" by blast
  show ?case
  proof (cases "b \<in> set rs")
    case True
    with Cons.IH[OF r True] Cons.prems(3) e show ?thesis by auto
  next
    case False
    with Cons.prems(2) now e(2) show ?thesis by auto
  qed
qed simp

lemma cleanup_until:
  assumes "cleanup env False rs w = (alive, w')" and "blocks_until key T rs"
    and "\<forall>n < w_io w'. env_now env n div Second \<le> T"
  shows "blocks_until key T alive"
proof -
  from assms(2) obtain b where b: "b \<in> set rs" "rv_Scope b = RecoveryScopeSet" "ScopeKey b = key" "T \<le> rv_Expiration b"
    by (auto simp: blocks_until_def)
  with assms(1) have "alive_recoveries env rs w = (alive, w')"
    by (cases rs) (simp_all add: cleanup_def)
  from alive_recoveries_until[OF this b(1)] assms(3) b show ?thesis
    by (auto simp: blocks_until_def intro: order_trans)
qed

text \<open>While it blocks, a reaction starts no recovery of that replica set.\<close>

lemma run_recovery_blocked:
  assumes "run_recovery srt env f rf a w = Some (recs, w')" and "blocks_until key T (fo_recoveries f)"
    and "\<forall>n < w_io w'. env_now env n div Second \<le> T" and "r \<in> set recs" and "rv_Scope r = RecoveryScopeSet"
  shows "rv_SetUUID r \<noteq> key"
proof (cases rf)
  case PromoteFollowerToMaster
  with assms(1) have p: "promoteFollowerToMaster srt env f a w = Some (recs, w')" by (simp add: run_recovery_def)
  show ?thesis
  proof
    assume k: "rv_SetUUID r = key"
    from p show False
    proof (cases rule: promote_result)
      case blocked
      with assms(4) show False by simp
    next
      case (attempted n r' hooks es)
      with assms(4) k have key: "set_UUID (an_Set a) = key" by (auto simp: recovery_id_def)
      from assms(2) obtain b where b: "b \<in> set (fo_recoveries f)" "ScopeKey b = key" "T \<le> rv_Expiration b"
        by (auto simp: blocks_until_def)
      have "\<forall>n < w_io (snd (hasBlockedRecovery env (fo_recoveries f) key w)). env_now env n div Second \<le> rv_Expiration b"
        using promote_io[OF p] assms(3) b(3) unfolding key by (meson less_le_trans order_trans)
      from hasBlockedRecovery_until[OF b(1,2) this] attempted(1) show False by (simp add: key)
    qed
  qed
next
  case ApplyFollowerRoleToCoMasters
  let ?lua = "generateRecoveryLua (set_UUID (an_Set a)) (set_MasterUUID (an_Set a))"
  from assms(1) ApplyFollowerRoleToCoMasters have
    d: "demote_loop env f a ?lua (Master_or_zero (an_Set a)) (Followers (an_Set a)) [] w = (recs, w')"
    by (simp add: run_recovery_def applyFollowerRoleToCoMasters_def Let_def)
  have scope: "demoted f lua insts rs es \<Longrightarrow> r \<in> set rs \<Longrightarrow> rv_Scope r = RecoveryScopeInstance" for lua insts rs es
    by (induction rule: demoted.induct) auto
  show ?thesis
    by (rule demote_loop_result[OF d]) (use scope assms(4,5) in auto)
qed

lemma post_events_registered: "EvRegistered r \<in> set (post_events f r') \<longleftrightarrow> r = r'"
  by (auto simp: post_events_def hook_event_def Let_def case_prod_beta split: if_splits)

lemma checkAndRecover_blocked:
  assumes "checkAndRecover srt sha env a f w = Some (f', w')" and "blocks_until key T (fo_recoveries f)"
    and "\<forall>n < w_io w'. env_now env n div Second \<le> T"
  shows "blocks_until key T (fo_recoveries f') \<and>
    (\<forall>r. EvRegistered r \<in> set (drop (length (w_trace w)) (w_trace w')) \<and> rv_Scope r = RecoveryScopeSet \<longrightarrow>
       rv_SetUUID r \<noteq> key)"
  using assms(1)
proof (cases rule: checkAndRecover_cases)
  case no_action
  with assms(2) show ?thesis by simp
next
  case (recovered rf w0 recs w1)
  from run_recovery_events[OF recovered(5)] obtain es where es: "w_trace w1 = w_trace w0 @ es"
    "\<forall>e \<in> set es. (\<exists>t c. e = EvHook t c \<or> e = EvHookAsync t c) \<or> (\<exists>u l ok. e = EvExec u l ok)" .
  have "r \<in> set recs" if "EvRegistered r \<in> set (drop (length (w_trace w)) (w_trace w'))" for r
    using that recovered(2,7) es by (auto simp: post_events_registered split: if_splits)
  moreover have "rv_SetUUID r \<noteq> key" if "r \<in> set recs" "rv_Scope r = RecoveryScopeSet" for r
  proof (rule run_recovery_blocked[OF recovered(5) _ _ that])
    show "blocks_until key T (fo_recoveries (f\<lparr>fo_sampler := snd (sample sha a (fo_sampler f))\<rparr>))"
      using assms(2) by simp
    show "\<forall>n < w_io w1. env_now env n div Second \<le> T" using assms(3) recovered(9) by simp
  qed
  ultimately show ?thesis using blocks_until_append[OF assms(2)] recovered(6) by auto
qed

lemma serve_one_blocked:
  assumes "serve_one srt sha env input f w = Some (f', w')" and "blocks_until key T (fo_recoveries f)"
    and "\<forall>n < w_io w'. env_now env n div Second \<le> T"
  shows "blocks_until key T (fo_recoveries f') \<and>
    (\<forall>e \<in> set (drop (length (w_trace w)) (w_trace w')). \<forall>r. e = EvRegistered r \<and> rv_Scope r = RecoveryScopeSet \<longrightarrow>
       rv_SetUUID r \<noteq> key)"
  using assms(1)
proof (cases rule: serve_one_cases)
  case (cleaned alive)
  with cleanup_until[OF cleaned(2) assms(2,3)] cleanup_frame[OF cleaned(2)] show ?thesis by simp
next
  case (skipped a)
  with assms(2) show ?thesis by simp
next
  case (handled a)
  from checkAndRecover_blocked[OF handled(2) assms(2,3)] show ?thesis by auto
qed

text \<open>What an attempted promotion leaves in the registry.\<close>

lemma checkAndRecover_attempted:
  assumes "checkAndRecover srt sha env a f w = Some (f', w')" and "fo_recoveries f' \<noteq> fo_recoveries f"
    and "an_State a \<in> {DeadMaster, DeadMasterAndSomeFollowers}" and "clock_mono env"
  shows "blocks_until (set_UUID (an_Set a)) ((env_now env (w_io w) + fo_recvSetTTL f) div Second) (fo_recoveries f')"
  using assms(1)
proof (cases rule: checkAndRecover_cases)
  case no_action
  with assms(2) show ?thesis by simp
next
  case (recovered rf w0 recs w1)
  have "rf = PromoteFollowerToMaster" using recovered(1) assms(3) by auto
  with recovered(5) have
    "promoteFollowerToMaster srt env (f\<lparr>fo_sampler := snd (sample sha a (fo_sampler f))\<rparr>) a w0 = Some (recs, w1)"
    by (simp add: run_recovery_def)
  then show ?thesis
  proof (cases rule: promote_result)
    case blocked
    with recovered(6) assms(2) show ?thesis by simp
  next
    case (attempted n r hooks es)
    have "env_now env (w_io w) \<le> env_now env (Suc n)"
      using assms(4) attempted(2) recovered(4) by (simp add: clock_mono_def mono_def)
    then have "(env_now env (w_io w) + fo_recvSetTTL f) div Second \<le> rv_Expiration r"
      using recovery_idD(2)[OF attempted(5)] by (simp add: zdiv_mono1)
    moreover have "rv_Scope r = RecoveryScopeSet" "ScopeKey r = set_UUID (an_Set a)"
      using recovery_idD(1,3)[OF attempted(5)] by (simp_all add: ScopeKey_def)
    ultimately show ?thesis
      using recovered(6) attempted(3) unfolding blocks_until_def by (intro bexI[of _ r]) simp_all
  qed
qed

end
