(* ===== verification/Recovery_Effect.thy ===== *)
theory Recovery_Effect
  imports Vshard_Query Failover_Run "HOL-Library.AList"
begin

text \<open>
  internal/vshard/orchestrator/failover.go, lines 27 to 60: the Lua script of a recovery as a function of
  the node that runs it, and what a recovery therefore does to the cluster.

  Lua tables are association lists as in \<open>Vshard_Query\<close>.  A \<open>node\<close> is what the script reads and changes
  on a server; \<open>None\<close> is a Lua error.  The three functions it calls, \<open>vshard.storage.cfg\<close>,
  \<open>vshard.router.cfg\<close> and \<open>box.cfg\<close>, are the record \<open>vshard_api\<close> with the contract \<open>vshard_contract\<close>:
  a call that succeeds leaves the configuration it was given in force and does not change what
  the other two keep.
\<close>

section \<open>The script\<close>

record lua_shard =
  ls_replicas :: shard_cfg
  ls_rest :: replica_cfg

record vshard_cfg =
  vc_sharding :: "(string \<times> lua_shard) list"
  vc_rest :: replica_cfg

text \<open>
  \<open>nd_router_cfg\<close> is \<open>vshard.router.internal.static_router\<close>, nil or with its \<open>current_cfg\<close>, \<open>nd_storage_cfg\<close>
  is \<open>vshard.storage.internal.current_cfg\<close>, \<open>nd_uuid\<close> and \<open>nd_cluster_uuid\<close> are \<open>box.info.uuid\<close> and
  \<open>box.info.cluster.uuid\<close>, \<open>nd_read_only\<close> is \<open>box.cfg.read_only\<close>.
\<close>

record node =
  nd_router_cfg :: "vshard_cfg option"
  nd_storage_cfg :: vshard_cfg
  nd_uuid :: string
  nd_cluster_uuid :: string
  nd_read_only :: bool

record vshard_api =
  va_storage_cfg :: "vshard_cfg \<Rightarrow> string \<Rightarrow> node \<Rightarrow> node option"
  va_router_cfg :: "vshard_cfg \<Rightarrow> node \<Rightarrow> node option"
  va_box_cfg :: "bool \<Rightarrow> node \<Rightarrow> node option"

definition vshard_contract :: "vshard_api \<Rightarrow> bool" where
  "vshard_contract api \<longleftrightarrow>
     (\<forall>cfg u n n'. va_storage_cfg api cfg u n = Some n' \<longrightarrow>
        (\<exists>ro. n' = n\<lparr>nd_storage_cfg := cfg, nd_read_only := ro\<rparr>)) \<and>
     (\<forall>cfg n n'. va_router_cfg api cfg n = Some n' \<longrightarrow> n' = n\<lparr>nd_router_cfg := Some cfg\<rparr>) \<and>
     (\<forall>ro n n'. va_box_cfg api ro n = Some n' \<longrightarrow> n' = n\<lparr>nd_read_only := ro\<rparr>)"

text \<open>The body of the loop over the replicas of the set, and the loop.\<close>

definition set_replica_master :: "string \<Rightarrow> string \<Rightarrow> string \<Rightarrow> vshard_cfg \<Rightarrow> vshard_cfg" where
  "set_replica_master set_uuid new_master_uuid replica_uuid cfg =
     (let is_master = (replica_uuid = new_master_uuid)
      in cfg\<lparr>vc_sharding := AList.map_entry set_uuid
           (\<lambda>shard. shard\<lparr>ls_replicas := AList.map_entry replica_uuid
              (AList.update ''master'' (LuaBool is_master)) (ls_replicas shard)\<rparr>) (vc_sharding cfg)\<rparr>)"

definition recovery_cfg :: "string \<Rightarrow> string \<Rightarrow> vshard_cfg \<Rightarrow> vshard_cfg option" where
  "recovery_cfg set_uuid new_master_uuid cfg =
     (case map_of (vc_sharding cfg) set_uuid of
        None \<Rightarrow> None
      | Some shard \<Rightarrow> Some (fold (set_replica_master set_uuid new_master_uuid) (map fst (ls_replicas shard)) cfg))"

definition recovery_script :: "vshard_api \<Rightarrow> string \<Rightarrow> string \<Rightarrow> node \<Rightarrow> node option" where
  "recovery_script api set_uuid new_master_uuid n =
     (let is_storage = (nd_router_cfg n = None);
          cfg = (if is_storage then nd_storage_cfg n else the (nd_router_cfg n))
      in case recovery_cfg set_uuid new_master_uuid cfg of
           None \<Rightarrow> None
         | Some cfg \<Rightarrow>
             if is_storage then
               let this_uuid = nd_uuid n
               in case va_storage_cfg api cfg this_uuid n of
                    None \<Rightarrow> None
                  | Some n \<Rightarrow>
                      if nd_cluster_uuid n = set_uuid then va_box_cfg api (this_uuid \<noteq> new_master_uuid) n
                      else Some n
             else va_router_cfg api cfg n)"

section \<open>The configuration the script writes\<close>

text \<open>Tables within tables have distinct keys.\<close>

definition wf_cfg :: "vshard_cfg \<Rightarrow> bool" where
  "wf_cfg cfg \<longleftrightarrow> table (vc_sharding cfg) \<and>
     (\<forall>(s, shard) \<in> set (vc_sharding cfg). table (ls_replicas shard) \<and> (\<forall>(u, r) \<in> set (ls_replicas shard). table r))"

text \<open>Every replica of the set with its flag.\<close>

definition set_masters :: "string \<Rightarrow> shard_cfg \<Rightarrow> shard_cfg" where
  "set_masters new = map (\<lambda>(u, r). (u, AList.update ''master'' (LuaBool (u = new)) r))"

lemma map_entry_map:
  "table t \<Longrightarrow> AList.map_entry k f t = map (\<lambda>(u, r). (u, if u = k then f r else r)) t"
proof (induction t)
  case (Cons p t)
  have "map (\<lambda>(u, r). (u, if u = k then f r else r)) t = t" if "k \<notin> fst ` set t"
    using that by (intro map_idI) (auto split: prod.splits simp: rev_image_eqI)
  with Cons show ?case by (cases p) (auto simp: table_def)
qed simp

lemma map_entry_absent: "k \<notin> fst ` set t \<Longrightarrow> AList.map_entry k f t = t"
  by (induction t) auto

lemma map_entry_comp: "AList.map_entry k f (AList.map_entry k g t) = AList.map_entry k (f \<circ> g) t"
  by (induction t) auto

lemma table_map_entry [simp]: "table (AList.map_entry k f t) = table t"
  by (induction t) (auto simp: table_def AList.dom_map_entry)

lemma fold_map_entry_cons:
  "k \<notin> set ks \<Longrightarrow> fold (\<lambda>u. AList.map_entry u (g u)) ks ((k, v) # t) = (k, v) # fold (\<lambda>u. AList.map_entry u (g u)) ks t"
  by (induction ks arbitrary: t) auto

lemma fold_map_entry:
  "table t \<Longrightarrow> fold (\<lambda>u. AList.map_entry u (g u)) (map fst t) t = map (\<lambda>(u, r). (u, g u r)) t"
proof (induction t)
  case (Cons p t)
  obtain k v where p: "p = (k, v)" by (cases p)
  with Cons.prems have "k \<notin> set (map fst t)" "table t" by (auto simp: table_def)
  with p Cons.IH show ?case by (simp add: fold_map_entry_cons)
qed simp

lemma fold_set_replica_master:
  "fold (set_replica_master s new) us cfg = cfg\<lparr>vc_sharding := AList.map_entry s
     (\<lambda>shard. shard\<lparr>ls_replicas := fold (\<lambda>u. AList.map_entry u (AList.update ''master'' (LuaBool (u = new)))) us (ls_replicas shard)\<rparr>)
     (vc_sharding cfg)\<rparr>"
proof (induction us arbitrary: cfg)
  case Nil
  have "AList.map_entry s (\<lambda>shard. shard) t = t" for t :: "(string \<times> lua_shard) list" by (induction t) auto
  then show ?case by simp
next
  case (Cons u us)
  then show ?case by (simp add: set_replica_master_def Let_def map_entry_comp comp_def)
qed

lemma map_entry_cong: "map_of t k = Some v \<Longrightarrow> f v = g v \<Longrightarrow> AList.map_entry k f t = AList.map_entry k g t"
  by (induction t) (auto split: if_splits)

lemma recovery_cfg_Some:
  assumes "recovery_cfg s new cfg = Some cfg'" and "wf_cfg cfg"
  obtains shard where "map_of (vc_sharding cfg) s = Some shard" "table (ls_replicas shard)"
    "\<And>u r. (u, r) \<in> set (ls_replicas shard) \<Longrightarrow> table r"
    "cfg' = cfg\<lparr>vc_sharding := AList.map_entry s (ls_replicas_update (set_masters new)) (vc_sharding cfg)\<rparr>"
proof -
  from assms(1) obtain shard where s: "map_of (vc_sharding cfg) s = Some shard"
    "cfg' = fold (set_replica_master s new) (map fst (ls_replicas shard)) cfg"
    by (auto simp: recovery_cfg_def split: option.splits)
  from map_of_SomeD[OF s(1)] assms(2) have t: "table (ls_replicas shard)"
    "(u, r) \<in> set (ls_replicas shard) \<Longrightarrow> table r" for u r
    by (auto simp: wf_cfg_def)
  have "cfg' = cfg\<lparr>vc_sharding := AList.map_entry s (ls_replicas_update (set_masters new)) (vc_sharding cfg)\<rparr>"
    unfolding s(2) fold_set_replica_master
    by (subst map_entry_cong[OF s(1), where g = "ls_replicas_update (set_masters new)"])
      (simp_all add: fold_map_entry[OF t(1)] set_masters_def)
  with s(1) t show ?thesis by (intro that)
qed


lemma map_of_map_entry_same:
  "map_of (AList.map_entry k f t) k = map_option f (map_of t k)"
  by (simp add: AList.map_of_map_entry split: option.split)

lemma fst_set_masters [simp]: "map fst (set_masters new t) = map fst t"
  by (simp add: set_masters_def comp_def case_prod_beta)

lemma fst_image_set_masters [simp]: "fst ` set (set_masters new t) = fst ` set t"
  by (metis fst_set_masters list.set_map)

lemma table_update: "table r \<Longrightarrow> table (AList.update k v r)"
  by (simp add: table_def AList.distinct_update)

lemma table_delete: "table r \<Longrightarrow> table (AList.delete k r)"
  by (simp add: table_def AList.distinct_delete)

lemma update_twice: "AList.update k v (AList.update k v r) = AList.update k v r"
  by (induction r) auto

lemma set_masters_idem: "set_masters new (set_masters new t) = set_masters new t"
  by (auto simp: set_masters_def update_twice)

lemma map_entry_twice:
  "(\<And>x. f (f x) = f x) \<Longrightarrow> AList.map_entry k f (AList.map_entry k f t) = AList.map_entry k f t"
  by (simp add: map_entry_comp comp_def)

lemma in_map_entryE:
  assumes "(x, y) \<in> set (AList.map_entry k f t)"
  obtains "(x, y) \<in> set t" | z where "x = k" "y = f z" "(k, z) \<in> set t"
  using assms by (induction t) (auto split: if_splits)

lemma set_masters_member:
  "(u, r') \<in> set (set_masters new t) \<longleftrightarrow> (\<exists>r. (u, r) \<in> set t \<and> r' = AList.update ''master'' (LuaBool (u = new)) r)"
  by (auto simp: set_masters_def)

lemma recovery_cfg_wf:
  assumes "recovery_cfg s new cfg = Some cfg'" and "wf_cfg cfg"
  shows "wf_cfg cfg'"
proof -
  have c: "vc_sharding cfg' = AList.map_entry s (ls_replicas_update (set_masters new)) (vc_sharding cfg)"
    by (rule recovery_cfg_Some[OF assms]) simp
  have "table (ls_replicas y) \<and> (\<forall>(u, r) \<in> set (ls_replicas y). table r)"
    if "(x, y) \<in> set (vc_sharding cfg')" for x y
    using that unfolding c
  proof (cases rule: in_map_entryE)
    case (2 z)
    with assms(2) have "table (ls_replicas z)" "\<forall>(u, r) \<in> set (ls_replicas z). table r"
      by (auto simp: wf_cfg_def)
    with 2 show ?thesis by (auto simp: set_masters_member intro!: table_update) (simp add: table_def)
  qed (use assms(2) in \<open>auto simp: wf_cfg_def\<close>)
  then have "\<forall>(x, y) \<in> set (vc_sharding cfg'). table (ls_replicas y) \<and> (\<forall>(u, r) \<in> set (ls_replicas y). table r)"
    by blast
  moreover have "table (vc_sharding cfg')" using assms(2) by (simp add: c wf_cfg_def)
  ultimately show ?thesis by (simp add: wf_cfg_def)
qed

text \<open>A second run finds nothing to change.\<close>

lemma recovery_cfg_idem:
  assumes "recovery_cfg s new cfg = Some cfg'" and "wf_cfg cfg"
  shows "recovery_cfg s new cfg' = Some cfg'"
proof -
  from recovery_cfg_Some[OF assms] obtain shard where s: "map_of (vc_sharding cfg) s = Some shard"
    and c: "cfg' = cfg\<lparr>vc_sharding := AList.map_entry s (ls_replicas_update (set_masters new)) (vc_sharding cfg)\<rparr>"
    by blast
  have "map_of (vc_sharding cfg') s = Some (ls_replicas_update (set_masters new) shard)"
    using s c by (simp add: map_of_map_entry_same)
  then obtain cfg'' where r: "recovery_cfg s new cfg' = Some cfg''" by (simp add: recovery_cfg_def)
  from recovery_cfg_Some[OF r recovery_cfg_wf[OF assms]]
  have "cfg'' = cfg'\<lparr>vc_sharding := AList.map_entry s (ls_replicas_update (set_masters new)) (vc_sharding cfg')\<rparr>"
    by blast
  also have "\<dots> = cfg'" using c by (simp add: map_entry_twice set_masters_idem)
  finally show ?thesis using r by simp
qed

section \<open>Configurations that differ in the flags only\<close>

definition same_but_masters :: "shard_cfg \<Rightarrow> shard_cfg \<Rightarrow> bool" where
  "same_but_masters t t' \<longleftrightarrow> table t \<and> table t' \<and> fst ` set t = fst ` set t' \<and>
     (\<forall>(k, r) \<in> set t. \<forall>(k', r') \<in> set t'. k = k' \<longrightarrow>
        table r \<and> table r' \<and> same_table (AList.delete ''master'' r) (AList.delete ''master'' r'))"

lemma same_table_map_of: "same_table t t' \<longleftrightarrow> table t \<and> table t' \<and> map_of t = map_of t'"
  unfolding same_table_def table_def using map_of_inject_set by blast

lemma same_table_update:
  assumes "table r" and "table r'" and "same_table (AList.delete k r) (AList.delete k r')"
  shows "same_table (AList.update k v r) (AList.update k v r')"
proof -
  have "(map_of r)(k := None) = (map_of r')(k := None)"
    using assms(3) by (simp add: same_table_map_of AList.delete_conv')
  then have "(map_of r)(k \<mapsto> v) = (map_of r')(k \<mapsto> v)"
    by (metis fun_upd_upd)
  with assms(1,2) show ?thesis by (simp add: same_table_map_of table_update AList.update_conv')
qed

lemma set_masters_same_cfg:
  assumes "same_but_masters t t'"
  shows "same_cfg (set_masters new t) (set_masters new t')"
proof -
  have "same_table (AList.update ''master'' (LuaBool b) r) (AList.update ''master'' (LuaBool b) r')"
    if "(k, r) \<in> set t" "(k, r') \<in> set t'" for k r r' b
    by (rule same_table_update) (use assms that in \<open>auto simp: same_but_masters_def\<close>)
  with assms show ?thesis
    by (auto simp: same_cfg_def same_but_masters_def table_def set_masters_member)
qed

section \<open>A node after the script\<close>

definition active_cfg :: "node \<Rightarrow> vshard_cfg" where
  "active_cfg n = (case nd_router_cfg n of None \<Rightarrow> nd_storage_cfg n | Some cfg \<Rightarrow> cfg)"

text \<open>The replicas of a set that a configuration names as masters.\<close>

definition named_masters :: "string \<Rightarrow> vshard_cfg \<Rightarrow> string list" where
  "named_masters s cfg =
     (case map_of (vc_sharding cfg) s of
        None \<Rightarrow> []
      | Some shard \<Rightarrow> map fst (filter (\<lambda>(u, r). map_of r ''master'' = Some (LuaBool True)) (ls_replicas shard)))"

definition storage_of :: "string \<Rightarrow> node \<Rightarrow> bool" where
  "storage_of s n \<longleftrightarrow> nd_router_cfg n = None \<and> nd_cluster_uuid n = s"

definition settled :: "string \<Rightarrow> string \<Rightarrow> node \<Rightarrow> bool" where
  "settled s new n \<longleftrightarrow> set (named_masters s (active_cfg n)) \<subseteq> {new} \<and>
     (storage_of s n \<longrightarrow> nd_read_only n = (nd_uuid n \<noteq> new))"

lemma named_masters_recovery_cfg:
  assumes "recovery_cfg s new cfg = Some cfg'" and "wf_cfg cfg"
  shows "set (named_masters s cfg') \<subseteq> {new}"
proof -
  from recovery_cfg_Some[OF assms] obtain shard where "map_of (vc_sharding cfg) s = Some shard"
    and "cfg' = cfg\<lparr>vc_sharding := AList.map_entry s (ls_replicas_update (set_masters new)) (vc_sharding cfg)\<rparr>"
    by blast
  then show ?thesis
    by (auto simp: named_masters_def map_of_map_entry_same set_masters_member AList.update_conv')
qed

lemma recovery_script_result:
  assumes "vshard_contract api" and "recovery_script api s new n = Some n'"
  obtains (storage) cfg ro where "nd_router_cfg n = None" "recovery_cfg s new (nd_storage_cfg n) = Some cfg"
      "n' = n\<lparr>nd_storage_cfg := cfg, nd_read_only := ro\<rparr>" "nd_cluster_uuid n = s \<Longrightarrow> ro = (nd_uuid n \<noteq> new)"
  | (router) cfg0 cfg where "nd_router_cfg n = Some cfg0" "recovery_cfg s new cfg0 = Some cfg"
      "n' = n\<lparr>nd_router_cfg := Some cfg\<rparr>"
proof (cases "nd_router_cfg n")
  case None
  with assms(2) obtain cfg n1 where c: "recovery_cfg s new (nd_storage_cfg n) = Some cfg"
    "va_storage_cfg api cfg (nd_uuid n) n = Some n1"
    and n': "(if nd_cluster_uuid n1 = s then va_box_cfg api (nd_uuid n \<noteq> new) n1 else Some n1) = Some n'"
    by (auto simp: recovery_script_def Let_def split: option.splits)
  from c(2) assms(1) obtain ro where n1: "n1 = n\<lparr>nd_storage_cfg := cfg, nd_read_only := ro\<rparr>"
    unfolding vshard_contract_def by blast
  show ?thesis
  proof (cases "nd_cluster_uuid n = s")
    case True
    with n' n1 have "va_box_cfg api (nd_uuid n \<noteq> new) n1 = Some n'" by simp
    with assms(1) have "n' = n1\<lparr>nd_read_only := nd_uuid n \<noteq> new\<rparr>" unfolding vshard_contract_def by blast
    with None c n1 show ?thesis by (intro storage[of cfg "nd_uuid n \<noteq> new"]) simp_all
  next
    case False
    with n' n1 None c show ?thesis by (intro storage[of cfg ro]) simp_all
  qed
next
  case (Some cfg0)
  with assms(2) obtain cfg where c: "recovery_cfg s new cfg0 = Some cfg" "va_router_cfg api cfg n = Some n'"
    by (auto simp: recovery_script_def Let_def split: option.splits)
  from c(2) assms(1) have "n' = n\<lparr>nd_router_cfg := Some cfg\<rparr>" unfolding vshard_contract_def by blast
  with Some c(1) show ?thesis by (rule router)
qed

lemma recovery_script_settles:
  assumes "vshard_contract api" and "recovery_script api s new n = Some n'" and "wf_cfg (active_cfg n)"
  shows "settled s new n' \<and> wf_cfg (active_cfg n') \<and> nd_uuid n' = nd_uuid n \<and> storage_of s n' = storage_of s n"
  using assms(1,2)
proof (cases rule: recovery_script_result)
  case (storage cfg ro)
  with assms(3) have "wf_cfg (nd_storage_cfg n)" by (simp add: active_cfg_def)
  with storage named_masters_recovery_cfg[OF storage(2)] recovery_cfg_wf[OF storage(2)] show ?thesis
    by (auto simp: settled_def active_cfg_def storage_of_def)
next
  case (router cfg0 cfg)
  with assms(3) have "wf_cfg cfg0" by (simp add: active_cfg_def)
  with router named_masters_recovery_cfg[OF router(2)] recovery_cfg_wf[OF router(2)] show ?thesis
    by (auto simp: settled_def active_cfg_def storage_of_def)
qed

section \<open>A trace as the cluster meets it\<close>

text \<open>
  What an \<open>Exec\<close> of a program may do to the node it is sent to: the connector retries, so the
  program runs any number of times, and every run but the last of a successful \<open>Exec\<close> may also
  stop half-way.  A run that stops leaves the identity of the server, and some configuration.
\<close>

definition same_server :: "node \<Rightarrow> node \<Rightarrow> bool" where
  "same_server n n' \<longleftrightarrow> nd_uuid n' = nd_uuid n \<and> nd_cluster_uuid n' = nd_cluster_uuid n \<and>
     (nd_router_cfg n' = None \<longleftrightarrow> nd_router_cfg n = None) \<and> wf_cfg (active_cfg n')"

inductive attempts :: "(node \<Rightarrow> node option) \<Rightarrow> node \<Rightarrow> node \<Rightarrow> bool" for run n where
  not_run: "attempts run n n"
| completed: "attempts run n n1 \<Longrightarrow> run n1 = Some n2 \<Longrightarrow> attempts run n n2"
| stopped: "attempts run n n1 \<Longrightarrow> same_server n1 n2 \<Longrightarrow> attempts run n n2"

text \<open>\<open>lua\<close> is what a server makes of a program text, \<open>at\<close> the server behind a URI.\<close>

inductive replay :: "(string \<Rightarrow> node \<Rightarrow> node option) \<Rightarrow> (string \<Rightarrow> 'k) \<Rightarrow> event list \<Rightarrow> ('k \<Rightarrow> node) \<Rightarrow> ('k \<Rightarrow> node) \<Rightarrow> bool"
  for lua at where
  replay_nil: "replay lua at [] N N"
| replay_ok: "replay lua at es N N1 \<Longrightarrow> attempts (lua l) (N1 (at u)) n1 \<Longrightarrow> lua l n1 = Some n2 \<Longrightarrow>
     replay lua at (es @ [EvExec u l True]) N (N1(at u := n2))"
| replay_failed: "replay lua at es N N1 \<Longrightarrow> attempts (lua l) (N1 (at u)) n2 \<Longrightarrow>
     replay lua at (es @ [EvExec u l False]) N (N1(at u := n2))"
| replay_other: "replay lua at es N N1 \<Longrightarrow> \<forall>u l ok. e \<noteq> EvExec u l ok \<Longrightarrow> replay lua at (es @ [e]) N N1"

text \<open>The last query that went to \<open>k\<close> succeeded.\<close>

definition answered :: "(string \<Rightarrow> 'k) \<Rightarrow> event list \<Rightarrow> 'k \<Rightarrow> bool" where
  "answered at es k \<longleftrightarrow> (\<exists>q qs. filter (\<lambda>(u, _). at u = k) (queries es) = qs @ [q] \<and> snd (snd q))"

lemma answered_exec: "answered at (es @ [EvExec u l ok]) k \<longleftrightarrow> (if at u = k then ok else answered at es k)"
  by (auto simp: answered_def)

lemma answered_other: "\<forall>u l ok. e \<noteq> EvExec u l ok \<Longrightarrow> answered at (es @ [e]) k \<longleftrightarrow> answered at es k"
  by (cases e) (auto simp: answered_def)

lemma attempts_server:
  assumes "attempts (recovery_script api s new) n n'" and "vshard_contract api" and "wf_cfg (active_cfg n)"
  shows "wf_cfg (active_cfg n')"
  using assms(1)
proof (induction rule: attempts.induct)
  case (completed n1 n2)
  then show ?case using recovery_script_settles[OF assms(2)] by blast
next
  case (stopped n1 n2)
  then show ?case by (simp add: same_server_def)
qed (rule assms(3))

lemma replay_settles:
  assumes "replay lua at es N N'" and "vshard_contract api" and "lua l = recovery_script api s new"
    and "\<forall>u l' ok. EvExec u l' ok \<in> set es \<longrightarrow> l' = l" and "\<forall>k. wf_cfg (active_cfg (N k))"
  shows "(\<forall>k. wf_cfg (active_cfg (N' k))) \<and> (\<forall>k. answered at es k \<longrightarrow> settled s new (N' k))"
  using assms(1,4,5)
proof (induction rule: replay.induct)
  case (replay_nil N)
  then show ?case by (simp add: answered_def)
next
  case (replay_ok es N N1 l' u n1 n2)
  have l': "l' = l" using replay_ok.prems(1) by auto
  have "\<forall>u l' ok. EvExec u l' ok \<in> set es \<longrightarrow> l' = l" using replay_ok.prems(1) unfolding set_append by blast
  with replay_ok.IH replay_ok.prems(2) have
    IH: "\<forall>k. wf_cfg (active_cfg (N1 k))" "\<forall>k. answered at es k \<longrightarrow> settled s new (N1 k)" by blast+
  from replay_ok.hyps(2) IH(1) have "wf_cfg (active_cfg n1)"
    unfolding l' assms(3) using attempts_server[OF _ assms(2)] by blast
  with replay_ok.hyps(3) have "settled s new n2 \<and> wf_cfg (active_cfg n2)"
    unfolding l' assms(3) using recovery_script_settles[OF assms(2)] by blast
  with IH show ?case by (auto simp: answered_exec)
next
  case (replay_failed es N N1 l' u n2)
  have l': "l' = l" using replay_failed.prems(1) by auto
  have "\<forall>u l' ok. EvExec u l' ok \<in> set es \<longrightarrow> l' = l" using replay_failed.prems(1) unfolding set_append by blast
  with replay_failed.IH replay_failed.prems(2) have
    IH: "\<forall>k. wf_cfg (active_cfg (N1 k))" "\<forall>k. answered at es k \<longrightarrow> settled s new (N1 k)" by blast+
  from replay_failed.hyps(2) IH(1) have "wf_cfg (active_cfg n2)"
    unfolding l' assms(3) using attempts_server[OF _ assms(2)] by blast
  with IH show ?case by (auto simp: answered_exec)
next
  case (replay_other es N N1 e)
  have "\<forall>u l' ok. EvExec u l' ok \<in> set es \<longrightarrow> l' = l" using replay_other.prems(1) unfolding set_append by blast
  with replay_other.IH replay_other.prems(2) show ?case unfolding answered_other[OF replay_other.hyps(2)] by blast
qed

lemma queried_answered:
  assumes "EvExec u l ok \<in> set es"
  shows "answered at es (at u) \<or> (\<exists>u' l'. at u' = at u \<and> EvExec u' l' False \<in> set es)"
proof -
  let ?qs = "filter (\<lambda>(v, _). at v = at u) (queries es)"
  have "(u, l, ok) \<in> set ?qs" using assms by (simp add: exec_in_queries)
  then have "?qs \<noteq> []" by (force simp: filter_empty_conv)
  then have q: "?qs = butlast ?qs @ [last ?qs]" by simp
  obtain u' l' ok' where e: "last ?qs = (u', l', ok')" by (cases "last ?qs")
  show ?thesis
  proof (cases ok')
    case True
    with q e show ?thesis unfolding answered_def by (metis snd_conv)
  next
    case False
    have "(u', l', ok') \<in> set ?qs" using e last_in_set[OF \<open>?qs \<noteq> []\<close>] by simp
    with False show ?thesis by (auto simp: exec_in_queries)
  qed
qed

section \<open>The fingerprint of a node\<close>

text \<open>What the instance query reads on a node.\<close>

definition node_replicas :: "node \<Rightarrow> shard_cfg" where
  "node_replicas n =
     (case map_of (vc_sharding (nd_storage_cfg n)) (nd_cluster_uuid n) of Some shard \<Rightarrow> ls_replicas shard | None \<Rightarrow> [])"

definition node_box :: "StorageInfo \<Rightarrow> node \<Rightarrow> instance_box" where
  "node_box st n = \<lparr>ib_shard_cfg = node_replicas n, ib_storage = st, ib_read_only = nd_read_only n\<rparr>"

text \<open>\<open>i\<close> is what a discovery that reaches the node makes of it.\<close>

definition discovered_from :: "'c digest \<Rightarrow> node \<Rightarrow> Instance \<Rightarrow> bool" where
  "discovered_from digest n i \<longleftrightarrow> (\<exists>exec i0 st. i = discoverInstance exec i0 \<and>
     res_Error (exec (inst_URI i0)) = None \<and>
     res_Data (exec (inst_URI i0)) = answer_instance_info (vshardInstanceInfoQuery digest (node_box st n)) \<and>
     wf_info \<lparr>info_Readonly = False, info_VShardFingerprint = 0, info_StorageInfo = st\<rparr>)"

lemma discovered_fingerprint:
  assumes "discovered_from digest n i"
  shows "inst_VShardFingerprint i = of_nat (fingerprint digest (node_replicas n))"
proof -
  from assms obtain exec i0 st where e: "i = discoverInstance exec i0" "res_Error (exec (inst_URI i0)) = None"
    "res_Data (exec (inst_URI i0)) = answer_instance_info (vshardInstanceInfoQuery digest (node_box st n))"
    and w: "wf_info \<lparr>info_Readonly = False, info_VShardFingerprint = 0, info_StorageInfo = st\<rparr>"
    by (auto simp: discovered_from_def)
  from w have "wf_info \<lparr>info_Readonly = nd_read_only n,
      info_VShardFingerprint = of_nat (fingerprint digest (node_replicas n)), info_StorageInfo = st\<rparr>"
    by (simp add: wf_info_def)
  from ParseInstanceInfo_encode[OF this, of "[]" "[]"] e show ?thesis
    by (simp add: discoverInstance_def answer_instance_info_def vshardInstanceInfoQuery_def node_box_def Let_def)
qed

lemma node_replicas_script:
  assumes "vshard_contract api" and "recovery_script api s new n = Some n'" and "storage_of s n"
    and "wf_cfg (nd_storage_cfg n)"
  shows "node_replicas n' = set_masters new (node_replicas n)"
  using assms(1,2)
proof (cases rule: recovery_script_result)
  case (storage cfg ro)
  from recovery_cfg_Some[OF storage(2) assms(4)] obtain shard where "map_of (vc_sharding (nd_storage_cfg n)) s = Some shard"
    "cfg = (nd_storage_cfg n)\<lparr>vc_sharding := AList.map_entry s (ls_replicas_update (set_masters new)) (vc_sharding (nd_storage_cfg n))\<rparr>"
    by blast
  with storage(3) assms(3) show ?thesis
    by (simp add: node_replicas_def storage_of_def map_of_map_entry_same)
next
  case router
  with assms(3) show ?thesis by (simp add: storage_of_def)
qed

lemma demote_loop_same:
  "\<forall>i \<in> set followers. inst_VShardFingerprint i = inst_VShardFingerprint master \<Longrightarrow>
   demote_loop env f a lua master followers recs w = (recs, w)"
  by (induction followers) auto

text \<open>The URIs a promotion of \<open>c\<close>, known as \<open>inst\<close>, sends something to, when it asks for the routers at \<open>n1\<close> and
  for the instances at \<open>n2\<close>.\<close>

definition promotion_URIs :: "env \<Rightarrow> InstanceUUID \<Rightarrow> Instance \<Rightarrow> nat \<Rightarrow> nat \<Rightarrow> string set" where
  "promotion_URIs env c inst n1 n2 = {inst_URI inst} \<union> rt_URI ` set (Cluster_Routers (env_cluster env n1)) \<union>
     inst_URI ` {i \<in> set (Cluster_Instances (env_cluster env n2)). inst_UUID i \<noteq> c}"

lemma promotion_queried:
  assumes "sort_contract srt" and "promoteFollowerToMaster srt env f a w = Some ([r], w')" and "rv_IsSuccessful r"
    and "w_trace w' = w_trace w @ es" and "fo_elector f (an_Set a) = Some (Inr c)"
  obtains n n1 n2 inst where "w_io w \<le> n" "n < n1" "n1 < n2" "Cluster_Instance (env_cluster env n) c = Inr inst"
    "\<And>u. u \<in> promotion_URIs env c inst n1 n2 \<Longrightarrow> \<exists>l ok. EvExec u l ok \<in> set es"
    "\<And>u l ok. EvExec u l ok \<in> set es \<Longrightarrow> l = generateRecoveryLua (set_UUID (an_Set a)) c"
proof -
  let ?lua = "\<lambda>c. generateRecoveryLua (set_UUID (an_Set a)) c"
  let ?is = "\<lambda>c n. filter (\<lambda>i. inst_UUID i \<noteq> c) (sort_by srt failover_less (Cluster_Instances (env_cluster env n)))"
  have "r \<in> set [r]" by simp
  from promotion_steps[OF assms(2) this assms(3)] obtain c' n n1 n2 inst hooks es' where
    "fo_elector f (an_Set a) = Some (Inr c')" and n: "w_io w \<le> n" "n < n1" "n1 < n2"
    and "Cluster_Instance (env_cluster env n) c' = Inr inst" and h: "queries hooks = []"
    and "w_trace w' = w_trace w @ hooks @ EvExec (inst_URI inst) (?lua c') True # es'"
    and "exec_events (?lua c') (map rt_URI (Cluster_Routers (env_cluster env n1)) @ map inst_URI (?is c' n2)) es'" .
  with assms(4,5) have i: "Cluster_Instance (env_cluster env n) c = Inr inst"
    and es: "es = hooks @ EvExec (inst_URI inst) (?lua c) True # es'"
    and e': "exec_events (?lua c) (map rt_URI (Cluster_Routers (env_cluster env n1)) @ map inst_URI (?is c n2)) es'"
    by simp_all
  have "\<exists>l ok. EvExec u l ok \<in> set es" if u: "u \<in> promotion_URIs env c inst n1 n2" for u
  proof (cases "u = inst_URI inst")
    case False
    have "set (?is c n2) = {i \<in> set (Cluster_Instances (env_cluster env n2)). inst_UUID i \<noteq> c}"
      using sort_contract.sort_by_set[OF assms(1)] by simp
    with u False have "u \<in> set (map rt_URI (Cluster_Routers (env_cluster env n1)) @ map inst_URI (?is c n2))"
      unfolding set_append set_map promotion_URIs_def by blast
    then have "u \<in> set (map fst (queries es'))" using queries_exec_events[OF e'] by simp
    then obtain l ok where "(u, l, ok) \<in> set (queries es')" by auto
    then show ?thesis unfolding es by (auto simp flip: exec_in_queries)
  qed (use es in auto)
  moreover have "l = ?lua c" if "EvExec u l ok \<in> set es" for u l ok
    using that exec_events_lua[OF e'] h unfolding es by (auto simp: exec_in_queries)
  ultimately show ?thesis using n i by (intro that)
qed

section \<open>Properties\<close>

text \<open>C5: after a successful promotion, at the candidate, at every router and at every other instance the
  failover knew, either a query failed, or the node names no master of the set but the candidate.
  Among the storages of the set whose last query succeeded only the candidate accepts writes.  This
  holds although a query may run the script many times and stop it half-way.\<close>

theorem promotion_leaves_one_writer:
  assumes "vshard_contract api" and "sort_contract srt"
    and "promoteFollowerToMaster srt env f a w = Some ([r], w')" and "rv_IsSuccessful r"
    and "w_trace w' = w_trace w @ es" and "fo_elector f (an_Set a) = Some (Inr c)"
    and "s = set_UUID (an_Set a)" and "lua (generateRecoveryLua s c) = recovery_script api s c"
    and "\<forall>k. wf_cfg (active_cfg (N k))" and "replay lua at es N N'"
  shows "\<exists>n n1 n2 inst. w_io w \<le> n \<and> n < n1 \<and> n1 < n2 \<and> Cluster_Instance (env_cluster env n) c = Inr inst \<and>
     (\<forall>uri \<in> promotion_URIs env c inst n1 n2.
       (\<exists>u l. at u = at uri \<and> EvExec u l False \<in> set es) \<or>
       set (named_masters s (active_cfg (N' (at uri)))) \<subseteq> {c}) \<and>
     (\<forall>k. answered at es k \<and> storage_of s (N' k) \<longrightarrow> (\<not> nd_read_only (N' k) \<longleftrightarrow> nd_uuid (N' k) = c))"
proof -
  from promotion_queried[OF assms(2-6)] obtain n n1 n2 inst where
    n: "w_io w \<le> n" "n < n1" "n1 < n2" "Cluster_Instance (env_cluster env n) c = Inr inst"
    and q: "\<And>u. u \<in> promotion_URIs env c inst n1 n2 \<Longrightarrow> \<exists>l ok. EvExec u l ok \<in> set es"
    and l: "\<And>u l ok. EvExec u l ok \<in> set es \<Longrightarrow> l = generateRecoveryLua (set_UUID (an_Set a)) c" by metis
  from l assms(7) have "\<forall>u l ok. EvExec u l ok \<in> set es \<longrightarrow> l = generateRecoveryLua s c" by blast
  from replay_settles[OF assms(10,1,8) this assms(9)] have st: "answered at es k \<Longrightarrow> settled s c (N' k)" for k by blast
  have A: "(\<exists>u l. at u = at uri \<and> EvExec u l False \<in> set es) \<or> set (named_masters s (active_cfg (N' (at uri)))) \<subseteq> {c}"
    if "uri \<in> promotion_URIs env c inst n1 n2" for uri
  proof -
    from q[OF that] obtain l ok where "EvExec uri l ok \<in> set es" by blast
    from queried_answered[OF this, of at] st[of "at uri"] show ?thesis unfolding settled_def by metis
  qed
  have B: "answered at es k \<and> storage_of s (N' k) \<longrightarrow> (\<not> nd_read_only (N' k) \<longleftrightarrow> nd_uuid (N' k) = c)" for k
    using st by (auto simp: settled_def)
  show ?thesis by (rule exI[of _ n], rule exI[of _ n1], rule exI[of _ n2], rule exI[of _ inst]) (intro conjI n ballI A allI B)
qed

text \<open>A server that takes every configuration, and a cluster of such servers.\<close>

definition direct_api :: vshard_api where
  "direct_api = \<lparr>va_storage_cfg = (\<lambda>cfg u n. Some (n\<lparr>nd_storage_cfg := cfg\<rparr>)),
     va_router_cfg = (\<lambda>cfg n. Some (n\<lparr>nd_router_cfg := Some cfg\<rparr>)),
     va_box_cfg = (\<lambda>ro n. Some (n\<lparr>nd_read_only := ro\<rparr>))\<rparr>"

lemma direct_api_contract: "vshard_contract direct_api"
proof -
  have "\<exists>ro. n\<lparr>nd_storage_cfg := cfg\<rparr> = n\<lparr>nd_storage_cfg := cfg, nd_read_only := ro\<rparr>" for n :: node and cfg
    by (rule exI[of _ "nd_read_only n"]) simp
  then show ?thesis by (simp add: vshard_contract_def direct_api_def)
qed

definition knows_set :: "string \<Rightarrow> node \<Rightarrow> bool" where
  "knows_set s n \<longleftrightarrow> map_of (vc_sharding (active_cfg n)) s \<noteq> None"

lemma recovery_cfg_knows:
  assumes "map_of (vc_sharding cfg) s \<noteq> None"
  shows "\<exists>cfg'. recovery_cfg s new cfg = Some cfg' \<and> map_of (vc_sharding cfg') s \<noteq> None"
  using assms by (auto simp: recovery_cfg_def fold_set_replica_master map_of_map_entry_same)

lemma direct_script:
  assumes "knows_set s n"
  shows "\<exists>n'. recovery_script direct_api s new n = Some n' \<and> knows_set s n'"
proof -
  from assms obtain cfg where "recovery_cfg s new (active_cfg n) = Some cfg" "map_of (vc_sharding cfg) s \<noteq> None"
    unfolding knows_set_def using recovery_cfg_knows by blast
  then show ?thesis
    by (auto simp: recovery_script_def direct_api_def knows_set_def active_cfg_def Let_def split: option.splits)
qed

lemma direct_replay:
  "\<forall>k. knows_set s (N k) \<Longrightarrow>
   \<exists>N'. replay (\<lambda>_. recovery_script direct_api s new) at es N N' \<and> (\<forall>k. knows_set s (N' k))"
proof (induction es rule: rev_induct)
  case (snoc e es)
  then obtain N1 where r: "replay (\<lambda>_. recovery_script direct_api s new) at es N N1" and k: "\<forall>k. knows_set s (N1 k)"
    by blast
  show ?case
  proof (cases "\<exists>u l ok. e = EvExec u l ok")
    case True
    then obtain u l ok where e: "e = EvExec u l ok" by blast
    from direct_script[of s "N1 (at u)" new] k obtain n2 where
      n2: "recovery_script direct_api s new (N1 (at u)) = Some n2" "knows_set s n2" by blast
    have "attempts (recovery_script direct_api s new) (N1 (at u)) n2"
      using attempts.completed[where run = "recovery_script direct_api s new", OF attempts.not_run n2(1)] .
    from replay_ok[where lua = "\<lambda>_. recovery_script direct_api s new", OF r attempts.not_run n2(1)]
      replay_failed[where lua = "\<lambda>_. recovery_script direct_api s new", OF r this]
    have "replay (\<lambda>_. recovery_script direct_api s new) at (es @ [e]) N (N1(at u := n2))"
      unfolding e by (cases ok) simp_all
    moreover have "\<forall>k. knows_set s ((N1(at u := n2)) k)" using k n2(2) by simp
    ultimately show ?thesis by blast
  qed (use replay_other[OF r] k in blast)
qed (use replay_nil in blast)

definition sample_vshard_cfg :: vshard_cfg where
  "sample_vshard_cfg = \<lparr>vc_sharding = [(''s'', \<lparr>ls_replicas = [(''m'', [(''uri'', LuaStr ''m:1''), (''master'', LuaBool True)]),
     (''a'', [(''uri'', LuaStr ''a:1'')])], ls_rest = []\<rparr>)], vc_rest = []\<rparr>"

definition sample_nodes :: "string \<Rightarrow> node" where
  "sample_nodes uri = \<lparr>nd_router_cfg = (if uri = ''r:1'' then Some sample_vshard_cfg else None),
     nd_storage_cfg = sample_vshard_cfg, nd_uuid = (if uri = ''m:1'' then ''m'' else ''a''), nd_cluster_uuid = ''s'',
     nd_read_only = (uri \<noteq> ''m:1'')\<rparr>"

lemma sample_nodes_ok: "wf_cfg (active_cfg (sample_nodes k))" "knows_set ''s'' (sample_nodes k)"
  by (simp_all add: sample_nodes_def sample_vshard_cfg_def active_cfg_def knows_set_def wf_cfg_def table_def)

theorem promotion_leaves_one_writer_witness:
  "\<exists>r w' N'. promoteFollowerToMaster insertion_sort (sample_env [sample_follower ''a'' 7])
      (sample_failover (smart_ChooseMaster insertion_sort no_limits)) (sample_analysis [sample_follower ''a'' 7]) world0
      = Some ([r], w') \<and>
     replay (\<lambda>_. recovery_script direct_api ''s'' ''a'') id (w_trace w') sample_nodes N' \<and>
     (\<forall>k. answered id (w_trace w') k \<and> storage_of ''s'' (N' k) \<longrightarrow> (\<not> nd_read_only (N' k) \<longleftrightarrow> nd_uuid (N' k) = ''a''))"
proof -
  let ?f = "sample_failover (smart_ChooseMaster insertion_sort no_limits)"
  let ?a = "sample_analysis [sample_follower ''a'' 7]"
  obtain r w' where p: "promoteFollowerToMaster insertion_sort (sample_env [sample_follower ''a'' 7]) ?f ?a world0
      = Some ([r], w')" "rv_IsSuccessful r"
    using sample_promotion by blast
  obtain N' where N': "replay (\<lambda>_. recovery_script direct_api ''s'' ''a'') id (w_trace w') sample_nodes N'"
    using direct_replay sample_nodes_ok(2) by blast
  have a: "an_Set ?a = sample_set [sample_follower ''a'' 7]" by (simp add: sample_analysis_def)
  have t: "w_trace w' = w_trace world0 @ w_trace w'" by (simp add: world0_def)
  have el: "fo_elector ?f (an_Set ?a) = Some (Inr ''a'')" by (simp add: a sample_elect)
  have su: "''s'' = set_UUID (an_Set ?a)" by (simp add: a sample_set_def)
  have wf: "\<forall>k. wf_cfg (active_cfg (sample_nodes k))" using sample_nodes_ok(1) by blast
  from promotion_leaves_one_writer[where lua = "\<lambda>_. recovery_script direct_api ''s'' ''a''",
      OF direct_api_contract insertion_sort_contract p t el su refl wf N']
  have "\<forall>k. answered id (w_trace w') k \<and> storage_of ''s'' (N' k) \<longrightarrow> (\<not> nd_read_only (N' k) \<longleftrightarrow> nd_uuid (N' k) = ''a'')"
    by (elim exE conjE)
  with p(1) N' show ?thesis by blast
qed

text \<open>C26: a co-master that ran the script is not demoted again: when its configuration differed from the
  master's in the flags only, and the master's names every flag, the next discovery finds equal
  fingerprints, and a reaction to a further master-master analysis sends nothing and records nothing.\<close>

theorem demotion_converges:
  assumes "vshard_contract api" and "Master (an_Set a) = Inr mi" and "discovered_from digest mn mi"
    and "storage_of s mn" and "wf_cfg (nd_storage_cfg mn)"
    and "set_masters mu (node_replicas mn) = node_replicas mn"
    and "\<forall>i \<in> set (Followers (an_Set a)). \<exists>n n'. storage_of s n \<and> wf_cfg (nd_storage_cfg n) \<and>
       same_but_masters (node_replicas n) (node_replicas mn) \<and> recovery_script api s mu n = Some n' \<and>
       discovered_from digest n' i"
  shows "(\<forall>i \<in> set (Followers (an_Set a)). inst_VShardFingerprint i = inst_VShardFingerprint mi) \<and>
     applyFollowerRoleToCoMasters env f a w = ([], w)"
proof -
  have e: "inst_VShardFingerprint i = inst_VShardFingerprint mi" if i: "i \<in> set (Followers (an_Set a))" for i
  proof -
    from bspec[OF assms(7) i] obtain n n' where n: "storage_of s n" "wf_cfg (nd_storage_cfg n)"
      "same_but_masters (node_replicas n) (node_replicas mn)" "recovery_script api s mu n = Some n'"
      "discovered_from digest n' i" by blast
    have "node_replicas n' = set_masters mu (node_replicas n)"
      using node_replicas_script[OF assms(1) n(4,1,2)] .
    with set_masters_same_cfg[OF n(3), of mu] assms(6) have "same_cfg (node_replicas n') (node_replicas mn)" by simp
    from fingerprint_same[OF this, of digest] show ?thesis
      by (simp add: discovered_fingerprint[OF n(5)] discovered_fingerprint[OF assms(3)])
  qed
  then show ?thesis using assms(2)
    by (simp add: applyFollowerRoleToCoMasters_def Let_def Master_or_zero_def demote_loop_same)
qed

definition sample_replicas :: "bool \<Rightarrow> bool \<Rightarrow> shard_cfg" where
  "sample_replicas m a = [(''m'', [(''name'', LuaStr ''m''), (''master'', LuaBool m)]), (''a'', [(''master'', LuaBool a), (''name'', LuaStr ''a'')])]"

definition sample_storage :: "string \<Rightarrow> shard_cfg \<Rightarrow> node" where
  "sample_storage u t = \<lparr>nd_router_cfg = None, nd_storage_cfg = \<lparr>vc_sharding = [(''s'', \<lparr>ls_replicas = t, ls_rest = []\<rparr>)], vc_rest = []\<rparr>,
     nd_uuid = u, nd_cluster_uuid = ''s'', nd_read_only = False\<rparr>"

definition sample_discovery :: "node \<Rightarrow> Instance \<Rightarrow> Instance" where
  "sample_discovery n = discoverInstance (\<lambda>_. \<lparr>res_Error = None, res_ErrorCode = 0,
     res_Data = answer_instance_info (vshardInstanceInfoQuery sample_digest (node_box zero_StorageInfo n))\<rparr>)"

lemma sample_discovery_from: "discovered_from sample_digest n (sample_discovery n i)"
proof -
  have w: "wf_info \<lparr>info_Readonly = False, info_VShardFingerprint = 0, info_StorageInfo = zero_StorageInfo\<rparr>"
    by (simp add: wf_info_def zero_StorageInfo_def zero_InstanceBucket_def in_int64_def)
  show ?thesis unfolding discovered_from_def sample_discovery_def
    by (rule exI, rule exI[of _ i], rule exI[of _ zero_StorageInfo]) (rule conjI[OF refl], simp add: w)
qed

lemma sample_discovery_UUID: "inst_UUID (sample_discovery n i) = inst_UUID i"
  by (simp add: sample_discovery_def discoverInstance_def Let_def split: sum.split)

text \<open>The old master \<open>m\<close> is back with the configuration in which it was the master; \<open>a\<close> is the master now.\<close>

theorem demotion_converges_witness:
  "\<exists>n'. recovery_script direct_api ''s'' ''a'' (sample_storage ''m'' (sample_replicas True False)) = Some n' \<and>
     applyFollowerRoleToCoMasters (sample_env []) (sample_failover (idle_ChooseMaster no_limits))
       ((sample_analysis [])\<lparr>an_Set := \<lparr>set_UUID = ''s'', set_MasterUUID = ''a'', set_MasterURI = '''',
         set_Instances = [sample_discovery (sample_storage ''a'' (sample_replicas False True)) (zero_Instance\<lparr>inst_UUID := ''a''\<rparr>),
           sample_discovery n' (zero_Instance\<lparr>inst_UUID := ''m''\<rparr>)]\<rparr>\<rparr>) world0 = ([], world0)"
proof -
  let ?n = "sample_storage ''m'' (sample_replicas True False)"
  let ?mn = "sample_storage ''a'' (sample_replicas False True)"
  let ?mi = "sample_discovery ?mn (zero_Instance\<lparr>inst_UUID := ''a''\<rparr>)"
  have wf: "wf_cfg (nd_storage_cfg (sample_storage u (sample_replicas b c)))"
    and st: "storage_of ''s'' (sample_storage u (sample_replicas b c))"
    and nr: "node_replicas (sample_storage u (sample_replicas b c)) = sample_replicas b c" for u b c
    by (simp_all add: sample_storage_def sample_replicas_def wf_cfg_def table_def storage_of_def node_replicas_def)
  have "knows_set ''s'' ?n" by (simp add: knows_set_def active_cfg_def sample_storage_def)
  from direct_script[OF this, of "''a''"] obtain n' where n': "recovery_script direct_api ''s'' ''a'' ?n = Some n'" by blast
  let ?i = "sample_discovery n' (zero_Instance\<lparr>inst_UUID := ''m''\<rparr>)"
  let ?a = "(sample_analysis [])\<lparr>an_Set := \<lparr>set_UUID = ''s'', set_MasterUUID = ''a'', set_MasterURI = '''',
         set_Instances = [?mi, ?i]\<rparr>\<rparr>"
  have m: "Master (an_Set ?a) = Inr ?mi" and f: "Followers (an_Set ?a) = [?i]"
    by (simp_all add: Master_def Followers_eq sample_discovery_UUID)
  have flags: "set_masters ''a'' (node_replicas ?mn) = node_replicas ?mn"
    unfolding nr by (simp add: sample_replicas_def set_masters_def)
  have same: "same_but_masters (node_replicas ?n) (node_replicas ?mn)"
    unfolding nr by (simp add: sample_replicas_def same_but_masters_def same_table_def table_def)
  have "\<forall>i \<in> set (Followers (an_Set ?a)). \<exists>n n'. storage_of ''s'' n \<and> wf_cfg (nd_storage_cfg n) \<and>
       same_but_masters (node_replicas n) (node_replicas ?mn) \<and> recovery_script direct_api ''s'' ''a'' n = Some n' \<and>
       discovered_from sample_digest n' i"
  proof
    fix i
    assume "i \<in> set (Followers (an_Set ?a))"
    then have "i = ?i" unfolding f by simp
    then have i: "discovered_from sample_digest n' i" using sample_discovery_from by simp
    show "\<exists>n n'. storage_of ''s'' n \<and> wf_cfg (nd_storage_cfg n) \<and>
       same_but_masters (node_replicas n) (node_replicas ?mn) \<and> recovery_script direct_api ''s'' ''a'' n = Some n' \<and>
       discovered_from sample_digest n' i"
      by (rule exI[of _ ?n], rule exI[of _ n']) (intro conjI st wf same n' i)
  qed
  from conjunct2[OF demotion_converges[OF direct_api_contract m sample_discovery_from st wf flags this]] n'
  show ?thesis by (intro exI[of _ n'] conjI)
qed

text \<open>The condition on the flags of the master is needed.  When its configuration leaves out a flag that is
  false, a follower that ran the script has the flags of all, and with a digest that keeps the length of
  its input the two fingerprints differ for good.\<close>

theorem demotion_leaves_difference:
  "let t = [(''m'', [(''master'', LuaBool True)]), (''a'', [(''name'', LuaStr ''a'')])]; n = sample_storage ''a'' t
   in \<exists>n'. recovery_script direct_api ''s'' ''m'' n = Some n' \<and> named_masters ''s'' (nd_storage_cfg n') = [''m''] \<and>
      named_masters ''s'' (nd_storage_cfg n) = [''m''] \<and>
      fingerprint sample_digest (node_replicas n') \<noteq> fingerprint sample_digest (node_replicas n)"
  by (simp add: sample_storage_def recovery_script_def recovery_cfg_def set_replica_master_def direct_api_def
      named_masters_def fingerprint_def node_replicas_def sample_digest_def sorted_keys_def index_def Let_def)

end
