(* ===== verification/Go_Sort_Interface.thy ===== *)
theory Go_Sort_Interface
  imports Go_Sort
begin

text \<open>
  Go's \<open>sort.Interface\<close>: sorting in place through \<open>Len\<close>, \<open>Less\<close> and \<open>Swap\<close>.

  The package sees a collection only through these methods, so an algorithm is a function from the
  length to a program of comparisons and swaps, \<open>sort_prog\<close>, and \<open>sort_Sort\<close> runs it.  That a sort
  rearranges its input, and panics only when a comparison does, follows for every algorithm that
  stays within the indices; the locale \<open>sort_algorithm\<close> asks for nothing but the order of the result
  and meets \<open>sort_contract\<close>.  Insertion sort, which the package runs on short collections, is
  shown to be one.
\<close>

section \<open>Programs over the interface\<close>

record 's sort_interface =
  if_Len :: "'s \<Rightarrow> nat"
  if_Less :: "'s \<Rightarrow> nat \<Rightarrow> nat \<Rightarrow> bool option"
  if_Swap :: "'s \<Rightarrow> nat \<Rightarrow> nat \<Rightarrow> 's option"

datatype sort_prog = Sorted | IfLess nat nat sort_prog sort_prog | DoSwap nat nat sort_prog

text \<open>\<open>None\<close> is a panic, of a comparison or of an index.\<close>

fun run_sort :: "'s sort_interface \<Rightarrow> sort_prog \<Rightarrow> 's \<Rightarrow> 's option" where
  "run_sort I Sorted s = Some s"
| "run_sort I (IfLess i j p q) s =
     (case if_Less I s i j of None \<Rightarrow> None | Some b \<Rightarrow> run_sort I (if b then p else q) s)"
| "run_sort I (DoSwap i j p) s = Option.bind (if_Swap I s i j) (run_sort I p)"

definition sort_Sort :: "'s sort_interface \<Rightarrow> (nat \<Rightarrow> sort_prog) \<Rightarrow> 's \<Rightarrow> 's option" where
  "sort_Sort I alg s = run_sort I (alg (if_Len I s)) s"

text \<open>A slice with the two element methods Go programs write for it.\<close>

definition slice_Less :: "'a comparator \<Rightarrow> 'a list \<Rightarrow> nat \<Rightarrow> nat \<Rightarrow> bool option" where
  "slice_Less cmp xs i j = (if i < length xs \<and> j < length xs then cmp (xs ! i) (xs ! j) else None)"

definition slice_Swap :: "'a list \<Rightarrow> nat \<Rightarrow> nat \<Rightarrow> 'a list option" where
  "slice_Swap xs i j =
     (if i < length xs \<and> j < length xs then Some (xs[i := xs ! j, j := xs ! i]) else None)"

definition slice_interface :: "'a comparator \<Rightarrow> 'a list sort_interface" where
  "slice_interface cmp = \<lparr>if_Len = length, if_Less = slice_Less cmp, if_Swap = slice_Swap\<rparr>"

definition sorter_of :: "(nat \<Rightarrow> sort_prog) \<Rightarrow> 'a sorter" where
  "sorter_of alg cmp xs = sort_Sort (slice_interface cmp) alg xs"

text \<open>The indices of a program, and whether it compares before it is done.\<close>

fun in_range :: "nat \<Rightarrow> sort_prog \<Rightarrow> bool" where
  "in_range n Sorted = True"
| "in_range n (IfLess i j p q) = (i < n \<and> j < n \<and> in_range n p \<and> in_range n q)"
| "in_range n (DoSwap i j p) = (i < n \<and> j < n \<and> in_range n p)"

fun compares :: "sort_prog \<Rightarrow> bool" where
  "compares Sorted = False"
| "compares (IfLess i j p q) = True"
| "compares (DoSwap i j p) = compares p"

section \<open>Swaps rearrange\<close>

lemma slice_Swap_Some:
  assumes "slice_Swap xs i j = Some ys"
  shows "mset ys = mset xs" "length ys = length xs"
  using assms mset_swap[of j xs i] by (auto simp: slice_Swap_def split: if_splits)

lemma run_sort_perm: "run_sort (slice_interface cmp) p xs = Some ys \<Longrightarrow> mset ys = mset xs"
  by (induction p arbitrary: xs)
    (auto simp: slice_interface_def bind_eq_Some_conv slice_Swap_Some(1) split: option.splits if_splits)

lemma run_sort_returns:
  "in_range (length xs) p \<Longrightarrow> \<forall>x \<in> set xs. \<forall>y \<in> set xs. cmp x y \<noteq> None \<Longrightarrow>
   run_sort (slice_interface cmp) p xs \<noteq> None"
proof (induction p arbitrary: xs)
  case (IfLess i j p q)
  then have "cmp (xs ! i) (xs ! j) \<noteq> None" by simp
  then obtain b where "cmp (xs ! i) (xs ! j) = Some b" by blast
  with IfLess show ?case by (simp add: slice_interface_def slice_Less_def)
next
  case (DoSwap i j p)
  then obtain ys where s: "slice_Swap xs i j = Some ys" by (simp add: slice_Swap_def)
  from slice_Swap_Some[OF s] have "set ys = set xs" "length ys = length xs" by (auto dest: mset_eq_setD)
  with DoSwap s show ?case by (simp add: slice_interface_def)
qed simp

lemma run_sort_panics:
  "compares p \<Longrightarrow> \<forall>x \<in> set xs. \<forall>y \<in> set xs. cmp x y = None \<Longrightarrow> run_sort (slice_interface cmp) p xs = None"
proof (induction p arbitrary: xs)
  case (DoSwap i j p)
  show ?case
  proof (cases "slice_Swap xs i j")
    case (Some ys)
    from slice_Swap_Some(1)[OF this] have "set ys = set xs" by (rule mset_eq_setD)
    with DoSwap Some show ?thesis by (simp add: slice_interface_def)
  qed (simp add: slice_interface_def)
qed (simp_all add: slice_interface_def slice_Less_def)

section \<open>Algorithms that sort\<close>

locale sort_algorithm =
  fixes alg :: "nat \<Rightarrow> sort_prog"
  assumes alg_in_range: "in_range n (alg n)"
    and alg_compares: "2 \<le> n \<Longrightarrow> compares (alg n)"
    and alg_sorts: "strict_weak (set xs) (\<lambda>x y. cmp x y = Some True) \<Longrightarrow> sorter_of alg cmp xs = Some (ys :: 'a list) \<Longrightarrow>
       sorted_wrt (\<lambda>x y. cmp y x \<noteq> Some True) ys"
begin

lemma sorter_contract: "sort_contract (sorter_of alg :: 'a sorter)"
proof
  fix cmp :: "'a comparator" and xs ys
  assume "sorter_of alg cmp xs = Some ys"
  then show "mset ys = mset xs" by (simp add: sorter_of_def sort_Sort_def run_sort_perm)
next
  fix cmp :: "'a comparator" and xs
  assume "\<forall>x \<in> set xs. \<forall>y \<in> set xs. cmp x y \<noteq> None"
  with run_sort_returns[OF alg_in_range] show "sorter_of alg cmp xs \<noteq> None"
    by (simp add: sorter_of_def sort_Sort_def slice_interface_def)
next
  fix cmp :: "'a comparator" and xs
  assume "2 \<le> length xs" "\<forall>x \<in> set xs. \<forall>y \<in> set xs. cmp x y = None"
  with run_sort_panics[OF alg_compares] show "sorter_of alg cmp xs = None"
    by (simp add: sorter_of_def sort_Sort_def slice_interface_def)
qed (rule alg_sorts)

end

section \<open>Insertion sort\<close>

text \<open>\<open>insertionSort\<close>: the element at \<open>i\<close> moves left while it is less than its neighbour.\<close>

fun sift_prog :: "nat \<Rightarrow> sort_prog \<Rightarrow> sort_prog" where
  "sift_prog 0 rest = rest"
| "sift_prog (Suc j) rest = IfLess (Suc j) j (DoSwap (Suc j) j (sift_prog j rest)) rest"

definition insertion_prog :: "nat \<Rightarrow> sort_prog" where
  "insertion_prog n = foldr sift_prog [1..<n] Sorted"

lemma run_sift:
  "run_sort (slice_interface cmp) (sift_prog (length ys) rest) (rev ys @ x # zs) =
     Option.bind (insert_left cmp x ys) (\<lambda>ws. run_sort (slice_interface cmp) rest (rev ws @ zs))"
proof (induction ys arbitrary: zs)
  case (Cons y ys)
  have n: "(rev ys @ y # x # zs) ! Suc (length ys) = x" "(rev ys @ y # x # zs) ! length ys = y"
    using nth_append_length[of "rev ys @ [y]" x zs] nth_append_length[of "rev ys" y "x # zs"] by simp_all
  have s: "(rev ys @ y # x # zs)[Suc (length ys) := y, length ys := x] = rev ys @ x # y # zs"
    by (simp add: list_update_append)
  show ?case
    using Cons.IH[of "y # zs"] n s
    by (cases "insert_left cmp x ys")
      (auto simp: slice_interface_def slice_Less_def slice_Swap_def split: option.split bool.split)
qed simp

lemma run_insertion:
  "run_sort (slice_interface cmp) (foldr sift_prog [length pre..<length pre + length xs] Sorted) (rev pre @ xs) =
     map_option rev (insertion_loop cmp pre xs)"
proof (induction xs arbitrary: pre)
  case (Cons x xs)
  have u: "[length pre..<length pre + length (x # xs)] = length pre # [Suc (length pre)..<Suc (length pre) + length xs]"
    by (subst upt_conv_Cons) (simp_all del: upt_Suc)
  have "run_sort (slice_interface cmp) (foldr sift_prog [Suc (length pre)..<Suc (length pre) + length xs] Sorted) (rev ws @ xs) =
      map_option rev (insertion_loop cmp ws xs)" if "insert_left cmp x pre = Some ws" for ws
  proof -
    have "length ws = Suc (length pre)" using insert_left_perm[OF that] by (metis size_mset size_add_mset)
    with Cons.IH[of ws] show ?thesis by simp
  qed
  then show ?case unfolding u by (simp add: run_sift del: upt_Suc) (cases "insert_left cmp x pre"; simp)
qed simp

lemma sorter_of_insertion: "sorter_of insertion_prog = insertion_sort"
proof (intro ext)
  fix cmp :: "'a comparator" and xs
  show "sorter_of insertion_prog cmp xs = insertion_sort cmp xs"
  proof (cases xs)
    case Nil
    then show ?thesis by (simp add: sorter_of_def sort_Sort_def insertion_prog_def insertion_sort_def slice_interface_def)
  next
    case (Cons x ys)
    with run_insertion[of cmp "[x]" ys] show ?thesis
      by (simp add: sorter_of_def sort_Sort_def insertion_prog_def insertion_sort_def slice_interface_def)
  qed
qed

lemma in_range_sift: "i < n \<Longrightarrow> in_range n p \<Longrightarrow> in_range n (sift_prog i p)"
  by (induction i) auto

lemma in_range_foldr: "\<forall>i \<in> set is. i < n \<Longrightarrow> in_range n (foldr sift_prog is Sorted)"
  by (induction "is") (auto intro: in_range_sift)

interpretation insertion: sort_algorithm insertion_prog
proof
  show "in_range n (insertion_prog n)" for n
    unfolding insertion_prog_def by (rule in_range_foldr) simp
  show "compares (insertion_prog n)" if "2 \<le> n" for n
    using that by (simp add: insertion_prog_def upt_conv_Cons numeral_2_eq_2)
qed (simp add: sorter_of_insertion sort_contract.srt_sorted[OF insertion_sort_contract])

end
