(* ===== verification/Orch_Sorters.thy ===== *)
theory Orch_Sorters
  imports Go_Sort_Interface Orch_Failover
begin

text \<open>
  The two types that implement \<open>sort.Interface\<close>: \<open>instanceSorter\<close> of internal/quorum/smart.go and
  \<open>InstanceFailoverSorter\<close> of internal/vshard/orchestrator/instance_utils.go.  Both sort a slice in place;
  what the callers then read from the slice is what the sorted list of \<open>Quorum_Elector\<close> and
  \<open>Orch_Failover\<close> says.
\<close>

section \<open>instanceSorter\<close>

record instanceSorter =
  so_master :: Instance
  so_instances :: "Instance list"

definition newInstanceSorter :: "Instance \<Rightarrow> Instance list \<Rightarrow> instanceSorter" where
  "newInstanceSorter master instances = \<lparr>so_master = master, so_instances = instances\<rparr>"

definition instanceSorter_Len :: "instanceSorter \<Rightarrow> nat" where
  "instanceSorter_Len s = length (so_instances s)"

text \<open>\<open>None\<close> is the panic on an index out of range.\<close>

definition instanceSorter_Swap :: "instanceSorter \<Rightarrow> nat \<Rightarrow> nat \<Rightarrow> instanceSorter option" where
  "instanceSorter_Swap s i j =
     (let xs = so_instances s
      in if i < length xs \<and> j < length xs then Some (s\<lparr>so_instances := xs[i := xs ! j, j := xs ! i]\<rparr>) else None)"

definition instanceSorter_Less :: "instanceSorter \<Rightarrow> nat \<Rightarrow> nat \<Rightarrow> bool option" where
  "instanceSorter_Less s i j =
     (let xs = so_instances s
      in if i < length xs \<and> j < length xs then smart_less (so_master s) (xs ! i) (xs ! j) else None)"

definition instanceSorter_interface :: "instanceSorter sort_interface" where
  "instanceSorter_interface =
     \<lparr>if_Len = instanceSorter_Len, if_Less = instanceSorter_Less, if_Swap = instanceSorter_Swap\<rparr>"

text \<open>\<open>ChooseMaster\<close> as it is written: \<open>followers[0]\<close> is read from the slice the sorter has sorted.\<close>

definition smart_ChooseMaster_in_place :: "(nat \<Rightarrow> sort_prog) \<Rightarrow> Options \<Rightarrow> choose_fun" where
  "smart_ChooseMaster_in_place alg opts rs =
     (let followers = filter_candidates (AliveFollowers rs) opts
      in if length followers = 0 then Some (Inl ErrNoAliveFollowers)
         else case Master rs of
           Inl e \<Rightarrow> Some (Inl (ErrNoMaster e))
         | Inr master \<Rightarrow>
             (let sorter = newInstanceSorter master followers
              in case sort_Sort instanceSorter_interface alg sorter of
                   None \<Rightarrow> None
                 | Some sorter \<Rightarrow>
                     (let followers = so_instances sorter
                      in if 0 < length followers then Some (Inr (inst_UUID (followers ! 0))) else None)))"

section \<open>InstanceFailoverSorter\<close>

record InstanceFailoverSorter =
  fs_instances :: "Instance list"

definition NewInstanceFailoverSorter :: "Instance list \<Rightarrow> InstanceFailoverSorter" where
  "NewInstanceFailoverSorter instances = \<lparr>fs_instances = instances\<rparr>"

definition failoverSorter_Len :: "InstanceFailoverSorter \<Rightarrow> nat" where
  "failoverSorter_Len s = length (fs_instances s)"

definition failoverSorter_Swap :: "InstanceFailoverSorter \<Rightarrow> nat \<Rightarrow> nat \<Rightarrow> InstanceFailoverSorter option" where
  "failoverSorter_Swap s i j =
     (let xs = fs_instances s
      in if i < length xs \<and> j < length xs then Some (s\<lparr>fs_instances := xs[i := xs ! j, j := xs ! i]\<rparr>) else None)"

definition failoverSorter_Less :: "InstanceFailoverSorter \<Rightarrow> nat \<Rightarrow> nat \<Rightarrow> bool option" where
  "failoverSorter_Less s i j =
     (let xs = fs_instances s
      in if i < length xs \<and> j < length xs then Some (failover_less (xs ! i) (xs ! j)) else None)"

definition failoverSorter_interface :: "InstanceFailoverSorter sort_interface" where
  "failoverSorter_interface =
     \<lparr>if_Len = failoverSorter_Len, if_Less = failoverSorter_Less, if_Swap = failoverSorter_Swap\<rparr>"

section \<open>A sorter as the slice it holds\<close>

lemma run_instanceSorter:
  "run_sort instanceSorter_interface p \<lparr>so_master = m, so_instances = xs\<rparr> =
     map_option (\<lambda>ys. \<lparr>so_master = m, so_instances = ys\<rparr>) (run_sort (slice_interface (smart_less m)) p xs)"
proof (induction p arbitrary: xs)
  case (IfLess i j p q)
  then show ?case
    by (auto simp: instanceSorter_interface_def slice_interface_def instanceSorter_Less_def slice_Less_def Let_def split: option.split)
next
  case (DoSwap i j p)
  then show ?case
    by (auto simp: instanceSorter_interface_def slice_interface_def instanceSorter_Swap_def slice_Swap_def Let_def)
qed simp

lemma run_failoverSorter:
  "run_sort failoverSorter_interface p \<lparr>fs_instances = xs\<rparr> =
     map_option (\<lambda>ys. \<lparr>fs_instances = ys\<rparr>) (run_sort (slice_interface (\<lambda>x y. Some (failover_less x y))) p xs)"
proof (induction p arbitrary: xs)
  case (IfLess i j p q)
  then show ?case
    by (auto simp: failoverSorter_interface_def slice_interface_def failoverSorter_Less_def slice_Less_def Let_def split: option.split)
next
  case (DoSwap i j p)
  then show ?case
    by (auto simp: failoverSorter_interface_def slice_interface_def failoverSorter_Swap_def slice_Swap_def Let_def)
qed simp

section \<open>Properties\<close>

text \<open>C15: sorting in place through the three methods of the sorters is sorting: whatever algorithm the package
  uses, if it orders a slice it meets the contract of a sort, the elector elects the first
  of the sorted candidates, and the failover updates the instances in the sorted order.\<close>

theorem sorting_in_place:
  assumes "sort_algorithm TYPE(Instance) alg"
  shows "sort_contract (sorter_of alg :: Instance sorter) \<and>
     smart_ChooseMaster_in_place alg opts rs = smart_ChooseMaster (sorter_of alg) opts rs \<and>
     sort_Sort failoverSorter_interface alg (NewInstanceFailoverSorter instances) =
       Some \<lparr>fs_instances = sort_by (sorter_of alg) failover_less instances\<rparr>"
proof -
  have c: "sort_contract (sorter_of alg :: Instance sorter)"
    by (rule sort_algorithm.sorter_contract[OF assms])
  have s: "sort_Sort instanceSorter_interface alg (newInstanceSorter m xs) =
      map_option (\<lambda>ys. \<lparr>so_master = m, so_instances = ys\<rparr>) (sorter_of alg (smart_less m) xs)" for m xs
    by (simp add: sort_Sort_def sorter_of_def newInstanceSorter_def run_instanceSorter)
      (simp add: instanceSorter_interface_def instanceSorter_Len_def slice_interface_def)
  have "smart_ChooseMaster_in_place alg opts rs = smart_ChooseMaster (sorter_of alg) opts rs"
    unfolding smart_ChooseMaster_in_place_def smart_ChooseMaster_def Let_def s
    by (auto split: sum.split option.split list.split)
  moreover have "sort_Sort failoverSorter_interface alg (NewInstanceFailoverSorter instances) =
      map_option (\<lambda>ys. \<lparr>fs_instances = ys\<rparr>) (sorter_of alg (\<lambda>x y. Some (failover_less x y)) instances)"
    by (simp add: sort_Sort_def sorter_of_def NewInstanceFailoverSorter_def run_failoverSorter)
      (simp add: failoverSorter_interface_def failoverSorter_Len_def slice_interface_def)
  ultimately show ?thesis using c by (simp add: sort_contract.sort_by_Some[OF c])
qed

theorem sorting_in_place_witness:
  "smart_ChooseMaster_in_place insertion_prog no_limits (sample_set [sample_follower ''b'' 9, sample_follower ''a'' 7]) =
     smart_ChooseMaster insertion_sort no_limits (sample_set [sample_follower ''b'' 9, sample_follower ''a'' 7])"
  using sorting_in_place[OF insertion.sort_algorithm_axioms] by (simp add: sorter_of_insertion)

end
