(* ===== verification/Go_Json.thy ===== *)
theory Go_Json
  imports Vshard_Parser
begin

text \<open>
  encoding/json as the storage and the HTTP interface use it, on documents as trees.

  \<open>Marshal\<close> writes the exported fields of a struct under their tags, in order; a map under its
  keys in ascending order; a nil pointer as null; and fails on a float that is not finite.
  \<open>Unmarshal\<close> takes for every field the last member of its name, leaves a field alone that has
  none or whose member is null (so it keeps its zero value), and fails on a member of another kind
  or a number that does not fit.  A number remembers whether it was written from an integer or a
  float; a float with an integral value is written as its digits, so it reads back as an integer.

  The text of a document is not modelled: strings are taken to be valid UTF-8 (others are
  altered by \<open>Marshal\<close>), and names of members are compared exactly, as in every document the
  program has written.
\<close>

datatype json =
    JNull
  | JBool bool
  | JInt int
  | JFloat float64
  | JStr string
  | JArr "json list"
  | JObj "(string \<times> json) list"

datatype json_error = ErrUnsupportedValue | ErrUnmarshalType | ErrSyntax

type_synonym 'a encoder = "'a \<Rightarrow> (json_error, json) go_result"
type_synonym 'a decoder = "json \<Rightarrow> (json_error, 'a) go_result"

section \<open>Values\<close>

definition enc_int :: "int encoder" where "enc_int n = Inr (JInt n)"
definition enc_uint :: "uint64 encoder" where "enc_uint w = Inr (JInt (uint w))"
definition enc_str :: "string encoder" where "enc_str s = Inr (JStr s)"
definition enc_bool :: "bool encoder" where "enc_bool b = Inr (JBool b)"

fun enc_float :: "float64 encoder" where
  "enc_float (FFin k) = Inr (JFloat (FFin k))"
| "enc_float _ = Inl ErrUnsupportedValue"

text \<open>The integer a number denotes, if it is written without a fraction.\<close>

fun json_integer :: "json \<Rightarrow> int option" where
  "json_integer (JInt n) = Some n"
| "json_integer (JFloat (FFin k)) = (if 2 ^ 1074 dvd k then Some (k div 2 ^ 1074) else None)"
| "json_integer _ = None"

definition dec_int :: "int decoder" where
  "dec_int j = (case json_integer j of
     Some n \<Rightarrow> if in_int64 n then Inr n else Inl ErrUnmarshalType
   | None \<Rightarrow> Inl ErrUnmarshalType)"

definition dec_uint :: "uint64 decoder" where
  "dec_uint j = (case json_integer j of
     Some n \<Rightarrow> if 0 \<le> n \<and> n < 2 ^ 64 then Inr (word_of_int n) else Inl ErrUnmarshalType
   | None \<Rightarrow> Inl ErrUnmarshalType)"

fun dec_float :: "float64 decoder" where
  "dec_float (JFloat (FFin k)) = Inr (FFin k)"
| "dec_float (JInt n) = (case f64_of_int n of FFin k \<Rightarrow> Inr (FFin k) | _ \<Rightarrow> Inl ErrUnmarshalType)"
| "dec_float _ = Inl ErrUnmarshalType"

fun dec_str :: "string decoder" where
  "dec_str (JStr s) = Inr s"
| "dec_str _ = Inl ErrUnmarshalType"

fun dec_bool :: "bool decoder" where
  "dec_bool (JBool b) = Inr b"
| "dec_bool _ = Inl ErrUnmarshalType"

section \<open>Slices, pointers, structs, maps\<close>

fun seqR :: "('e, 'a) go_result list \<Rightarrow> ('e, 'a list) go_result" where
  "seqR [] = Inr []"
| "seqR (r # rs) = bindR r (\<lambda>x. bindR (seqR rs) (\<lambda>xs. Inr (x # xs)))"

definition enc_list :: "'a encoder \<Rightarrow> 'a list encoder" where
  "enc_list e xs = bindR (seqR (map e xs)) (\<lambda>js. Inr (JArr js))"

text \<open>A null element leaves the zero value of the element type, \<open>z\<close>.\<close>

definition dec_list :: "'a decoder \<Rightarrow> 'a \<Rightarrow> 'a list decoder" where
  "dec_list d z j = (case j of
     JArr js \<Rightarrow> seqR (map (\<lambda>j. if j = JNull then Inr z else d j) js)
   | _ \<Rightarrow> Inl ErrUnmarshalType)"

definition enc_ptr :: "'a encoder \<Rightarrow> 'a option encoder" where
  "enc_ptr e p = (case p of None \<Rightarrow> Inr JNull | Some x \<Rightarrow> e x)"

definition dec_ptr :: "'a decoder \<Rightarrow> 'a option decoder" where
  "dec_ptr d j = bindR (d j) (\<lambda>x. Inr (Some x))"

definition enc_obj :: "(string \<times> (json_error, json) go_result) list \<Rightarrow> (json_error, json) go_result" where
  "enc_obj fs = bindR (seqR (map snd fs)) (\<lambda>js. Inr (JObj (zip (map fst fs) js)))"

fun obj_get :: "(string \<times> json) list \<Rightarrow> string \<Rightarrow> json option" where
  "obj_get [] k = None"
| "obj_get ((a, v) # fs) k =
     (case obj_get fs k of Some w \<Rightarrow> Some w | None \<Rightarrow> if a = k then Some v else None)"

fun dec_obj :: "(string \<times> json) list decoder" where
  "dec_obj (JObj fs) = Inr fs"
| "dec_obj _ = Inl ErrUnmarshalType"

text \<open>A field with zero value \<open>z\<close>.\<close>

definition fld :: "(string \<times> json) list \<Rightarrow> string \<Rightarrow> 'a decoder \<Rightarrow> 'a \<Rightarrow> (json_error, 'a) go_result" where
  "fld fs k d z = (case obj_get fs k of None \<Rightarrow> Inr z | Some j \<Rightarrow> if j = JNull then Inr z else d j)"

text \<open>A map is the list of its entries; \<open>Marshal\<close> sorts the keys.\<close>

definition enc_map :: "'a encoder \<Rightarrow> (string \<times> 'a) list encoder" where
  "enc_map e m = enc_obj (map (\<lambda>(k, x). (k, e x)) (sort_key fst m))"

definition dec_map :: "'a decoder \<Rightarrow> 'a \<Rightarrow> (string \<times> 'a) list decoder" where
  "dec_map d z j =
     bindR (dec_obj j) (\<lambda>fs.
     seqR (map (\<lambda>k. bindR (fld fs k d z) (\<lambda>x. Inr (k, x))) (remdups (map fst fs))))"

lemma seqR_length: "seqR rs = Inr xs \<Longrightarrow> length xs = length rs"
  by (induction rs arbitrary: xs) (auto simp: bindR_Inr_iff)

lemma obj_get_absent: "k \<notin> fst ` set fs \<Longrightarrow> obj_get fs k = None"
  by (induction fs k rule: obj_get.induct) auto

lemma obj_get_zip: "distinct ks \<Longrightarrow> (k, j) \<in> set (zip ks js) \<Longrightarrow> obj_get (zip ks js) k = Some j"
proof (induction ks arbitrary: js)
  case (Cons k' ks)
  then obtain j' js' where js: "js = j' # js'" by (cases js) auto
  show ?case
  proof (cases "k = k'")
    case True
    with Cons.prems(1) have "k \<notin> fst ` set (zip ks js')" by (auto dest: set_zip_leftD)
    moreover from True Cons.prems js have "j = j'" by (auto dest: set_zip_leftD)
    ultimately show ?thesis using True js by (simp add: obj_get_absent)
  next
    case False
    with Cons js show ?thesis by simp
  qed
qed simp

lemma seqR_zip:
  "length js = length ks \<Longrightarrow> seqR (map (\<lambda>(k, j). bindR (g j) (\<lambda>x. Inr (k, x))) (zip ks js)) =
     bindR (seqR (map g js)) (\<lambda>xs. Inr (zip ks xs))"
proof (induction js ks rule: list_induct2)
  case (Cons j js k ks)
  then show ?case by (cases "g j"; cases "seqR (map g js)") simp_all
qed simp

lemma seqR_fields:
  assumes l: "length js = length ks" and d: "distinct ks"
  shows "seqR (map (\<lambda>k. bindR (fld (zip ks js) k dec z) (\<lambda>x. Inr (k, x))) ks) =
     bindR (seqR (map (\<lambda>j. if j = JNull then Inr z else dec j) js)) (\<lambda>xs. Inr (zip ks xs))"
proof -
  let ?F = "\<lambda>k. bindR (fld (zip ks js) k dec z) (\<lambda>x. Inr (k, x))"
  let ?g = "\<lambda>j. if j = JNull then Inr z else dec j"
  have "map ?F ks = map (?F \<circ> fst) (zip ks js)" using l by (simp flip: map_map)
  also have "\<dots> = map (\<lambda>(k, j). bindR (?g j) (\<lambda>x. Inr (k, x))) (zip ks js)"
    by (rule map_cong) (auto simp: fld_def obj_get_zip[OF d])
  finally show ?thesis using seqR_zip[OF l, of ?g] by simp
qed

section \<open>The contract of a codec\<close>

text \<open>
  What is written can be read back, as what \<open>view\<close> keeps of it, and is not null.
\<close>

locale codec =
  fixes enc :: "'a encoder" and dec :: "'a decoder" and wf :: "'a \<Rightarrow> bool" and view :: "'a \<Rightarrow> 'a"
  assumes encodes: "wf x \<Longrightarrow> \<exists>j. enc x = Inr j \<and> j \<noteq> JNull \<and> dec j = Inr (view x)"
begin

lemma encodeE:
  assumes "wf x"
  obtains j where "enc x = Inr j" "j \<noteq> JNull" "dec j = Inr (view x)"
  using encodes[OF assms] by blast

lemma list_elements:
  "list_all wf xs \<Longrightarrow> \<exists>js. seqR (map enc xs) = Inr js \<and>
     seqR (map (\<lambda>j. if j = JNull then Inr z else dec j) js) = Inr (map view xs)"
proof (induction xs)
  case (Cons x xs)
  then have wf: "wf x" "list_all wf xs" by simp_all
  from encodes[OF wf(1)] obtain j where j: "enc x = Inr j" "j \<noteq> JNull" "dec j = Inr (view x)" by blast
  from Cons.IH[OF wf(2)] obtain js where "seqR (map enc xs) = Inr js"
    "seqR (map (\<lambda>j. if j = JNull then Inr z else dec j) js) = Inr (map view xs)" by blast
  with j show ?case by (intro exI[of _ "j # js"]) simp
qed simp

lemma enc_list_roundtrip: "codec (enc_list enc) (dec_list dec z) (list_all wf) (map view)"
proof
  fix xs assume "list_all wf xs"
  from list_elements[OF this, of z]
  show "\<exists>j. enc_list enc xs = Inr j \<and> j \<noteq> JNull \<and> dec_list dec z j = Inr (map view xs)"
    by (auto simp: enc_list_def dec_list_def)
qed

text \<open>A pointer field: null when nil, and then nothing is read.\<close>

lemma enc_ptr_roundtrip:
  assumes "pred_option wf p"
  obtains j where "enc_ptr enc p = Inr j"
    "(if j = JNull then Inr None else dec_ptr dec j) = Inr (map_option view p)"
proof (cases p)
  case None
  then show ?thesis by (intro that[of JNull]) (simp_all add: enc_ptr_def)
next
  case (Some x)
  with assms have "wf x" by simp
  from encodes[OF this] obtain j where "enc x = Inr j" "j \<noteq> JNull" "dec j = Inr (view x)" by blast
  with Some show ?thesis by (intro that[of j]) (simp_all add: enc_ptr_def dec_ptr_def)
qed

text \<open>A map with distinct keys is read back sorted.\<close>

lemma enc_map_roundtrip:
  "codec (enc_map enc) (dec_map dec z) (\<lambda>m. distinct (map fst m) \<and> list_all (wf \<circ> snd) m)
     (\<lambda>m. map (\<lambda>(k, x). (k, view x)) (sort_key fst m))"
proof
  fix m :: "(string \<times> 'a) list"
  assume m: "distinct (map fst m) \<and> list_all (wf \<circ> snd) m"
  let ?m = "sort_key fst m"
  have "mset (map fst ?m) = mset (map fst m)" by simp
  then have d: "distinct (map fst ?m)" using m mset_eq_imp_distinct_iff by blast
  have "list_all wf (map snd ?m)" using m by (auto simp: list_all_iff)
  from list_elements[OF this, of z] obtain js where e: "seqR (map enc (map snd ?m)) = Inr js"
    and r: "seqR (map (\<lambda>j. if j = JNull then Inr z else dec j) js) = Inr (map view (map snd ?m))" by blast
  have l: "length js = length (map fst ?m)" using seqR_length[OF e] by simp
  have "enc_map enc m = Inr (JObj (zip (map fst ?m) js))"
    using e by (simp add: enc_map_def enc_obj_def comp_def case_prod_beta)
  moreover have "dec_map dec z (JObj (zip (map fst ?m) js)) = Inr (zip (map fst ?m) (map view (map snd ?m)))"
    using seqR_fields[OF l d, of dec z] r l d by (simp add: dec_map_def distinct_remdups_id)
  moreover have "zip (map fst ?m) (map view (map snd ?m)) = map (\<lambda>(k, x). (k, view x)) ?m"
    by (simp add: zip_map_map comp_def case_prod_beta zip_map1 zip_map2 zip_same_conv_map)
  ultimately show "\<exists>j. enc_map enc m = Inr j \<and> j \<noteq> JNull \<and>
      dec_map dec z j = Inr (map (\<lambda>(k, x). (k, view x)) ?m)" by simp
qed

end

lemma enc_obj_simps [simp]:
  "enc_obj [] = Inr (JObj [])"
  "enc_obj ((k, Inr j) # fs) = bindR (enc_obj fs) (\<lambda>o'. case o' of JObj ms \<Rightarrow> Inr (JObj ((k, j) # ms)) | _ \<Rightarrow> Inr o')"
proof -
  show "enc_obj ((k, Inr j) # fs) = bindR (enc_obj fs) (\<lambda>o'. case o' of JObj ms \<Rightarrow> Inr (JObj ((k, j) # ms)) | _ \<Rightarrow> Inr o')"
    by (cases "seqR (map snd fs)") (simp_all add: enc_obj_def)
qed (simp add: enc_obj_def)

interpretation json_int: codec enc_int dec_int in_int64 id
  by unfold_locales (simp add: enc_int_def dec_int_def)

interpretation json_uint: codec enc_uint dec_uint "\<lambda>_. True" id
proof
  fix x :: uint64
  show "\<exists>j. enc_uint x = Inr j \<and> j \<noteq> JNull \<and> dec_uint j = Inr (id x)"
    using uint_lt2p[of x] by (simp add: enc_uint_def dec_uint_def)
qed

interpretation json_str: codec enc_str dec_str "\<lambda>_. True" id
  by unfold_locales (simp add: enc_str_def)

interpretation json_bool: codec enc_bool dec_bool "\<lambda>_. True" id
  by unfold_locales (simp add: enc_bool_def)

fun finite_float :: "float64 \<Rightarrow> bool" where
  "finite_float (FFin _) = True"
| "finite_float _ = False"

interpretation json_float: codec enc_float dec_float finite_float id
proof
  fix x assume "finite_float x"
  then show "\<exists>j. enc_float x = Inr j \<and> j \<noteq> JNull \<and> dec_float j = Inr (id x)" by (cases x) auto
qed

lemma enc_float_Inr_iff: "(\<exists>j. enc_float x = Inr j) \<longleftrightarrow> finite_float x"
  by (cases x) auto


lemmas json_prims = enc_int_def enc_uint_def enc_str_def enc_bool_def dec_int_def dec_uint_def fld_def

lemma uint_less_2p64 [simp]: "uint (w :: uint64) < 18446744073709551616"
  using uint_lt2p[of w] by simp

end
