(* ===== verification/Vshard_Json.thy ===== *)
theory Vshard_Json
  imports Go_Json Orch_Recovery
begin

text \<open>
  How the types of internal/vshard and internal/vshard/orchestrator are written to and read from
  JSON: the tags of their struct declarations.  Each type has an encoder, a decoder and an
  interpretation of the codec contract, which says what survives: everything but the
  unexported priorities of a snapshot, and the order of the entries of a map.

  The analysis state has only its ten constants here; a document with another text for it is
  refused, while Go would keep the text, and where a recovery has no analysis at all the model reads
  NoProblem for Go's empty text.  The program writes no such document.
\<close>

section \<open>Alerts, buckets, storage information\<close>

definition enc_Alert :: "Alert encoder" where
  "enc_Alert a = enc_obj [(''type'', enc_str (alert_Type a)), (''description'', enc_str (alert_Description a))]"

definition dec_Alert :: "Alert decoder" where
  "dec_Alert j = bindR (dec_obj j) (\<lambda>fs.
     bindR (fld fs ''type'' dec_str '''') (\<lambda>t.
     bindR (fld fs ''description'' dec_str '''') (\<lambda>d.
     Inr \<lparr>alert_Type = t, alert_Description = d\<rparr>)))"

definition zero_Alert :: Alert where "zero_Alert = \<lparr>alert_Type = '''', alert_Description = ''''\<rparr>"

interpretation Alert_json: codec enc_Alert dec_Alert "\<lambda>_. True" id
  by unfold_locales (simp add: enc_Alert_def dec_Alert_def json_prims)

definition enc_InstanceBucket :: "InstanceBucket encoder" where
  "enc_InstanceBucket b = enc_obj
     [(''active'', enc_int (bkt_Active b)), (''garbage'', enc_int (bkt_Garbage b)),
      (''pinned'', enc_int (bkt_Pinned b)), (''receiving'', enc_int (bkt_Receiving b)),
      (''sending'', enc_int (bkt_Sending b)), (''total'', enc_int (bkt_Total b))]"

definition dec_InstanceBucket :: "InstanceBucket decoder" where
  "dec_InstanceBucket j = bindR (dec_obj j) (\<lambda>fs.
     bindR (fld fs ''active'' dec_int 0) (\<lambda>a.
     bindR (fld fs ''garbage'' dec_int 0) (\<lambda>g.
     bindR (fld fs ''pinned'' dec_int 0) (\<lambda>p.
     bindR (fld fs ''receiving'' dec_int 0) (\<lambda>r.
     bindR (fld fs ''sending'' dec_int 0) (\<lambda>s.
     bindR (fld fs ''total'' dec_int 0) (\<lambda>t.
     Inr \<lparr>bkt_Active = a, bkt_Garbage = g, bkt_Pinned = p, bkt_Receiving = r, bkt_Sending = s,
          bkt_Total = t\<rparr>)))))))"

definition wf_InstanceBucket :: "InstanceBucket \<Rightarrow> bool" where
  "wf_InstanceBucket b \<longleftrightarrow> list_all in_int64 [bkt_Active b, bkt_Garbage b, bkt_Pinned b, bkt_Receiving b,
     bkt_Sending b, bkt_Total b]"

interpretation InstanceBucket_json: codec enc_InstanceBucket dec_InstanceBucket wf_InstanceBucket id
  by unfold_locales (simp add: enc_InstanceBucket_def dec_InstanceBucket_def wf_InstanceBucket_def json_prims)

text \<open>\<open>Replication\<close> is a struct with one field; the model keeps only that field.\<close>

definition enc_Replication :: "ReplicationStatus encoder" where
  "enc_Replication s = enc_obj [(''status'', enc_str s)]"

definition dec_Replication :: "ReplicationStatus decoder" where
  "dec_Replication j = bindR (dec_obj j) (\<lambda>fs. fld fs ''status'' dec_str '''')"

interpretation Replication_json: codec enc_Replication dec_Replication "\<lambda>_. True" id
  by unfold_locales (simp add: enc_Replication_def dec_Replication_def json_prims)

definition enc_StorageInfo :: "StorageInfo encoder" where
  "enc_StorageInfo s = enc_obj
     [(''status'', enc_int (si_Status s)), (''replication'', enc_Replication (si_Replication_Status s)),
      (''bucket'', enc_InstanceBucket (si_Bucket s)), (''alerts'', enc_list enc_Alert (si_Alerts s))]"

definition dec_StorageInfo :: "StorageInfo decoder" where
  "dec_StorageInfo j = bindR (dec_obj j) (\<lambda>fs.
     bindR (fld fs ''status'' dec_int 0) (\<lambda>s.
     bindR (fld fs ''replication'' dec_Replication '''') (\<lambda>r.
     bindR (fld fs ''bucket'' dec_InstanceBucket zero_InstanceBucket) (\<lambda>b.
     bindR (fld fs ''alerts'' (dec_list dec_Alert zero_Alert) []) (\<lambda>a.
     Inr \<lparr>si_Status = s, si_Replication_Status = r, si_Bucket = b, si_Alerts = a\<rparr>)))))"

definition wf_StorageInfo :: "StorageInfo \<Rightarrow> bool" where
  "wf_StorageInfo s \<longleftrightarrow> in_int64 (si_Status s) \<and> wf_InstanceBucket (si_Bucket s)"

interpretation StorageInfo_json: codec enc_StorageInfo dec_StorageInfo wf_StorageInfo id
proof
  fix s assume wf: "wf_StorageInfo s"
  then have w: "in_int64 (si_Status s)" "wf_InstanceBucket (si_Bucket s)" by (simp_all add: wf_StorageInfo_def)
  obtain r where "enc_Replication (si_Replication_Status s) = Inr r" "r \<noteq> JNull"
    "dec_Replication r = Inr (id (si_Replication_Status s))" by (rule Replication_json.encodeE) simp
  moreover obtain b where "enc_InstanceBucket (si_Bucket s) = Inr b" "b \<noteq> JNull"
    "dec_InstanceBucket b = Inr (id (si_Bucket s))"
    by (rule InstanceBucket_json.encodeE[OF w(2)])
  moreover obtain a where "enc_list enc_Alert (si_Alerts s) = Inr a" "a \<noteq> JNull"
    "dec_list dec_Alert zero_Alert a = Inr (map id (si_Alerts s))"
    by (rule codec.encodeE[OF Alert_json.enc_list_roundtrip]) (simp add: list_all_iff)
  ultimately show "\<exists>j. enc_StorageInfo s = Inr j \<and> j \<noteq> JNull \<and> dec_StorageInfo j = Inr (id s)"
    using w by (simp add: enc_StorageInfo_def dec_StorageInfo_def json_prims)
qed

section \<open>Instances and replica sets\<close>

definition enc_Upstream :: "Upstream encoder" where
  "enc_Upstream u = enc_obj
     [(''peer'', enc_str (up_Peer u)), (''status'', enc_str (up_Status u)), (''idle'', enc_float (up_Idle u)),
      (''lag'', enc_float (up_Lag u)), (''message'', enc_str (up_Message u))]"

definition dec_Upstream :: "Upstream decoder" where
  "dec_Upstream j = bindR (dec_obj j) (\<lambda>fs.
     bindR (fld fs ''peer'' dec_str '''') (\<lambda>p.
     bindR (fld fs ''status'' dec_str '''') (\<lambda>s.
     bindR (fld fs ''idle'' dec_float (FFin 0)) (\<lambda>i.
     bindR (fld fs ''lag'' dec_float (FFin 0)) (\<lambda>l.
     bindR (fld fs ''message'' dec_str '''') (\<lambda>m.
     Inr \<lparr>up_Peer = p, up_Status = s, up_Idle = i, up_Lag = l, up_Message = m\<rparr>))))))"

definition wf_Upstream :: "Upstream \<Rightarrow> bool" where
  "wf_Upstream u \<longleftrightarrow> finite_float (up_Idle u) \<and> finite_float (up_Lag u)"

interpretation Upstream_json: codec enc_Upstream dec_Upstream wf_Upstream id
proof
  fix u assume "wf_Upstream u"
  then obtain i l where "up_Idle u = FFin i" "up_Lag u = FFin l"
    by (cases "up_Idle u"; cases "up_Lag u") (simp_all add: wf_Upstream_def)
  then show "\<exists>j. enc_Upstream u = Inr j \<and> j \<noteq> JNull \<and> dec_Upstream j = Inr (id u)"
    by (cases u) (simp add: enc_Upstream_def dec_Upstream_def json_prims)
qed

definition enc_Downstream :: "Downstream encoder" where
  "enc_Downstream d = enc_obj [(''status'', enc_str (down_Status d))]"

definition dec_Downstream :: "Downstream decoder" where
  "dec_Downstream j = bindR (dec_obj j) (\<lambda>fs.
     bindR (fld fs ''status'' dec_str '''') (\<lambda>s. Inr \<lparr>down_Status = s\<rparr>))"

interpretation Downstream_json: codec enc_Downstream dec_Downstream "\<lambda>_. True" id
  by unfold_locales (simp add: enc_Downstream_def dec_Downstream_def json_prims)

definition enc_Instance :: "Instance encoder" where
  "enc_Instance i = enc_obj
     [(''id'', enc_uint (inst_ID i)), (''uuid'', enc_str (inst_UUID i)), (''uri'', enc_str (inst_URI i)),
      (''readonly'', enc_bool (inst_Readonly i)), (''last_check_valid'', enc_bool (inst_LastCheckValid i)),
      (''lsn'', enc_int (inst_LSN i)), (''lsn_behind_master'', enc_int (inst_LSNBehindMaster i)),
      (''upstream'', enc_ptr enc_Upstream (inst_Upstream i)),
      (''downstream'', enc_ptr enc_Downstream (inst_Downstream i)),
      (''storage_info'', enc_StorageInfo (inst_StorageInfo i)),
      (''vshard_fingerprint'', enc_uint (inst_VShardFingerprint i)),
      (''priority'', enc_int (inst_Priority i))]"

definition dec_Instance :: "Instance decoder" where
  "dec_Instance j = bindR (dec_obj j) (\<lambda>fs.
     bindR (fld fs ''id'' dec_uint 0) (\<lambda>id.
     bindR (fld fs ''uuid'' dec_str '''') (\<lambda>uuid.
     bindR (fld fs ''uri'' dec_str '''') (\<lambda>uri.
     bindR (fld fs ''readonly'' dec_bool False) (\<lambda>ro.
     bindR (fld fs ''last_check_valid'' dec_bool False) (\<lambda>valid.
     bindR (fld fs ''lsn'' dec_int 0) (\<lambda>lsn.
     bindR (fld fs ''lsn_behind_master'' dec_int 0) (\<lambda>behind.
     bindR (fld fs ''upstream'' (dec_ptr dec_Upstream) None) (\<lambda>up.
     bindR (fld fs ''downstream'' (dec_ptr dec_Downstream) None) (\<lambda>down.
     bindR (fld fs ''storage_info'' dec_StorageInfo zero_StorageInfo) (\<lambda>si.
     bindR (fld fs ''vshard_fingerprint'' dec_uint 0) (\<lambda>fp.
     bindR (fld fs ''priority'' dec_int 0) (\<lambda>prio.
     Inr \<lparr>inst_ID = id, inst_UUID = uuid, inst_URI = uri, inst_Readonly = ro, inst_LastCheckValid = valid,
          inst_LSN = lsn, inst_LSNBehindMaster = behind, inst_Upstream = up, inst_Downstream = down,
          inst_StorageInfo = si, inst_VShardFingerprint = fp, inst_Priority = prio\<rparr>)))))))))))))"

definition wf_Instance :: "Instance \<Rightarrow> bool" where
  "wf_Instance i \<longleftrightarrow> in_int64 (inst_LSN i) \<and> in_int64 (inst_LSNBehindMaster i) \<and> in_int64 (inst_Priority i) \<and>
     pred_option wf_Upstream (inst_Upstream i) \<and> wf_StorageInfo (inst_StorageInfo i)"

interpretation Instance_json: codec enc_Instance dec_Instance wf_Instance id
proof
  fix i assume "wf_Instance i"
  then have w: "in_int64 (inst_LSN i)" "in_int64 (inst_LSNBehindMaster i)" "in_int64 (inst_Priority i)"
    "pred_option wf_Upstream (inst_Upstream i)" "wf_StorageInfo (inst_StorageInfo i)"
    "pred_option (\<lambda>_. True) (inst_Downstream i)"
    by (simp_all add: wf_Instance_def option.pred_True)
  obtain u where u: "enc_ptr enc_Upstream (inst_Upstream i) = Inr u"
    "(if u = JNull then Inr None else dec_ptr dec_Upstream u) = Inr (map_option id (inst_Upstream i))"
    by (rule Upstream_json.enc_ptr_roundtrip[OF w(4)])
  obtain d where d: "enc_ptr enc_Downstream (inst_Downstream i) = Inr d"
    "(if d = JNull then Inr None else dec_ptr dec_Downstream d) = Inr (map_option id (inst_Downstream i))"
    by (rule Downstream_json.enc_ptr_roundtrip[OF w(6)])
  obtain s where s: "enc_StorageInfo (inst_StorageInfo i) = Inr s" "s \<noteq> JNull"
    "dec_StorageInfo s = Inr (id (inst_StorageInfo i))"
    by (rule StorageInfo_json.encodeE[OF w(5)])
  show "\<exists>j. enc_Instance i = Inr j \<and> j \<noteq> JNull \<and> dec_Instance j = Inr (id i)"
    using w(1-3) u d s by (simp add: enc_Instance_def dec_Instance_def json_prims option.map_id)
qed

definition enc_ReplicaSet :: "ReplicaSet encoder" where
  "enc_ReplicaSet rs = enc_obj
     [(''uuid'', enc_str (set_UUID rs)), (''master_uuid'', enc_str (set_MasterUUID rs)),
      (''master_uri'', enc_str (set_MasterURI rs)), (''instances'', enc_list enc_Instance (set_Instances rs))]"

definition dec_ReplicaSet :: "ReplicaSet decoder" where
  "dec_ReplicaSet j = bindR (dec_obj j) (\<lambda>fs.
     bindR (fld fs ''uuid'' dec_str '''') (\<lambda>uuid.
     bindR (fld fs ''master_uuid'' dec_str '''') (\<lambda>muuid.
     bindR (fld fs ''master_uri'' dec_str '''') (\<lambda>muri.
     bindR (fld fs ''instances'' (dec_list dec_Instance zero_Instance) []) (\<lambda>insts.
     Inr \<lparr>set_UUID = uuid, set_MasterUUID = muuid, set_MasterURI = muri, set_Instances = insts\<rparr>)))))"

definition wf_ReplicaSet :: "ReplicaSet \<Rightarrow> bool" where
  "wf_ReplicaSet rs \<longleftrightarrow> list_all wf_Instance (set_Instances rs)"

interpretation ReplicaSet_json: codec enc_ReplicaSet dec_ReplicaSet wf_ReplicaSet id
proof
  fix rs assume "wf_ReplicaSet rs"
  then have w: "list_all wf_Instance (set_Instances rs)" by (simp add: wf_ReplicaSet_def)
  obtain js where "enc_list enc_Instance (set_Instances rs) = Inr js" "js \<noteq> JNull"
    "dec_list dec_Instance zero_Instance js = Inr (map id (set_Instances rs))"
    by (rule codec.encodeE[OF Instance_json.enc_list_roundtrip w])
  then show "\<exists>j. enc_ReplicaSet rs = Inr j \<and> j \<noteq> JNull \<and> dec_ReplicaSet j = Inr (id rs)"
    by (simp add: enc_ReplicaSet_def dec_ReplicaSet_def json_prims)
qed

section \<open>Routers and snapshots\<close>

definition enc_RouterInstanceParameters :: "RouterInstanceParameters encoder" where
  "enc_RouterInstanceParameters p = enc_obj
     [(''uuid'', enc_str (rip_UUID p)), (''status'', enc_str (rip_Status p)), (''uri'', enc_str (rip_URI p)),
      (''network_timeout'', enc_float (rip_NetworkTimeout p))]"

definition dec_RouterInstanceParameters :: "RouterInstanceParameters decoder" where
  "dec_RouterInstanceParameters j = bindR (dec_obj j) (\<lambda>fs.
     bindR (fld fs ''uuid'' dec_str '''') (\<lambda>uuid.
     bindR (fld fs ''status'' dec_str '''') (\<lambda>status.
     bindR (fld fs ''uri'' dec_str '''') (\<lambda>uri.
     bindR (fld fs ''network_timeout'' dec_float (FFin 0)) (\<lambda>t.
     Inr \<lparr>rip_UUID = uuid, rip_Status = status, rip_URI = uri, rip_NetworkTimeout = t\<rparr>)))))"

definition zero_RouterInstanceParameters :: RouterInstanceParameters where
  "zero_RouterInstanceParameters =
     \<lparr>rip_UUID = '''', rip_Status = '''', rip_URI = '''', rip_NetworkTimeout = FFin 0\<rparr>"

definition wf_RouterInstanceParameters :: "RouterInstanceParameters \<Rightarrow> bool" where
  "wf_RouterInstanceParameters p \<longleftrightarrow> finite_float (rip_NetworkTimeout p)"

interpretation RouterInstanceParameters_json: codec enc_RouterInstanceParameters dec_RouterInstanceParameters
  wf_RouterInstanceParameters id
proof
  fix p assume "wf_RouterInstanceParameters p"
  then obtain t where "rip_NetworkTimeout p = FFin t"
    by (cases "rip_NetworkTimeout p") (simp_all add: wf_RouterInstanceParameters_def)
  then show "\<exists>j. enc_RouterInstanceParameters p = Inr j \<and> j \<noteq> JNull \<and> dec_RouterInstanceParameters j = Inr (id p)"
    by (cases p) (simp add: enc_RouterInstanceParameters_def dec_RouterInstanceParameters_def json_prims)
qed

definition enc_RouterBucket :: "RouterBucket encoder" where
  "enc_RouterBucket b = enc_obj
     [(''available_ro'', enc_int (rb_AvailableRO b)), (''available_rw'', enc_int (rb_AvailableRW b)),
      (''unknown'', enc_int (rb_Unknown b)), (''unreachable'', enc_int (rb_Unreachable b))]"

definition dec_RouterBucket :: "RouterBucket decoder" where
  "dec_RouterBucket j = bindR (dec_obj j) (\<lambda>fs.
     bindR (fld fs ''available_ro'' dec_int 0) (\<lambda>ro.
     bindR (fld fs ''available_rw'' dec_int 0) (\<lambda>rw.
     bindR (fld fs ''unknown'' dec_int 0) (\<lambda>unk.
     bindR (fld fs ''unreachable'' dec_int 0) (\<lambda>unr.
     Inr \<lparr>rb_AvailableRO = ro, rb_AvailableRW = rw, rb_Unknown = unk, rb_Unreachable = unr\<rparr>)))))"

definition zero_RouterBucket :: RouterBucket where
  "zero_RouterBucket = \<lparr>rb_AvailableRO = 0, rb_AvailableRW = 0, rb_Unknown = 0, rb_Unreachable = 0\<rparr>"

definition wf_RouterBucket :: "RouterBucket \<Rightarrow> bool" where
  "wf_RouterBucket b \<longleftrightarrow>
     list_all in_int64 [rb_AvailableRO b, rb_AvailableRW b, rb_Unknown b, rb_Unreachable b]"

interpretation RouterBucket_json: codec enc_RouterBucket dec_RouterBucket wf_RouterBucket id
  by unfold_locales (simp add: enc_RouterBucket_def dec_RouterBucket_def wf_RouterBucket_def json_prims)

definition enc_RouterInfo :: "RouterInfo encoder" where
  "enc_RouterInfo i = enc_obj
     [(''last_seen'', enc_int (ri_LastSeen i)),
      (''replica_sets'', enc_map enc_RouterInstanceParameters (ri_ReplicaSets i)),
      (''bucket'', enc_RouterBucket (ri_Bucket i)), (''status'', enc_int (ri_Status i)),
      (''alerts'', enc_list enc_Alert (ri_Alerts i))]"

definition dec_RouterInfo :: "RouterInfo decoder" where
  "dec_RouterInfo j = bindR (dec_obj j) (\<lambda>fs.
     bindR (fld fs ''last_seen'' dec_int 0) (\<lambda>seen.
     bindR (fld fs ''replica_sets'' (dec_map dec_RouterInstanceParameters zero_RouterInstanceParameters) []) (\<lambda>sets.
     bindR (fld fs ''bucket'' dec_RouterBucket zero_RouterBucket) (\<lambda>b.
     bindR (fld fs ''status'' dec_int 0) (\<lambda>s.
     bindR (fld fs ''alerts'' (dec_list dec_Alert zero_Alert) []) (\<lambda>a.
     Inr \<lparr>ri_LastSeen = seen, ri_ReplicaSets = sets, ri_Bucket = b, ri_Status = s, ri_Alerts = a\<rparr>))))))"

definition zero_RouterInfo :: RouterInfo where
  "zero_RouterInfo = \<lparr>ri_LastSeen = 0, ri_ReplicaSets = [], ri_Bucket = zero_RouterBucket,
     ri_Status = 0, ri_Alerts = []\<rparr>"

definition wf_RouterInfo :: "RouterInfo \<Rightarrow> bool" where
  "wf_RouterInfo i \<longleftrightarrow> in_int64 (ri_LastSeen i) \<and> in_int64 (ri_Status i) \<and> wf_RouterBucket (ri_Bucket i) \<and>
     distinct (map fst (ri_ReplicaSets i)) \<and> list_all (wf_RouterInstanceParameters \<circ> snd) (ri_ReplicaSets i)"

definition view_RouterInfo :: "RouterInfo \<Rightarrow> RouterInfo" where
  "view_RouterInfo i = i\<lparr>ri_ReplicaSets := sort_key fst (ri_ReplicaSets i)\<rparr>"

interpretation RouterInfo_json: codec enc_RouterInfo dec_RouterInfo wf_RouterInfo view_RouterInfo
proof
  fix i assume "wf_RouterInfo i"
  then have w: "in_int64 (ri_LastSeen i)" "in_int64 (ri_Status i)" "wf_RouterBucket (ri_Bucket i)"
    "distinct (map fst (ri_ReplicaSets i)) \<and> list_all (wf_RouterInstanceParameters \<circ> snd) (ri_ReplicaSets i)"
    by (simp_all add: wf_RouterInfo_def)
  obtain m where m: "enc_map enc_RouterInstanceParameters (ri_ReplicaSets i) = Inr m" "m \<noteq> JNull"
    "dec_map dec_RouterInstanceParameters zero_RouterInstanceParameters m =
       Inr (map (\<lambda>(k, x). (k, id x)) (sort_key fst (ri_ReplicaSets i)))"
    by (rule codec.encodeE[OF RouterInstanceParameters_json.enc_map_roundtrip w(4)])
  obtain b where b: "enc_RouterBucket (ri_Bucket i) = Inr b" "b \<noteq> JNull"
    "dec_RouterBucket b = Inr (id (ri_Bucket i))" by (rule RouterBucket_json.encodeE[OF w(3)])
  obtain a where a: "enc_list enc_Alert (ri_Alerts i) = Inr a" "a \<noteq> JNull"
    "dec_list dec_Alert zero_Alert a = Inr (map id (ri_Alerts i))"
    by (rule codec.encodeE[OF Alert_json.enc_list_roundtrip]) (simp add: list_all_iff)
  show "\<exists>j. enc_RouterInfo i = Inr j \<and> j \<noteq> JNull \<and> dec_RouterInfo j = Inr (view_RouterInfo i)"
    using w m b a by (simp add: enc_RouterInfo_def dec_RouterInfo_def view_RouterInfo_def json_prims)
qed

definition enc_Router :: "Router encoder" where
  "enc_Router r = enc_obj [(''uri'', enc_str (rt_URI r)), (''info'', enc_RouterInfo (rt_Info r))]"

definition dec_Router :: "Router decoder" where
  "dec_Router j = bindR (dec_obj j) (\<lambda>fs.
     bindR (fld fs ''uri'' dec_str '''') (\<lambda>uri.
     bindR (fld fs ''info'' dec_RouterInfo zero_RouterInfo) (\<lambda>info.
     Inr \<lparr>rt_URI = uri, rt_Info = info\<rparr>)))"

definition zero_Router :: Router where "zero_Router = \<lparr>rt_URI = '''', rt_Info = zero_RouterInfo\<rparr>"

definition view_Router :: "Router \<Rightarrow> Router" where
  "view_Router r = r\<lparr>rt_Info := view_RouterInfo (rt_Info r)\<rparr>"

interpretation Router_json: codec enc_Router dec_Router "\<lambda>r. wf_RouterInfo (rt_Info r)" view_Router
proof
  fix r :: Router assume w: "wf_RouterInfo (rt_Info r)"
  obtain i where "enc_RouterInfo (rt_Info r) = Inr i" "i \<noteq> JNull"
    "dec_RouterInfo i = Inr (view_RouterInfo (rt_Info r))" by (rule RouterInfo_json.encodeE[OF w])
  then show "\<exists>j. enc_Router r = Inr j \<and> j \<noteq> JNull \<and> dec_Router j = Inr (view_Router r)"
    by (simp add: enc_Router_def dec_Router_def view_Router_def json_prims)
qed

text \<open>The priorities are unexported: they are not written.\<close>

definition enc_Snapshot :: "Snapshot encoder" where
  "enc_Snapshot s = enc_obj
     [(''created'', enc_int (sn_Created s)), (''routers'', enc_list enc_Router (sn_Routers s)),
      (''replica_sets'', enc_list enc_ReplicaSet (sn_ReplicaSets s))]"

definition dec_Snapshot :: "Snapshot decoder" where
  "dec_Snapshot j = bindR (dec_obj j) (\<lambda>fs.
     bindR (fld fs ''created'' dec_int 0) (\<lambda>c.
     bindR (fld fs ''routers'' (dec_list dec_Router zero_Router) []) (\<lambda>rs.
     bindR (fld fs ''replica_sets'' (dec_list dec_ReplicaSet zero_ReplicaSet) []) (\<lambda>sets.
     Inr \<lparr>sn_Created = c, sn_Routers = rs, sn_ReplicaSets = sets, sn_priorities = Map.empty\<rparr>))))"

definition wf_Snapshot :: "Snapshot \<Rightarrow> bool" where
  "wf_Snapshot s \<longleftrightarrow> in_int64 (sn_Created s) \<and> list_all (\<lambda>r. wf_RouterInfo (rt_Info r)) (sn_Routers s) \<and>
     list_all wf_ReplicaSet (sn_ReplicaSets s)"

definition view_Snapshot :: "Snapshot \<Rightarrow> Snapshot" where
  "view_Snapshot s = s\<lparr>sn_Routers := map view_Router (sn_Routers s), sn_priorities := Map.empty\<rparr>"

interpretation Snapshot_json: codec enc_Snapshot dec_Snapshot wf_Snapshot view_Snapshot
proof
  fix s assume "wf_Snapshot s"
  then have w: "in_int64 (sn_Created s)" "list_all (\<lambda>r. wf_RouterInfo (rt_Info r)) (sn_Routers s)"
    "list_all wf_ReplicaSet (sn_ReplicaSets s)" by (simp_all add: wf_Snapshot_def)
  obtain r where r: "enc_list enc_Router (sn_Routers s) = Inr r" "r \<noteq> JNull"
    "dec_list dec_Router zero_Router r = Inr (map view_Router (sn_Routers s))"
    by (rule codec.encodeE[OF Router_json.enc_list_roundtrip w(2)])
  obtain m where m: "enc_list enc_ReplicaSet (sn_ReplicaSets s) = Inr m" "m \<noteq> JNull"
    "dec_list dec_ReplicaSet zero_ReplicaSet m = Inr (map id (sn_ReplicaSets s))"
    by (rule codec.encodeE[OF ReplicaSet_json.enc_list_roundtrip w(3)])
  show "\<exists>j. enc_Snapshot s = Inr j \<and> j \<noteq> JNull \<and> dec_Snapshot j = Inr (view_Snapshot s)"
    using w(1) r m by (simp add: enc_Snapshot_def dec_Snapshot_def view_Snapshot_def json_prims)
qed

section \<open>Recoveries\<close>

text \<open>These structs have no tags; a member is named like its field.  A count below zero, which no
  analysis has, is refused here.\<close>

definition enc_InstanceIdent :: "InstanceIdent encoder" where
  "enc_InstanceIdent i = enc_obj [(''UUID'', enc_str (ident_UUID i)), (''URI'', enc_str (ident_URI i))]"

definition dec_InstanceIdent :: "InstanceIdent decoder" where
  "dec_InstanceIdent j = bindR (dec_obj j) (\<lambda>fs.
     bindR (fld fs ''UUID'' dec_str '''') (\<lambda>uuid.
     bindR (fld fs ''URI'' dec_str '''') (\<lambda>uri.
     Inr \<lparr>ident_UUID = uuid, ident_URI = uri\<rparr>)))"

interpretation InstanceIdent_json: codec enc_InstanceIdent dec_InstanceIdent "\<lambda>_. True" id
  by unfold_locales (simp add: enc_InstanceIdent_def dec_InstanceIdent_def json_prims)

definition enc_count :: "nat encoder" where "enc_count n = enc_int (int n)"

definition dec_count :: "nat decoder" where
  "dec_count j = bindR (dec_int j) (\<lambda>n. if n < 0 then Inl ErrUnmarshalType else Inr (nat n))"

interpretation count_json: codec enc_count dec_count "\<lambda>n. int n < 2 ^ 63" id
  by unfold_locales (simp add: enc_count_def dec_count_def json_prims in_int64_def)

definition enc_state :: "ReplicaSetState encoder" where "enc_state s = enc_str (state_string s)"

definition dec_state :: "ReplicaSetState decoder" where
  "dec_state j = bindR (dec_str j) (\<lambda>t.
     case find (\<lambda>s. state_string s = t) ReplicaSetStateEnum of
       Some s \<Rightarrow> Inr s | None \<Rightarrow> Inl ErrUnmarshalType)"

interpretation state_json: codec enc_state dec_state "\<lambda>_. True" id
proof
  fix s show "\<exists>j. enc_state s = Inr j \<and> j \<noteq> JNull \<and> dec_state j = Inr (id s)"
    by (cases s) (simp_all add: enc_state_def dec_state_def enc_str_def ReplicaSetStateEnum_def)
qed

definition enc_Analysis :: "ReplicationAnalysis encoder" where
  "enc_Analysis a = enc_obj
     [(''Set'', enc_ReplicaSet (an_Set a)), (''CountReplicas'', enc_count (an_CountReplicas a)),
      (''CountWorkingReplicas'', enc_count (an_CountWorkingReplicas a)),
      (''CountReplicatingReplicas'', enc_count (an_CountReplicatingReplicas a)),
      (''CountInconsistentVShardConf'', enc_count (an_CountInconsistentVShardConf a)),
      (''State'', enc_state (an_State a)), (''DeadFollowers'', enc_list enc_str (an_DeadFollowers a))]"

definition dec_Analysis :: "ReplicationAnalysis decoder" where
  "dec_Analysis j = bindR (dec_obj j) (\<lambda>fs.
     bindR (fld fs ''Set'' dec_ReplicaSet zero_ReplicaSet) (\<lambda>rs.
     bindR (fld fs ''CountReplicas'' dec_count 0) (\<lambda>n.
     bindR (fld fs ''CountWorkingReplicas'' dec_count 0) (\<lambda>wk.
     bindR (fld fs ''CountReplicatingReplicas'' dec_count 0) (\<lambda>rp.
     bindR (fld fs ''CountInconsistentVShardConf'' dec_count 0) (\<lambda>ic.
     bindR (case obj_get fs ''State'' of Some t \<Rightarrow> dec_state t | None \<Rightarrow> Inl ErrUnmarshalType) (\<lambda>st.
     bindR (fld fs ''DeadFollowers'' (dec_list dec_str '''') []) (\<lambda>dead.
     Inr \<lparr>an_Set = rs, an_CountReplicas = n, an_CountWorkingReplicas = wk, an_CountReplicatingReplicas = rp,
          an_CountInconsistentVShardConf = ic, an_State = st, an_DeadFollowers = dead\<rparr>))))))))"

definition wf_Analysis :: "ReplicationAnalysis \<Rightarrow> bool" where
  "wf_Analysis a \<longleftrightarrow> wf_ReplicaSet (an_Set a) \<and>
     list_all (\<lambda>n. int n < 2 ^ 63) [an_CountReplicas a, an_CountWorkingReplicas a,
       an_CountReplicatingReplicas a, an_CountInconsistentVShardConf a]"

interpretation Analysis_json: codec enc_Analysis dec_Analysis wf_Analysis id
proof
  fix a assume "wf_Analysis a"
  then have w: "wf_ReplicaSet (an_Set a)" "int (an_CountReplicas a) < 2 ^ 63"
    "int (an_CountWorkingReplicas a) < 2 ^ 63" "int (an_CountReplicatingReplicas a) < 2 ^ 63"
    "int (an_CountInconsistentVShardConf a) < 2 ^ 63" by (simp_all add: wf_Analysis_def)
  obtain s where s: "enc_ReplicaSet (an_Set a) = Inr s" "s \<noteq> JNull" "dec_ReplicaSet s = Inr (id (an_Set a))"
    by (rule ReplicaSet_json.encodeE[OF w(1)])
  have c: "enc_count n = Inr (JInt (int n))" "int n < 2 ^ 63 \<Longrightarrow> dec_count (JInt (int n)) = Inr n" for n
    by (simp_all add: enc_count_def dec_count_def json_prims in_int64_def)
  obtain t where t: "enc_state (an_State a) = Inr t" "dec_state t = Inr (id (an_State a))"
    by (rule state_json.encodeE) auto
  obtain d where d: "enc_list enc_str (an_DeadFollowers a) = Inr d" "d \<noteq> JNull"
    "dec_list dec_str '''' d = Inr (map id (an_DeadFollowers a))"
    by (rule codec.encodeE[OF json_str.enc_list_roundtrip]) (simp add: list_all_iff)
  show "\<exists>j. enc_Analysis a = Inr j \<and> j \<noteq> JNull \<and> dec_Analysis j = Inr (id a)"
    using s t d by (simp add: enc_Analysis_def dec_Analysis_def c(1) w(2-5)[THEN c(2)] fld_def)
qed

definition zero_Analysis :: ReplicationAnalysis where
  "zero_Analysis = \<lparr>an_Set = zero_ReplicaSet, an_CountReplicas = 0, an_CountWorkingReplicas = 0,
     an_CountReplicatingReplicas = 0, an_CountInconsistentVShardConf = 0, an_State = NoProblem,
     an_DeadFollowers = []\<rparr>"

definition enc_Recovery :: "Recovery encoder" where
  "enc_Recovery r = enc_obj
     [(''Type'', enc_str (rv_Type r)), (''Scope'', enc_str (rv_Scope r)),
      (''AnalysisEntry'', enc_Analysis (rv_AnalysisEntry r)), (''ClusterName'', enc_str (rv_ClusterName r)),
      (''SetUUID'', enc_str (rv_SetUUID r)), (''Failed'', enc_InstanceIdent (rv_Failed r)),
      (''Successor'', enc_InstanceIdent (rv_Successor r)), (''IsSuccessful'', enc_bool (rv_IsSuccessful r)),
      (''StartTimestamp'', enc_int (rv_StartTimestamp r)), (''EndTimestamp'', enc_int (rv_EndTimestamp r)),
      (''Expiration'', enc_int (rv_Expiration r))]"

definition dec_Recovery :: "Recovery decoder" where
  "dec_Recovery j = bindR (dec_obj j) (\<lambda>fs.
     bindR (fld fs ''Type'' dec_str '''') (\<lambda>t.
     bindR (fld fs ''Scope'' dec_str '''') (\<lambda>sc.
     bindR (fld fs ''AnalysisEntry'' dec_Analysis zero_Analysis) (\<lambda>a.
     bindR (fld fs ''ClusterName'' dec_str '''') (\<lambda>cn.
     bindR (fld fs ''SetUUID'' dec_str '''') (\<lambda>u.
     bindR (fld fs ''Failed'' dec_InstanceIdent zero_InstanceIdent) (\<lambda>fl.
     bindR (fld fs ''Successor'' dec_InstanceIdent zero_InstanceIdent) (\<lambda>su.
     bindR (fld fs ''IsSuccessful'' dec_bool False) (\<lambda>ok.
     bindR (fld fs ''StartTimestamp'' dec_int 0) (\<lambda>st.
     bindR (fld fs ''EndTimestamp'' dec_int 0) (\<lambda>en.
     bindR (fld fs ''Expiration'' dec_int 0) (\<lambda>ex.
     Inr \<lparr>rv_Type = t, rv_Scope = sc, rv_AnalysisEntry = a, rv_ClusterName = cn, rv_SetUUID = u,
          rv_Failed = fl, rv_Successor = su, rv_IsSuccessful = ok, rv_StartTimestamp = st,
          rv_EndTimestamp = en, rv_Expiration = ex\<rparr>))))))))))))"

definition wf_Recovery :: "Recovery \<Rightarrow> bool" where
  "wf_Recovery r \<longleftrightarrow> wf_Analysis (rv_AnalysisEntry r) \<and>
     list_all in_int64 [rv_StartTimestamp r, rv_EndTimestamp r, rv_Expiration r]"

interpretation Recovery_json: codec enc_Recovery dec_Recovery wf_Recovery id
proof
  fix r assume "wf_Recovery r"
  then have w: "wf_Analysis (rv_AnalysisEntry r)" "in_int64 (rv_StartTimestamp r)"
    "in_int64 (rv_EndTimestamp r)" "in_int64 (rv_Expiration r)" by (simp_all add: wf_Recovery_def)
  obtain a where a: "enc_Analysis (rv_AnalysisEntry r) = Inr a" "a \<noteq> JNull"
    "dec_Analysis a = Inr (id (rv_AnalysisEntry r))" by (rule Analysis_json.encodeE[OF w(1)])
  obtain f where f: "enc_InstanceIdent (rv_Failed r) = Inr f" "f \<noteq> JNull"
    "dec_InstanceIdent f = Inr (id (rv_Failed r))" by (rule InstanceIdent_json.encodeE) simp
  obtain s where s: "enc_InstanceIdent (rv_Successor r) = Inr s" "s \<noteq> JNull"
    "dec_InstanceIdent s = Inr (id (rv_Successor r))" by (rule InstanceIdent_json.encodeE) simp
  show "\<exists>j. enc_Recovery r = Inr j \<and> j \<noteq> JNull \<and> dec_Recovery j = Inr (id r)"
    using w a f s by (simp add: enc_Recovery_def dec_Recovery_def json_prims)
qed

section \<open>The log dump of a cluster\<close>

text \<open>\<open>Dump\<close>: the document of the live snapshot, nothing (the empty string) when it cannot be written.\<close>

definition Dump :: "Cluster \<Rightarrow> json option" where
  "Dump c = (case enc_Snapshot (cl_snapshot c) of Inl _ \<Rightarrow> None | Inr j \<Rightarrow> Some j)"

section \<open>What is read is well formed\<close>

lemma dec_int_wf: "dec_int j = Inr n \<Longrightarrow> in_int64 n"
  by (auto simp: dec_int_def split: option.splits if_splits)

lemma dec_float_wf: "dec_float j = Inr x \<Longrightarrow> finite_float x"
proof (cases j)
  case (JFloat y)
  then show "dec_float j = Inr x \<Longrightarrow> finite_float x" by (cases y) auto
next
  case (JInt n)
  then show "dec_float j = Inr x \<Longrightarrow> finite_float x" by (cases "f64_of_int n") auto
qed auto

lemma fld_wf: "fld fs k d z = Inr x \<Longrightarrow> P z \<Longrightarrow> (\<And>j y. d j = Inr y \<Longrightarrow> P y) \<Longrightarrow> P x"
  by (auto simp: fld_def split: option.splits if_splits)

lemma fld_int_wf: "fld fs k dec_int 0 = Inr n \<Longrightarrow> in_int64 n"
  by (erule fld_wf) (simp add: in_int64_def, erule dec_int_wf)

lemma fld_float_wf: "fld fs k dec_float (FFin 0) = Inr x \<Longrightarrow> finite_float x"
  by (erule fld_wf) (simp, erule dec_float_wf)

lemma seqR_wf: "seqR (map f xs) = Inr ys \<Longrightarrow> (\<And>x y. x \<in> set xs \<Longrightarrow> f x = Inr y \<Longrightarrow> P y) \<Longrightarrow> list_all P ys"
proof (induction xs arbitrary: ys)
  case (Cons a xs)
  then obtain y ys' where y: "f a = Inr y" "seqR (map f xs) = Inr ys'" "ys = y # ys'" by (auto simp: bindR_Inr_iff)
  have "list_all P ys'" by (rule Cons.IH[OF y(2)]) (use Cons.prems(2) in auto)
  moreover have "P y" using Cons.prems(2)[OF _ y(1)] by simp
  ultimately show ?case using y(3) by simp
qed simp

lemma dec_list_wf: "dec_list d z j = Inr xs \<Longrightarrow> P z \<Longrightarrow> (\<And>j y. d j = Inr y \<Longrightarrow> P y) \<Longrightarrow> list_all P xs"
  by (cases j) (auto simp: dec_list_def elim!: seqR_wf split: if_splits)

lemma fld_list_wf:
  assumes "fld fs k (dec_list d z) [] = Inr xs" and "P z" and "\<And>j y. d j = Inr y \<Longrightarrow> P y"
  shows "list_all P xs"
  using assms(1) by (rule fld_wf) (use dec_list_wf[of d z _ _ P] assms(2,3) in auto)

lemma seqR_keys: "seqR (map (\<lambda>k. bindR (f k) (\<lambda>x. Inr (k, x))) ks) = Inr m \<Longrightarrow> map fst m = ks"
  by (induction ks arbitrary: m) (auto simp: bindR_Inr_iff)

lemma dec_map_wf:
  assumes "dec_map d z j = Inr m" and "P z" and "\<And>j y. d j = Inr y \<Longrightarrow> P y"
  shows "distinct (map fst m) \<and> list_all (P \<circ> snd) m"
proof -
  from assms(1) obtain fs where m: "seqR (map (\<lambda>k. bindR (fld fs k d z) (\<lambda>x. Inr (k, x))) (remdups (map fst fs))) = Inr m"
    by (auto simp: dec_map_def bindR_Inr_iff)
  have "list_all (P \<circ> snd) m"
    by (rule seqR_wf[OF m]) (use assms(2,3) in \<open>auto simp: bindR_Inr_iff intro: fld_wf[of fs _ d z]\<close>)
  with seqR_keys[OF m] show ?thesis by simp
qed

lemma dec_InstanceBucket_wf: "dec_InstanceBucket j = Inr b \<Longrightarrow> wf_InstanceBucket b"
  by (auto simp: dec_InstanceBucket_def wf_InstanceBucket_def bindR_Inr_iff intro: fld_int_wf)

lemma dec_StorageInfo_wf: "dec_StorageInfo j = Inr s \<Longrightarrow> wf_StorageInfo s"
proof -
  have z: "wf_InstanceBucket zero_InstanceBucket"
    by (simp add: wf_InstanceBucket_def zero_InstanceBucket_def in_int64_def)
  have b: "wf_InstanceBucket b" if "fld fs k dec_InstanceBucket zero_InstanceBucket = Inr b" for fs k b
    using that z dec_InstanceBucket_wf by (rule fld_wf)
  show "dec_StorageInfo j = Inr s \<Longrightarrow> wf_StorageInfo s"
    by (auto simp: dec_StorageInfo_def wf_StorageInfo_def bindR_Inr_iff intro: fld_int_wf b)
qed

lemma dec_Upstream_wf: "dec_Upstream j = Inr u \<Longrightarrow> wf_Upstream u"
  by (auto simp: dec_Upstream_def wf_Upstream_def bindR_Inr_iff intro: fld_float_wf)

lemma zero_Instance_wf: "wf_Instance zero_Instance" "wf_StorageInfo zero_StorageInfo"
  by (simp_all add: wf_Instance_def zero_Instance_def wf_StorageInfo_def zero_StorageInfo_def wf_InstanceBucket_def
      zero_InstanceBucket_def in_int64_def)

lemma dec_Instance_wf:
  assumes "dec_Instance j = Inr i"
  shows "wf_Instance i"
proof -
  have up: "pred_option wf_Upstream u" if "fld fs k (dec_ptr dec_Upstream) None = Inr u" for fs k u
    using that by (rule fld_wf) (auto simp: dec_ptr_def bindR_Inr_iff intro: dec_Upstream_wf)
  have si: "wf_StorageInfo s" if "fld fs k dec_StorageInfo zero_StorageInfo = Inr s" for fs k s
    using that by (rule fld_wf) (auto intro: zero_Instance_wf dec_StorageInfo_wf)
  from assms show ?thesis
    by (auto simp: dec_Instance_def wf_Instance_def bindR_Inr_iff intro: fld_int_wf up si)
qed

lemma dec_ReplicaSet_wf:
  assumes "dec_ReplicaSet j = Inr rs"
  shows "wf_ReplicaSet rs"
proof -
  have "list_all wf_Instance xs" if "fld fs k (dec_list dec_Instance zero_Instance) [] = Inr xs" for fs k xs
    using that zero_Instance_wf(1) dec_Instance_wf by (rule fld_list_wf)
  with assms show ?thesis by (auto simp: dec_ReplicaSet_def wf_ReplicaSet_def bindR_Inr_iff)
qed

lemma dec_RouterInfo_wf:
  assumes "dec_RouterInfo j = Inr i"
  shows "wf_RouterInfo i"
proof -
  have b: "wf_RouterBucket b" if "fld fs k dec_RouterBucket zero_RouterBucket = Inr b" for fs k b
  proof (rule fld_wf[OF that])
    show "wf_RouterBucket zero_RouterBucket" by (simp add: zero_RouterBucket_def wf_RouterBucket_def in_int64_def)
    show "wf_RouterBucket b" if "dec_RouterBucket j = Inr b" for j b
      using that by (auto simp: wf_RouterBucket_def dec_RouterBucket_def bindR_Inr_iff intro: fld_int_wf)
  qed
  have m: "distinct (map fst m) \<and> list_all (wf_RouterInstanceParameters \<circ> snd) m"
    if "fld fs k (dec_map dec_RouterInstanceParameters zero_RouterInstanceParameters) [] = Inr m" for fs k m
    using that
  proof (rule fld_wf)
    fix j m assume "dec_map dec_RouterInstanceParameters zero_RouterInstanceParameters j = Inr m"
    then show "distinct (map fst m) \<and> list_all (wf_RouterInstanceParameters \<circ> snd) m"
      by (rule dec_map_wf) (auto simp: zero_RouterInstanceParameters_def wf_RouterInstanceParameters_def
          dec_RouterInstanceParameters_def bindR_Inr_iff intro: fld_float_wf)
  qed simp
  from assms b m show ?thesis
    by (auto simp: dec_RouterInfo_def wf_RouterInfo_def bindR_Inr_iff intro: fld_int_wf)
qed

lemma zero_RouterInfo_wf: "wf_RouterInfo zero_RouterInfo"
  by (simp add: wf_RouterInfo_def zero_RouterInfo_def wf_RouterBucket_def zero_RouterBucket_def in_int64_def)

lemma dec_Router_wf:
  assumes "dec_Router j = Inr r"
  shows "wf_RouterInfo (rt_Info r)"
proof -
  have "wf_RouterInfo i" if "fld fs k dec_RouterInfo zero_RouterInfo = Inr i" for fs k i
    using that zero_RouterInfo_wf dec_RouterInfo_wf by (rule fld_wf)
  with assms show ?thesis by (auto simp: dec_Router_def bindR_Inr_iff)
qed

lemma dec_Snapshot_wf:
  assumes "dec_Snapshot j = Inr sn"
  shows "wf_Snapshot sn"
proof -
  have r: "list_all (\<lambda>r. wf_RouterInfo (rt_Info r)) rs" if "fld fs k (dec_list dec_Router zero_Router) [] = Inr rs" for fs k rs
    using that by (rule fld_list_wf) (auto simp: zero_Router_def intro: zero_RouterInfo_wf dec_Router_wf)
  have s: "list_all wf_ReplicaSet rs" if "fld fs k (dec_list dec_ReplicaSet zero_ReplicaSet) [] = Inr rs" for fs k rs
    using that by (rule fld_list_wf) (auto simp: zero_ReplicaSet_def wf_ReplicaSet_def intro: dec_ReplicaSet_wf[unfolded wf_ReplicaSet_def])
  from assms show ?thesis
    by (auto simp: dec_Snapshot_def wf_Snapshot_def bindR_Inr_iff intro: fld_int_wf r s)
qed

end
