(* ===== verification/Storage_Sqlite.thy ===== *)
theory Storage_Sqlite
  imports Vshard_Json "HOL-Library.Sublist"
begin

text \<open>
  internal/storage: the interface of the persistent storage, its contract, and the implementation
  on SQLite (sqlite/sqlite.go).

  A table is the list of its rows \<open>(cluster_name, created_at, data)\<close> in the order of their id;
  the SQL statements of the file are the functions on tables named after them.  The driver is a
  parameter: it may refuse a statement, report an error for one that has taken effect, choose the order
  of rows a query leaves open and end an iteration early (\<open>rows.Next\<close> is then false
  and \<open>rows.Err\<close> holds the reason).
\<close>

type_synonym db_row = "string \<times> int \<times> json"

datatype storage_error = ErrEmptyResult | ErrMarshal json_error | ErrDriver string

record ClusterSnapshotResp =
  cr_Name :: string
  cr_Snapshot :: Snapshot

text \<open>What a result that is not an error satisfies.\<close>

fun pred_result :: "('a \<Rightarrow> bool) \<Rightarrow> ('e, 'a) go_result \<Rightarrow> bool" where
  "pred_result P (Inl _) = True"
| "pred_result P (Inr x) = P x"

section \<open>The interface\<close>

record 's Storage =
  st_GetClusters :: "'s \<Rightarrow> (storage_error, ClusterSnapshotResp list) go_result \<times> 's"
  st_SaveSnapshot :: "string \<Rightarrow> Snapshot \<Rightarrow> 's \<Rightarrow> (storage_error, unit) go_result \<times> 's"
  st_SaveRecovery :: "Recovery \<Rightarrow> 's \<Rightarrow> (storage_error, unit) go_result \<times> 's"
  st_GetClusterSnapshot :: "string \<Rightarrow> 's \<Rightarrow> (storage_error, Snapshot) go_result \<times> 's"
  st_GetRecoveries :: "string \<Rightarrow> 's \<Rightarrow> (storage_error, Recovery list) go_result \<times> 's"

text \<open>
  What the clients rely on, over the two things a storage keeps: the snapshot of each cluster
  and its recoveries.  A read that succeeds returns no more than what is kept; only the read of one
  snapshot promises to be complete.
\<close>

locale storage_contract =
  fixes db :: "'s Storage" and inv :: "'s \<Rightarrow> bool"
    and snapshot_of :: "'s \<Rightarrow> string \<rightharpoonup> Snapshot" and recoveries_of :: "'s \<Rightarrow> string \<Rightarrow> Recovery list"
  assumes get_clusters: "inv s \<Longrightarrow> st_GetClusters db s = (rc, s') \<Longrightarrow>
      inv s' \<and> snapshot_of s' = snapshot_of s \<and> recoveries_of s' = recoveries_of s \<and>
      pred_result (\<lambda>cs. distinct (map cr_Name cs) \<and>
        list_all (\<lambda>c. snapshot_of s (cr_Name c) = Some (cr_Snapshot c)) cs) rc"
    and save_snapshot: "inv s \<Longrightarrow> wf_Snapshot sn \<Longrightarrow> st_SaveSnapshot db name sn s = (ru, s') \<Longrightarrow>
      inv s' \<and> recoveries_of s' = recoveries_of s \<and>
      (snapshot_of s' = (snapshot_of s)(name \<mapsto> view_Snapshot sn) \<or>
       (\<exists>e. ru = Inl e) \<and> snapshot_of s' = snapshot_of s)"
    and save_recovery: "inv s \<Longrightarrow> wf_Recovery rv \<Longrightarrow> st_SaveRecovery db rv s = (ru, s') \<Longrightarrow>
      inv s' \<and> snapshot_of s' = snapshot_of s \<and>
      (recoveries_of s' = (recoveries_of s)(rv_ClusterName rv := recoveries_of s (rv_ClusterName rv) @ [rv]) \<or>
       (\<exists>e. ru = Inl e) \<and> recoveries_of s' = recoveries_of s)"
    and get_snapshot: "inv s \<Longrightarrow> st_GetClusterSnapshot db name s = (rs, s') \<Longrightarrow>
      inv s' \<and> snapshot_of s' = snapshot_of s \<and> recoveries_of s' = recoveries_of s \<and>
      (rs = Inl ErrEmptyResult \<longrightarrow> snapshot_of s name = None) \<and>
      pred_result (\<lambda>sn. snapshot_of s name = Some sn) rs"
    and get_recoveries: "inv s \<Longrightarrow> st_GetRecoveries db name s = (rr, s') \<Longrightarrow>
      inv s' \<and> snapshot_of s' = snapshot_of s \<and> recoveries_of s' = recoveries_of s \<and>
      pred_result (\<lambda>rvs. mset rvs \<subseteq># mset (recoveries_of s name)) rr"
begin

end

section \<open>The driver\<close>

text \<open>
  \<open>db_fault n\<close> is the error the \<open>n\<close>-th call of the driver reports, and how many statements of
  its text took effect nevertheless.  \<open>db_scan n\<close> is the order in which an iteration delivers the
  rows, by their positions and not necessarily all of them, and the error of a \<open>Scan\<close> that follows.
\<close>

record db_env =
  db_fault :: "nat \<Rightarrow> (string \<times> nat) option"
  db_scan :: "nat \<Rightarrow> nat list \<times> string option"

definition delivered :: "nat list \<Rightarrow> 'a list \<Rightarrow> 'a list" where
  "delivered ps rows = map ((!) rows) (remdups (filter (\<lambda>i. i < length rows) ps))"

lemma distinct_mset_subset: "distinct xs \<Longrightarrow> set xs \<subseteq> set ys \<Longrightarrow> mset xs \<subseteq># mset ys"
proof (induction xs arbitrary: ys)
  case (Cons x xs)
  have "y \<in> set (remove1 x ys)" if "y \<in> set xs" for y
    using Cons.prems that by (cases "y = x") auto
  then have "mset xs \<subseteq># mset (remove1 x ys)" using Cons.prems by (intro Cons.IH) auto
  moreover have "x \<in># mset ys" using Cons.prems by simp
  ultimately show ?case by (simp add: insert_subset_eq_iff)
qed simp

lemma delivered_subset: "mset (delivered ps rows) \<subseteq># mset rows"
proof -
  let ?is = "remdups (filter (\<lambda>i. i < length rows) ps)"
  have "mset ?is \<subseteq># mset [0..<length rows]" by (rule distinct_mset_subset) auto
  then have "image_mset ((!) rows) (mset ?is) \<subseteq># image_mset ((!) rows) (mset [0..<length rows])"
    by (rule image_mset_subseteq_mono)
  also have "image_mset ((!) rows) (mset [0..<length rows]) = mset rows"
    by (metis map_nth mset_map)
  finally show ?thesis by (simp only: delivered_def mset_map)
qed

lemma delivered_all: "delivered [0..<length rows] rows = rows"
  by (simp add: delivered_def map_nth cong: filter_cong)

record sqlite =
  sq_snapshots :: "db_row list"
  sq_recoveries :: "db_row list"
  sq_io :: nat

section \<open>The statements\<close>

fun upsert :: "string \<Rightarrow> int \<Rightarrow> json \<Rightarrow> db_row list \<Rightarrow> db_row list" where
  "upsert name created d [] = [(name, created, d)]"
| "upsert name created d ((n, c, e) # rows) =
     (if n = name then (name, created, d) # rows else (n, c, e) # upsert name created d rows)"

definition querySaveSnapshot :: "string \<Rightarrow> int \<Rightarrow> json \<Rightarrow> sqlite \<Rightarrow> sqlite" where
  "querySaveSnapshot name created d s = s\<lparr>sq_snapshots := upsert name created d (sq_snapshots s)\<rparr>"

definition querySaveRecoveries :: "string \<Rightarrow> int \<Rightarrow> json \<Rightarrow> sqlite \<Rightarrow> sqlite" where
  "querySaveRecoveries name created d s = s\<lparr>sq_recoveries := sq_recoveries s @ [(name, created, d)]\<rparr>"

definition queryGetLastSnapshot :: "string \<Rightarrow> sqlite \<Rightarrow> json option" where
  "queryGetLastSnapshot name s =
     (case rev (filter (\<lambda>r. fst r = name) (sq_snapshots s)) of [] \<Rightarrow> None | (_, _, d) # _ \<Rightarrow> Some d)"

definition queryGetRecoveries :: "string \<Rightarrow> sqlite \<Rightarrow> db_row list" where
  "queryGetRecoveries name s = filter (\<lambda>r. fst r = name) (sq_recoveries s)"

definition queryGetClusters :: "sqlite \<Rightarrow> db_row list" where
  "queryGetClusters s = sq_snapshots s"

section \<open>The operations\<close>

definition sq_tick :: "sqlite \<Rightarrow> sqlite" where "sq_tick s = s\<lparr>sq_io := Suc (sq_io s)\<rparr>"

text \<open>\<open>ExecContext\<close> of one statement.\<close>

definition exec_statement :: "db_env \<Rightarrow> (sqlite \<Rightarrow> sqlite) \<Rightarrow> sqlite \<Rightarrow> (storage_error, unit) go_result \<times> sqlite" where
  "exec_statement env stmt s =
     (case db_fault env (sq_io s) of
        None \<Rightarrow> (Inr (), sq_tick (stmt s))
      | Some (e, applied) \<Rightarrow> (Inl (ErrDriver e), sq_tick (if applied = 0 then s else stmt s)))"

text \<open>The file of the database, before its tables exist.\<close>

record dbfile =
  fl_snapshots :: "db_row list option"
  fl_recoveries :: "db_row list option"

definition create_snapshots :: "dbfile \<Rightarrow> dbfile" where
  "create_snapshots f = (if fl_snapshots f = None then f\<lparr>fl_snapshots := Some []\<rparr> else f)"

definition create_recoveries :: "dbfile \<Rightarrow> dbfile" where
  "create_recoveries f = (if fl_recoveries f = None then f\<lparr>fl_recoveries := Some []\<rparr> else f)"

definition createTables :: "db_env \<Rightarrow> dbfile \<Rightarrow> (storage_error, unit) go_result \<times> dbfile" where
  "createTables env f =
     (case db_fault env 0 of
        None \<Rightarrow> (Inr (), create_recoveries (create_snapshots f))
      | Some (e, applied) \<Rightarrow> (Inl (ErrDriver e),
          if applied = 0 then f else if applied = 1 then create_snapshots f
          else create_recoveries (create_snapshots f)))"

definition sqlite_New :: "db_env \<Rightarrow> string option \<Rightarrow> dbfile \<Rightarrow> (storage_error, sqlite) go_result \<times> dbfile" where
  "sqlite_New env open_err f =
     (case open_err of
        Some e \<Rightarrow> (Inl (ErrDriver e), f)
      | None \<Rightarrow>
          (case createTables env f of
             (Inl e, f) \<Rightarrow> (Inl e, f)
           | (Inr _, f) \<Rightarrow>
               (Inr \<lparr>sq_snapshots = the (fl_snapshots f), sq_recoveries = the (fl_recoveries f), sq_io = 1\<rparr>, f)))"

definition SaveSnapshot :: "db_env \<Rightarrow> string \<Rightarrow> Snapshot \<Rightarrow> sqlite \<Rightarrow> (storage_error, unit) go_result \<times> sqlite" where
  "SaveSnapshot env clusterName snapshot s =
     (case enc_Snapshot snapshot of
        Inl e \<Rightarrow> (Inl (ErrMarshal e), s)
      | Inr d \<Rightarrow> exec_statement env (querySaveSnapshot clusterName (sn_Created snapshot) d) s)"

definition SaveRecovery :: "db_env \<Rightarrow> Recovery \<Rightarrow> sqlite \<Rightarrow> (storage_error, unit) go_result \<times> sqlite" where
  "SaveRecovery env recovery s =
     (case enc_Recovery recovery of
        Inl e \<Rightarrow> (Inl (ErrMarshal e), s)
      | Inr d \<Rightarrow> exec_statement env (querySaveRecoveries (rv_ClusterName recovery) (rv_EndTimestamp recovery) d) s)"

text \<open>\<open>json.Unmarshal\<close> fills a variable of the program; a null document leaves its zero value.\<close>

definition zero_Snapshot :: Snapshot where
  "zero_Snapshot = \<lparr>sn_Created = 0, sn_Routers = [], sn_ReplicaSets = [], sn_priorities = Map.empty\<rparr>"

definition unmarshal :: "'a decoder \<Rightarrow> 'a \<Rightarrow> json \<Rightarrow> (storage_error, 'a) go_result" where
  "unmarshal d z j = (if j = JNull then Inr z else case d j of Inl e \<Rightarrow> Inl (ErrMarshal e) | Inr x \<Rightarrow> Inr x)"

text \<open>
  Only \<open>ErrNoRows\<close> is looked at after \<open>row.Scan\<close>; any other error is overwritten by what
  \<open>json.Unmarshal\<close> says about the empty buffer.
\<close>

definition GetClusterSnapshot :: "db_env \<Rightarrow> string \<Rightarrow> sqlite \<Rightarrow> (storage_error, Snapshot) go_result \<times> sqlite" where
  "GetClusterSnapshot env clusterName s =
     (case db_fault env (sq_io s) of
        Some _ \<Rightarrow> (Inl (ErrMarshal ErrSyntax), sq_tick s)
      | None \<Rightarrow>
          (case queryGetLastSnapshot clusterName s of
             None \<Rightarrow> (Inl ErrEmptyResult, sq_tick s)
           | Some d \<Rightarrow> (unmarshal dec_Snapshot zero_Snapshot d, sq_tick s)))"

text \<open>The loop over the rows: \<open>rows.Err\<close> is not consulted when it ends.\<close>

fun read_rows :: "(db_row \<Rightarrow> (storage_error, 'a) go_result) \<Rightarrow> db_row list \<Rightarrow> string option \<Rightarrow> 'a list \<Rightarrow> (storage_error, 'a list) go_result" where
  "read_rows f [] scan_err resp = (case scan_err of None \<Rightarrow> Inr resp | Some e \<Rightarrow> Inl (ErrDriver e))"
| "read_rows f (row # rows) scan_err resp = bindR (f row) (\<lambda>x. read_rows f rows scan_err (resp @ [x]))"

definition query_rows :: "db_env \<Rightarrow> (db_row \<Rightarrow> (storage_error, 'a) go_result) \<Rightarrow> db_row list \<Rightarrow> sqlite \<Rightarrow> (storage_error, 'a list) go_result \<times> sqlite" where
  "query_rows env f rows s =
     (case db_fault env (sq_io s) of
        Some (e, _) \<Rightarrow> (Inl (ErrDriver e), sq_tick s)
      | None \<Rightarrow> (case db_scan env (sq_io s) of (ps, scan_err) \<Rightarrow> (read_rows f (delivered ps rows) scan_err [], sq_tick s)))"

definition cluster_row :: "db_row \<Rightarrow> (storage_error, ClusterSnapshotResp) go_result" where
  "cluster_row row = bindR (unmarshal dec_Snapshot zero_Snapshot (snd (snd row)))
     (\<lambda>sn. Inr \<lparr>cr_Name = fst row, cr_Snapshot = sn\<rparr>)"

definition recovery_row :: "db_row \<Rightarrow> (storage_error, Recovery) go_result" where
  "recovery_row row = unmarshal dec_Recovery
     \<lparr>rv_Type = '''', rv_Scope = '''', rv_AnalysisEntry = zero_Analysis, rv_ClusterName = '''',
      rv_SetUUID = '''', rv_Failed = zero_InstanceIdent, rv_Successor = zero_InstanceIdent,
      rv_IsSuccessful = False, rv_StartTimestamp = 0, rv_EndTimestamp = 0, rv_Expiration = 0\<rparr>
     (snd (snd row))"

definition GetClusters :: "db_env \<Rightarrow> sqlite \<Rightarrow> (storage_error, ClusterSnapshotResp list) go_result \<times> sqlite" where
  "GetClusters env s = query_rows env cluster_row (queryGetClusters s) s"

definition GetRecoveries :: "db_env \<Rightarrow> string \<Rightarrow> sqlite \<Rightarrow> (storage_error, Recovery list) go_result \<times> sqlite" where
  "GetRecoveries env clusterName s = query_rows env recovery_row (queryGetRecoveries clusterName s) s"

definition sqlite_storage :: "db_env \<Rightarrow> sqlite Storage" where
  "sqlite_storage env = \<lparr>st_GetClusters = GetClusters env, st_SaveSnapshot = SaveSnapshot env,
     st_SaveRecovery = SaveRecovery env, st_GetClusterSnapshot = GetClusterSnapshot env,
     st_GetRecoveries = GetRecoveries env\<rparr>"

section \<open>SQLite keeps the contract\<close>

definition sq_inv :: "sqlite \<Rightarrow> bool" where
  "sq_inv s \<longleftrightarrow> distinct (map fst (sq_snapshots s)) \<and>
     list_all (\<lambda>row. \<not> isl (cluster_row row)) (sq_snapshots s) \<and>
     list_all (\<lambda>row. \<not> isl (recovery_row row)) (sq_recoveries s)"

definition sq_snapshot_of :: "sqlite \<Rightarrow> string \<rightharpoonup> Snapshot" where
  "sq_snapshot_of s name = map_option (\<lambda>r. cr_Snapshot (projr (cluster_row (name, r)))) (map_of (sq_snapshots s) name)"

definition sq_recoveries_of :: "sqlite \<Rightarrow> string \<Rightarrow> Recovery list" where
  "sq_recoveries_of s name = map (\<lambda>row. projr (recovery_row row)) (queryGetRecoveries name s)"

lemma sq_tick_simps [simp]:
  "sq_inv (sq_tick s) = sq_inv s" "sq_snapshot_of (sq_tick s) = sq_snapshot_of s"
  "sq_recoveries_of (sq_tick s) = sq_recoveries_of s" "sq_io (sq_tick s) = Suc (sq_io s)"
  by (simp_all add: sq_tick_def sq_inv_def sq_snapshot_of_def [abs_def] sq_recoveries_of_def [abs_def]
      queryGetRecoveries_def)

lemma read_rows_eq:
  "list_all (\<lambda>row. \<not> isl (f row)) rows \<Longrightarrow>
     read_rows f rows scan_err resp = (case scan_err of None \<Rightarrow> Inr (resp @ map (\<lambda>row. projr (f row)) rows) | Some e \<Rightarrow> Inl (ErrDriver e))"
proof (induction rows arbitrary: resp)
  case (Cons row rows)
  then obtain x where "f row = Inr x" by (cases "f row") auto
  with Cons show ?case by (simp split: option.splits)
qed (simp split: option.splits)

lemma mset_subseteq_list_all: "mset xs \<subseteq># mset ys \<Longrightarrow> list_all P ys \<Longrightarrow> list_all P xs"
  by (auto simp: list_all_iff dest: mset_subset_eqD)

lemma mset_subseteq_distinct: "mset xs \<subseteq># mset ys \<Longrightarrow> distinct ys \<Longrightarrow> distinct xs"
  by (metis distinct_append mset_append mset_eq_imp_distinct_iff mset_subset_eq_exists_conv ex_mset)

lemma mset_subseteq_map: "mset xs \<subseteq># mset ys \<Longrightarrow> mset (map f xs) \<subseteq># mset (map f ys)"
  by (simp add: image_mset_subseteq_mono)

text \<open>What a query over decodable rows returns.\<close>

lemma query_rows_cases:
  assumes "list_all (\<lambda>row. \<not> isl (f row)) rows" and "query_rows env f rows s = (r, s')"
  shows "s' = sq_tick s \<and> (case r of Inl _ \<Rightarrow> True
      | Inr xs \<Rightarrow> \<exists>got. mset got \<subseteq># mset rows \<and> xs = map (\<lambda>row. projr (f row)) got)"
proof (cases "db_fault env (sq_io s)")
  case None
  obtain ps e where g: "db_scan env (sq_io s) = (ps, e)" by fastforce
  let ?got = "delivered ps rows"
  have m: "mset ?got \<subseteq># mset rows" by (rule delivered_subset)
  note read = read_rows_eq[OF mset_subseteq_list_all[OF m assms(1)], of e "[]"]
  show ?thesis
  proof (cases e)
    case None
    with read have "read_rows f ?got e [] = Inr (map (\<lambda>row. projr (f row)) ?got)" by simp
    with g assms(2) \<open>db_fault env (sq_io s) = None\<close> have "r = Inr (map (\<lambda>row. projr (f row)) ?got)" "s' = sq_tick s"
      by (simp_all add: query_rows_def)
    with m show ?thesis by (auto intro!: exI[of _ ?got])
  next
    case (Some x)
    with read have "read_rows f ?got e [] = Inl (ErrDriver x)" by simp
    with g assms(2) \<open>db_fault env (sq_io s) = None\<close> have "r = Inl (ErrDriver x)" "s' = sq_tick s"
      by (simp_all add: query_rows_def)
    then show ?thesis by simp
  qed
next
  case (Some p)
  with assms(2) show ?thesis by (cases p) (auto simp: query_rows_def)
qed

lemma map_of_upsert: "map_of (upsert name c d rows) = (map_of rows)(name \<mapsto> (c, d))"
  by (induction name c d rows rule: upsert.induct) (auto simp: fun_eq_iff)

lemma set_upsert: "set (upsert name c d rows) \<subseteq> insert (name, c, d) (set rows)"
  by (induction name c d rows rule: upsert.induct) auto

lemma fst_set_upsert: "fst ` set (upsert name c d rows) = insert name (fst ` set rows)"
  by (induction name c d rows rule: upsert.induct) auto

lemma distinct_upsert: "distinct (map fst rows) \<Longrightarrow> distinct (map fst (upsert name c d rows))"
  by (induction name c d rows rule: upsert.induct) (auto simp: fst_set_upsert)

lemma last_snapshot: "distinct (map fst (sq_snapshots s)) \<Longrightarrow>
    queryGetLastSnapshot name s = map_option snd (map_of (sq_snapshots s) name)"
proof -
  assume d: "distinct (map fst (sq_snapshots s))"
  have "(case filter (\<lambda>r. fst r = name) rows of [] \<Rightarrow> None | (_, _, d) # _ \<Rightarrow> Some d) =
      map_option snd (map_of rows name)" for rows :: "db_row list"
    by (induction rows) auto
  then have "(case rev (filter (\<lambda>r. fst r = name) rows) of [] \<Rightarrow> None | (_, _, d) # _ \<Rightarrow> Some d) =
      map_option snd (map_of (rev rows) name)" for rows :: "db_row list"
    by (simp add: rev_filter)
  moreover have "map_of (rev (sq_snapshots s)) name = map_of (sq_snapshots s) name"
    using d by (metis distinct_rev map_of_inject_set rev_map set_rev)
  ultimately show ?thesis by (simp add: queryGetLastSnapshot_def)
qed

lemma cluster_row_name: "\<not> isl (cluster_row row) \<Longrightarrow> cr_Name (projr (cluster_row row)) = fst row"
  by (cases "unmarshal dec_Snapshot zero_Snapshot (snd (snd row))") (simp_all add: cluster_row_def)

lemma sqlite_saves_snapshot:
  assumes "sq_inv s" and "wf_Snapshot sn" and "SaveSnapshot env name sn s = (r, s')"
  shows "sq_inv s'" and "sq_recoveries_of s' = sq_recoveries_of s"
    and "sq_snapshot_of s' = (sq_snapshot_of s)(name \<mapsto> view_Snapshot sn) \<or>
         (\<exists>e. r = Inl e) \<and> sq_snapshot_of s' = sq_snapshot_of s"
    and "db_fault env (sq_io s) = None \<Longrightarrow> r = Inr ()"
proof -
  obtain d where d: "enc_Snapshot sn = Inr d" "d \<noteq> JNull" "dec_Snapshot d = Inr (view_Snapshot sn)"
    by (rule Snapshot_json.encodeE[OF assms(2)])
  let ?s = "querySaveSnapshot name (sn_Created sn) d s"
  have row: "cluster_row (name, sn_Created sn, d) = Inr \<lparr>cr_Name = name, cr_Snapshot = view_Snapshot sn\<rparr>"
    by (simp add: cluster_row_def unmarshal_def d)
  have inv: "sq_inv ?s"
    using assms(1) row set_upsert[of name "sn_Created sn" d "sq_snapshots s"]
    by (auto simp: sq_inv_def querySaveSnapshot_def distinct_upsert list_all_iff)
  have snap: "sq_snapshot_of ?s = (sq_snapshot_of s)(name \<mapsto> view_Snapshot sn)"
    by (rule ext) (simp add: sq_snapshot_of_def querySaveSnapshot_def map_of_upsert row)
  have rec: "sq_recoveries_of ?s = sq_recoveries_of s"
    by (rule ext) (simp add: sq_recoveries_of_def querySaveSnapshot_def queryGetRecoveries_def)
  have e: "exec_statement env (querySaveSnapshot name (sn_Created sn) d) s = (r, s')"
    using assms(3) d(1) by (simp add: SaveSnapshot_def)
  show "sq_inv s'" "sq_recoveries_of s' = sq_recoveries_of s"
    "sq_snapshot_of s' = (sq_snapshot_of s)(name \<mapsto> view_Snapshot sn) \<or>
         (\<exists>e. r = Inl e) \<and> sq_snapshot_of s' = sq_snapshot_of s"
    using e inv snap rec assms(1) by (auto simp: exec_statement_def split: option.splits if_splits)
  show "r = Inr ()" if "db_fault env (sq_io s) = None" using e that by (simp add: exec_statement_def)
qed

lemma sqlite_saves_recovery:
  assumes "sq_inv s" and "wf_Recovery rv" and "SaveRecovery env rv s = (r, s')"
  shows "sq_inv s'" and "sq_snapshot_of s' = sq_snapshot_of s"
    and "sq_recoveries_of s' = (sq_recoveries_of s)(rv_ClusterName rv := sq_recoveries_of s (rv_ClusterName rv) @ [rv]) \<or>
         (\<exists>e. r = Inl e) \<and> sq_recoveries_of s' = sq_recoveries_of s"
    and "db_fault env (sq_io s) = None \<Longrightarrow> r = Inr ()"
proof -
  obtain d where d: "enc_Recovery rv = Inr d" "d \<noteq> JNull" "dec_Recovery d = Inr (id rv)"
    by (rule Recovery_json.encodeE[OF assms(2)])
  let ?s = "querySaveRecoveries (rv_ClusterName rv) (rv_EndTimestamp rv) d s"
  have row: "recovery_row (n, c, d) = Inr rv" for n c
    by (simp add: recovery_row_def unmarshal_def d)
  have inv: "sq_inv ?s" using assms(1) row by (auto simp: sq_inv_def querySaveRecoveries_def)
  have snap: "sq_snapshot_of ?s = sq_snapshot_of s"
    by (rule ext) (simp add: sq_snapshot_of_def querySaveRecoveries_def)
  have rec: "sq_recoveries_of ?s =
      (sq_recoveries_of s)(rv_ClusterName rv := sq_recoveries_of s (rv_ClusterName rv) @ [rv])"
    by (rule ext) (simp add: sq_recoveries_of_def querySaveRecoveries_def queryGetRecoveries_def row)
  have e: "exec_statement env (querySaveRecoveries (rv_ClusterName rv) (rv_EndTimestamp rv) d) s = (r, s')"
    using assms(3) d(1) by (simp add: SaveRecovery_def)
  show "sq_inv s'" "sq_snapshot_of s' = sq_snapshot_of s"
    "sq_recoveries_of s' = (sq_recoveries_of s)(rv_ClusterName rv := sq_recoveries_of s (rv_ClusterName rv) @ [rv]) \<or>
         (\<exists>e. r = Inl e) \<and> sq_recoveries_of s' = sq_recoveries_of s"
    using e inv snap rec assms(1) by (auto simp: exec_statement_def split: option.splits if_splits)
  show "r = Inr ()" if "db_fault env (sq_io s) = None" using e that by (simp add: exec_statement_def)
qed

lemma sqlite_reads_snapshot:
  assumes "sq_inv s" and "GetClusterSnapshot env name s = (r, s')"
  shows "s' = sq_tick s" and "r = Inl ErrEmptyResult \<Longrightarrow> sq_snapshot_of s name = None"
    and "pred_result (\<lambda>sn. sq_snapshot_of s name = Some sn) r"
    and "db_fault env (sq_io s) = None \<Longrightarrow>
      r = (case sq_snapshot_of s name of None \<Rightarrow> Inl ErrEmptyResult | Some sn \<Rightarrow> Inr sn)"
proof -
  show s': "s' = sq_tick s"
    using assms(2) by (simp add: GetClusterSnapshot_def split: option.splits)
  have q: "queryGetLastSnapshot name s = map_option snd (map_of (sq_snapshots s) name)"
    using assms(1) by (simp add: sq_inv_def last_snapshot)
  show full: "r = (case sq_snapshot_of s name of None \<Rightarrow> Inl ErrEmptyResult | Some sn \<Rightarrow> Inr sn)"
    if ok: "db_fault env (sq_io s) = None"
  proof (cases "map_of (sq_snapshots s) name")
    case None
    with assms(2) q ok show ?thesis by (simp add: GetClusterSnapshot_def sq_snapshot_of_def)
  next
    case (Some p)
    then have "\<not> isl (cluster_row (name, p))"
      using assms(1) map_of_SomeD[OF Some] by (auto simp: sq_inv_def list_all_iff)
    then obtain sn where sn: "unmarshal dec_Snapshot zero_Snapshot (snd p) = Inr sn"
      by (cases "unmarshal dec_Snapshot zero_Snapshot (snd p)") (simp_all add: cluster_row_def)
    then have "sq_snapshot_of s name = Some sn" using Some by (simp add: sq_snapshot_of_def cluster_row_def)
    with assms(2) q ok Some sn show ?thesis by (simp add: GetClusterSnapshot_def)
  qed
  have fault: "r = Inl (ErrMarshal ErrSyntax)" if "db_fault env (sq_io s) = Some e" for e
    using assms(2) that by (simp add: GetClusterSnapshot_def)
  show "sq_snapshot_of s name = None" if "r = Inl ErrEmptyResult"
    using full fault that by (cases "db_fault env (sq_io s)") (auto split: option.splits)
  show "pred_result (\<lambda>sn. sq_snapshot_of s name = Some sn) r"
    using full fault by (cases "db_fault env (sq_io s)") (auto split: option.splits)
qed

lemma sqlite_reads_recoveries:
  assumes "sq_inv s" and "GetRecoveries env name s = (r, s')"
  shows "s' = sq_tick s" and "pred_result (\<lambda>rvs. mset rvs \<subseteq># mset (sq_recoveries_of s name)) r"
proof -
  have "list_all (\<lambda>row. \<not> isl (recovery_row row)) (queryGetRecoveries name s)"
    using assms(1) by (auto simp: sq_inv_def queryGetRecoveries_def list_all_iff)
  note read = query_rows_cases[OF this assms(2)[unfolded GetRecoveries_def]]
  then show "s' = sq_tick s" by simp
  show "pred_result (\<lambda>rvs. mset rvs \<subseteq># mset (sq_recoveries_of s name)) r"
  proof (cases r)
    case (Inr rvs)
    with read obtain got where "mset got \<subseteq># mset (queryGetRecoveries name s)"
      "rvs = map (\<lambda>row. projr (recovery_row row)) got" by auto
    with Inr show ?thesis
      by (simp add: sq_recoveries_of_def mset_subseteq_map del: mset_map)
  qed simp
qed

lemma sqlite_reads_clusters:
  assumes "sq_inv s" and "GetClusters env s = (r, s')"
  shows "s' = sq_tick s" and "pred_result (\<lambda>cs. distinct (map cr_Name cs) \<and>
        list_all (\<lambda>c. sq_snapshot_of s (cr_Name c) = Some (cr_Snapshot c)) cs) r"
proof -
  have inv: "distinct (map fst (sq_snapshots s))" "list_all (\<lambda>row. \<not> isl (cluster_row row)) (sq_snapshots s)"
    using assms(1) by (simp_all add: sq_inv_def)
  from query_rows_cases[OF inv(2)] assms(2)
  have s': "s' = sq_tick s" and r: "case r of Inl _ \<Rightarrow> True
      | Inr xs \<Rightarrow> \<exists>got. mset got \<subseteq># mset (sq_snapshots s) \<and> xs = map (\<lambda>row. projr (cluster_row row)) got"
    by (auto simp: GetClusters_def queryGetClusters_def)
  have "distinct (map cr_Name cs) \<and> list_all (\<lambda>c. sq_snapshot_of s (cr_Name c) = Some (cr_Snapshot c)) cs"
    if g: "mset got \<subseteq># mset (sq_snapshots s)" and cs: "cs = map (\<lambda>row. projr (cluster_row row)) got" for cs got
  proof -
    have ok: "list_all (\<lambda>row. \<not> isl (cluster_row row)) got" by (rule mset_subseteq_list_all[OF g inv(2)])
    then have "map cr_Name cs = map fst got" unfolding cs by (auto simp: list_all_iff cluster_row_name)
    moreover have "distinct (map fst got)" by (rule mset_subseteq_distinct[OF mset_subseteq_map[OF g] inv(1)])
    ultimately have "distinct (map cr_Name cs)" by simp
    moreover have "sq_snapshot_of s (fst row) = Some (cr_Snapshot (projr (cluster_row row)))" if "row \<in> set got" for row
    proof -
      have "map_of (sq_snapshots s) (fst row) = Some (snd row)"
        using that mset_subset_eqD[OF g, of row] inv(1) by (simp add: map_of_eq_Some_iff)
      then show ?thesis by (simp add: sq_snapshot_of_def)
    qed
    then have "list_all (\<lambda>c. sq_snapshot_of s (cr_Name c) = Some (cr_Snapshot c)) cs"
      using ok unfolding cs by (auto simp: list_all_iff cluster_row_name)
    ultimately show ?thesis ..
  qed
  with r show "pred_result (\<lambda>cs. distinct (map cr_Name cs) \<and>
        list_all (\<lambda>c. sq_snapshot_of s (cr_Name c) = Some (cr_Snapshot c)) cs) r"
    by (cases r) auto
  show "s' = sq_tick s" by (rule s')
qed

text \<open>The contract holds of SQLite whatever the driver does.\<close>

interpretation sq: storage_contract "sqlite_storage env" sq_inv sq_snapshot_of sq_recoveries_of
proof
  fix s rc s' assume "sq_inv s" "st_GetClusters (sqlite_storage env) s = (rc, s')"
  with sqlite_reads_clusters[OF this(1), of env rc s'] show "sq_inv s' \<and> sq_snapshot_of s' = sq_snapshot_of s \<and>
      sq_recoveries_of s' = sq_recoveries_of s \<and> pred_result (\<lambda>cs. distinct (map cr_Name cs) \<and>
        list_all (\<lambda>c. sq_snapshot_of s (cr_Name c) = Some (cr_Snapshot c)) cs) rc"
    by (simp add: sqlite_storage_def)
next
  fix s sn name ru s' assume a: "sq_inv s" "wf_Snapshot sn" "st_SaveSnapshot (sqlite_storage env) name sn s = (ru, s')"
  then have "SaveSnapshot env name sn s = (ru, s')" by (simp add: sqlite_storage_def)
  from sqlite_saves_snapshot[OF a(1,2) this] show "sq_inv s' \<and> sq_recoveries_of s' = sq_recoveries_of s \<and>
      (sq_snapshot_of s' = (sq_snapshot_of s)(name \<mapsto> view_Snapshot sn) \<or>
       (\<exists>e. ru = Inl e) \<and> sq_snapshot_of s' = sq_snapshot_of s)" by simp
next
  fix s rv ru s' assume a: "sq_inv s" "wf_Recovery rv" "st_SaveRecovery (sqlite_storage env) rv s = (ru, s')"
  then have "SaveRecovery env rv s = (ru, s')" by (simp add: sqlite_storage_def)
  from sqlite_saves_recovery[OF a(1,2) this] show "sq_inv s' \<and> sq_snapshot_of s' = sq_snapshot_of s \<and>
      (sq_recoveries_of s' = (sq_recoveries_of s)(rv_ClusterName rv := sq_recoveries_of s (rv_ClusterName rv) @ [rv]) \<or>
       (\<exists>e. ru = Inl e) \<and> sq_recoveries_of s' = sq_recoveries_of s)" by simp
next
  fix s name rs s' assume a: "sq_inv s" "st_GetClusterSnapshot (sqlite_storage env) name s = (rs, s')"
  then have "GetClusterSnapshot env name s = (rs, s')" by (simp add: sqlite_storage_def)
  from sqlite_reads_snapshot[OF a(1) this] a(1) show "sq_inv s' \<and> sq_snapshot_of s' = sq_snapshot_of s \<and>
      sq_recoveries_of s' = sq_recoveries_of s \<and> (rs = Inl ErrEmptyResult \<longrightarrow> sq_snapshot_of s name = None) \<and>
      pred_result (\<lambda>sn. sq_snapshot_of s name = Some sn) rs" by simp
next
  fix s name rr s' assume a: "sq_inv s" "st_GetRecoveries (sqlite_storage env) name s = (rr, s')"
  then have "GetRecoveries env name s = (rr, s')" by (simp add: sqlite_storage_def)
  from sqlite_reads_recoveries[OF a(1) this] a(1) show "sq_inv s' \<and> sq_snapshot_of s' = sq_snapshot_of s \<and>
      sq_recoveries_of s' = sq_recoveries_of s \<and>
      pred_result (\<lambda>rvs. mset rvs \<subseteq># mset (sq_recoveries_of s name)) rr" by simp
qed

section \<open>Errors the reads lose\<close>

text \<open>An iteration that ends early is not an error: what was read so far is returned as complete.\<close>

lemma partial_read_succeeds:
  assumes "db_fault env (sq_io s) = None" and "db_scan env (sq_io s) = ([], None)"
  shows "fst (GetRecoveries env name s) = Inr [] \<and> fst (GetClusters env s) = Inr []"
  using assms by (simp add: GetRecoveries_def GetClusters_def query_rows_def delivered_def)

text \<open>A failing driver is reported as a syntax error of the stored document.\<close>

lemma driver_error_masked:
  assumes "db_fault env (sq_io s) = Some e"
  shows "fst (GetClusterSnapshot env name s) = Inl (ErrMarshal ErrSyntax)"
  using assms by (simp add: GetClusterSnapshot_def)

end
