(* ===== verification/Storage_Client.thy ===== *)
theory Storage_Client
  imports Storage_Sqlite Qumomf_Coordinator
begin

text \<open>
  What the coordinator stores (\<open>onClusterDiscovered\<close>, \<open>onClusterRecovered\<close>), and what is then
  in the storage, against an abstract archive.

  The clusters call the first after every discovery, the failovers the second after every
  recovery, each in a goroutine of its own; the one connection of the database runs their statements one
  after the other.  So the list of notices below is in the order of the statements, which need not be
  the order in which the discoveries ended.
\<close>

text \<open>The callbacks log the error, the first component.\<close>

definition onClusterDiscovered :: "'s Storage \<Rightarrow> string \<Rightarrow> Snapshot \<Rightarrow> 's \<Rightarrow> storage_error option \<times> 's" where
  "onClusterDiscovered db clusterName snapshot s =
     (case st_SaveSnapshot db clusterName snapshot s of
        (Inl err, s) \<Rightarrow> (Some err, s)
      | (Inr _, s) \<Rightarrow> (None, s))"

definition onClusterRecovered :: "'s Storage \<Rightarrow> Recovery \<Rightarrow> 's \<Rightarrow> storage_error option \<times> 's" where
  "onClusterRecovered db recovery s =
     (case st_SaveRecovery db recovery s of
        (Inl err, s) \<Rightarrow> (Some err, s)
      | (Inr _, s) \<Rightarrow> (None, s))"

datatype notice = ClusterDiscovered string Snapshot | ClusterRecovered Recovery

fun notify :: "'s Storage \<Rightarrow> notice \<Rightarrow> 's \<Rightarrow> storage_error option \<times> 's" where
  "notify db (ClusterDiscovered name snapshot) s = onClusterDiscovered db name snapshot s"
| "notify db (ClusterRecovered recovery) s = onClusterRecovered db recovery s"

fun notify_all :: "'s Storage \<Rightarrow> notice list \<Rightarrow> 's \<Rightarrow> storage_error option list \<times> 's" where
  "notify_all db [] s = ([], s)"
| "notify_all db (n # ns) s =
     (case notify db n s of (e, s) \<Rightarrow>
       (case notify_all db ns s of (es, s) \<Rightarrow> (e # es, s)))"

fun wf_notice :: "notice \<Rightarrow> bool" where
  "wf_notice (ClusterDiscovered _ snapshot) = wf_Snapshot snapshot"
| "wf_notice (ClusterRecovered recovery) = wf_Recovery recovery"

text \<open>\<open>newStorage\<close> of main: the database lies in the configured file; the two time limits are part of what
  the driver does.\<close>

definition newStorage :: "db_env \<Rightarrow> string option \<Rightarrow> (string \<Rightarrow> dbfile) \<Rightarrow> Config
    \<Rightarrow> (storage_error, sqlite) go_result \<times> (string \<Rightarrow> dbfile)" where
  "newStorage env open_err files cfg =
     (let name = st_Filename (q_Storage (c_Qumomf cfg)); (r, f) = sqlite_New env open_err (files name)
      in (r, files(name := f)))"

section \<open>The archive\<close>

record archive =
  ar_snapshots :: "string \<rightharpoonup> Snapshot"
  ar_recoveries :: "string \<Rightarrow> Recovery list"

fun keep :: "notice \<Rightarrow> archive \<Rightarrow> archive" where
  "keep (ClusterDiscovered name snapshot) a = a\<lparr>ar_snapshots := (ar_snapshots a)(name \<mapsto> view_Snapshot snapshot)\<rparr>"
| "keep (ClusterRecovered r) a =
     a\<lparr>ar_recoveries := (ar_recoveries a)(rv_ClusterName r := ar_recoveries a (rv_ClusterName r) @ [r])\<rparr>"

lemma keep_recoveries: "ar_recoveries (fold keep ns a) name =
    ar_recoveries a name @ [r. ClusterRecovered r \<leftarrow> ns, rv_ClusterName r = name]"
proof (induction ns arbitrary: a)
  case (Cons n ns)
  then show ?case by (cases n) simp_all
qed simp

lemma keep_snapshots_other:
  "(\<And>sn. ClusterDiscovered name sn \<notin> set ns) \<Longrightarrow> ar_snapshots (fold keep ns a) name = ar_snapshots a name"
proof (induction ns arbitrary: a)
  case (Cons n ns)
  from Cons.IH Cons.prems have "ar_snapshots (fold keep ns (keep n a)) name = ar_snapshots (keep n a) name" by simp
  also have "\<dots> = ar_snapshots a name" using Cons.prems by (cases n) auto
  finally show ?case by simp
qed simp

context storage_contract
begin

definition archive_of :: "'s \<Rightarrow> archive" where
  "archive_of s = \<lparr>ar_snapshots = snapshot_of s, ar_recoveries = recoveries_of s\<rparr>"

lemma notify_refines:
  assumes "inv s" and "wf_notice n" and "notify db n s = (e, s')"
  shows "inv s'" and "archive_of s' = keep n (archive_of s) \<or> e \<noteq> None \<and> archive_of s' = archive_of s"
proof -
  have "inv s' \<and> (archive_of s' = keep n (archive_of s) \<or> e \<noteq> None \<and> archive_of s' = archive_of s)"
  proof (cases n)
    case (ClusterDiscovered name sn)
    obtain r s'' where st: "st_SaveSnapshot db name sn s = (r, s'')" by fastforce
    with assms ClusterDiscovered save_snapshot[OF assms(1) _ st] show ?thesis
      by (cases r) (auto simp: onClusterDiscovered_def archive_of_def)
  next
    case (ClusterRecovered rv)
    obtain r s'' where st: "st_SaveRecovery db rv s = (r, s'')" by fastforce
    with assms ClusterRecovered save_recovery[OF assms(1) _ st] show ?thesis
      by (cases r) (auto simp: onClusterRecovered_def archive_of_def)
  qed
  then show "inv s'" "archive_of s' = keep n (archive_of s) \<or> e \<noteq> None \<and> archive_of s' = archive_of s" by simp_all
qed

text \<open>A notice is kept whole or, when its error is logged, possibly lost; nothing else happens.\<close>

lemma notify_all_refines:
  "inv s \<Longrightarrow> list_all wf_notice ns \<Longrightarrow> notify_all db ns s = (es, s') \<Longrightarrow>
     inv s' \<and> length es = length ns \<and> (\<exists>kept. list_all2 (\<lambda>k e. k \<or> e \<noteq> None) kept es \<and>
       archive_of s' = fold keep (map snd (filter fst (zip kept ns))) (archive_of s))"
proof (induction ns arbitrary: s es)
  case (Cons n ns)
  obtain e s1 where n: "notify db n s = (e, s1)" by fastforce
  obtain es' s2 where ns: "notify_all db ns s1 = (es', s2)" by fastforce
  from Cons.prems n ns have es: "es = e # es'" "s' = s2" by simp_all
  have wf: "wf_notice n" "list_all wf_notice ns" using Cons.prems by simp_all
  from Cons.IH[OF notify_refines(1)[OF Cons.prems(1) wf(1) n] wf(2) ns[folded es(2)]] obtain kept where
    k: "inv s'" "length es' = length ns" "list_all2 (\<lambda>k e. k \<or> e \<noteq> None) kept es'"
    "archive_of s' = fold keep (map snd (filter fst (zip kept ns))) (archive_of s1)" by blast
  from notify_refines(2)[OF Cons.prems(1) wf(1) n] show ?case
  proof
    assume "archive_of s1 = keep n (archive_of s)"
    with k es show ?thesis by (intro conjI exI[of _ "True # kept"]) simp_all
  next
    assume "e \<noteq> None \<and> archive_of s1 = archive_of s"
    with k es show ?thesis by (intro conjI exI[of _ "False # kept"]) simp_all
  qed
qed simp

end

lemma keep_snapshots_last:
  assumes "\<And>sn. ClusterDiscovered name sn \<notin> set vs"
  shows "ar_snapshots (fold keep (us @ ClusterDiscovered name sn # vs) a) name = Some (view_Snapshot sn)"
  using keep_snapshots_other[OF assms] by simp

section \<open>On SQLite\<close>

definition sq_archive :: "sqlite \<Rightarrow> archive" where
  "sq_archive s = \<lparr>ar_snapshots = sq_snapshot_of s, ar_recoveries = sq_recoveries_of s\<rparr>"

text \<open>Without faults of the driver no callback fails.\<close>

lemma notify_without_faults:
  assumes "\<And>n. db_fault env n = None" and "sq_inv s" and "wf_notice n"
  shows "fst (notify (sqlite_storage env) n s) = None"
proof (cases n)
  case (ClusterDiscovered name sn)
  obtain r s' where st: "SaveSnapshot env name sn s = (r, s')" by fastforce
  with sqlite_saves_snapshot(4)[OF assms(2) _ st assms(1)] ClusterDiscovered assms(3) show ?thesis
    by (simp add: onClusterDiscovered_def sqlite_storage_def)
next
  case (ClusterRecovered rv)
  obtain r s' where st: "SaveRecovery env rv s = (r, s')" by fastforce
  with sqlite_saves_recovery(4)[OF assms(2) _ st assms(1)] ClusterRecovered assms(3) show ?thesis
    by (simp add: onClusterRecovered_def sqlite_storage_def)
qed

lemma notify_all_without_faults:
  assumes "\<And>n. db_fault env n = None"
  shows "sq_inv s \<Longrightarrow> list_all wf_notice ns \<Longrightarrow> notify_all (sqlite_storage env) ns s = (es, s') \<Longrightarrow>
    sq_inv s' \<and> es = replicate (length ns) None \<and> sq_archive s' = fold keep ns (sq_archive s)"
proof (induction ns arbitrary: s es)
  case (Cons n ns)
  obtain e s1 where n: "notify (sqlite_storage env) n s = (e, s1)" by fastforce
  obtain es' s2 where ns: "notify_all (sqlite_storage env) ns s1 = (es', s2)" by fastforce
  have wf: "wf_notice n" "list_all wf_notice ns" using Cons.prems by simp_all
  have e: "e = None" using notify_without_faults[OF assms Cons.prems(1) wf(1)] n by simp
  have s1: "sq_inv s1" "sq_archive s1 = keep n (sq_archive s)"
    using sq.notify_refines[OF Cons.prems(1) wf(1) n] e
    by (simp_all add: sq_archive_def sq.archive_of_def)
  have es: "es = e # es'" "s2 = s'" using Cons.prems(3) n ns by simp_all
  from Cons.IH[OF s1(1) wf(2) ns[unfolded es(2)]] e s1(2) es(1) show ?case by simp
qed simp

text \<open>C7: the storage refines the archive: whatever the driver does, each notice of the clusters and the
  failovers is either kept whole or, and then its error has been logged, lost; in their order
  and without touching anything else.\<close>

theorem storage_refines_archive:
  assumes "sq_inv s" and "list_all wf_notice ns" and "notify_all (sqlite_storage env) ns s = (es, s')"
  shows "sq_inv s' \<and> length es = length ns \<and> (\<exists>kept. list_all2 (\<lambda>k e. k \<or> e \<noteq> None) kept es \<and>
    sq_archive s' = fold keep (map snd (filter fst (zip kept ns))) (sq_archive s))"
  using sq.notify_all_refines[OF assms] by (simp add: sq_archive_def sq.archive_of_def)

definition sample_db :: db_env where
  "sample_db = \<lparr>db_fault = (\<lambda>n. if n = 1 then Some (''disk full'', 0) else None), db_scan = (\<lambda>_. ([0], None))\<rparr>"

definition empty_db :: sqlite where "empty_db = \<lparr>sq_snapshots = [], sq_recoveries = [], sq_io = 0\<rparr>"

lemma empty_db_inv [simp]: "sq_inv empty_db" by (simp add: sq_inv_def empty_db_def)

lemma empty_db_archive [simp]: "sq_archive empty_db = \<lparr>ar_snapshots = Map.empty, ar_recoveries = \<lambda>_. []\<rparr>"
  by (simp add: sq_archive_def empty_db_def sq_snapshot_of_def [abs_def] sq_recoveries_of_def [abs_def]
      queryGetRecoveries_def)

definition sample_snapshot :: "int \<Rightarrow> Snapshot" where "sample_snapshot t = zero_Snapshot\<lparr>sn_Created := t\<rparr>"

lemma sample_snapshot_wf [simp]: "wf_Snapshot (sample_snapshot t) \<longleftrightarrow> in_int64 t"
  by (simp add: sample_snapshot_def zero_Snapshot_def wf_Snapshot_def)

lemma sample_snapshot_view [simp]: "view_Snapshot (sample_snapshot t) = sample_snapshot t"
  by (simp add: sample_snapshot_def zero_Snapshot_def view_Snapshot_def)

theorem storage_refines_archive_witness:
  "\<exists>es s'. notify_all (sqlite_storage sample_db) [ClusterDiscovered ''k'' (sample_snapshot 1), ClusterDiscovered ''k'' (sample_snapshot 2)] empty_db
     = (es, s') \<and> length es = 2 \<and> sq_inv s' \<and> ar_snapshots (sq_archive s') ''k'' \<in> {None, Some (sample_snapshot 1), Some (sample_snapshot 2)}"
proof -
  let ?ns = "[ClusterDiscovered ''k'' (sample_snapshot 1), ClusterDiscovered ''k'' (sample_snapshot 2)]"
  obtain es s' where n: "notify_all (sqlite_storage sample_db) ?ns empty_db = (es, s')" by fastforce
  have w: "list_all wf_notice ?ns" by (simp add: in_int64_def)
  from storage_refines_archive[OF empty_db_inv w n] obtain kept where
    k: "sq_inv s'" "length es = 2" "list_all2 (\<lambda>k e. k \<or> e \<noteq> None) kept es"
    "sq_archive s' = fold keep (map snd (filter fst (zip kept ?ns))) (sq_archive empty_db)" by auto
  from k(2,3) have "length kept = 2" by (simp add: list_all2_lengthD)
  then obtain a b where "kept = [a, b]" by (auto simp: length_Suc_conv numeral_2_eq_2)
  with k n show ?thesis by (cases a; cases b) auto
qed

text \<open>Without faults the storage gives back, for every cluster, the snapshot stored last, without the
  priorities; and this is the one stored last, not the newest one: a discovery whose callback runs late
  overwrites the snapshot of a later discovery.\<close>

theorem last_stored_snapshot:
  assumes "\<And>n. db_fault env n = None" and "sq_inv s"
    and "list_all wf_notice (us @ ClusterDiscovered name sn # vs)"
    and "list_all (\<lambda>n. \<forall>sn. n \<noteq> ClusterDiscovered name sn) vs"
  shows "fst (GetClusterSnapshot env name
      (snd (notify_all (sqlite_storage env) (us @ ClusterDiscovered name sn # vs) s))) = Inr (view_Snapshot sn)"
proof -
  obtain es s' where n: "notify_all (sqlite_storage env) (us @ ClusterDiscovered name sn # vs) s = (es, s')" by fastforce
  from notify_all_without_faults[OF assms(1-3) n] have inv: "sq_inv s'"
    and a: "sq_archive s' = fold keep (us @ ClusterDiscovered name sn # vs) (sq_archive s)" by simp_all
  have "ClusterDiscovered name sn' \<notin> set vs" for sn' using assms(4) by (auto simp: list_all_iff)
  from keep_snapshots_last[OF this] a have "sq_snapshot_of s' name = Some (view_Snapshot sn)"
    by (metis archive.select_convs(1) sq_archive_def)
  moreover obtain r s'' where g: "GetClusterSnapshot env name s' = (r, s'')" by fastforce
  ultimately have "r = Inr (view_Snapshot sn)" using sqlite_reads_snapshot(4)[OF inv g assms(1)] by simp
  with g n show ?thesis by simp
qed

theorem last_stored_snapshot_witness:
  "fst (GetClusterSnapshot \<lparr>db_fault = \<lambda>_. None, db_scan = \<lambda>_. ([], None)\<rparr> ''k''
      (snd (notify_all (sqlite_storage \<lparr>db_fault = \<lambda>_. None, db_scan = \<lambda>_. ([], None)\<rparr>)
        [ClusterDiscovered ''k'' (sample_snapshot 2), ClusterDiscovered ''k'' (sample_snapshot 1)] empty_db)))
    = Inr (sample_snapshot 1)"
  using last_stored_snapshot[of "\<lparr>db_fault = \<lambda>_. None, db_scan = \<lambda>_. ([], None)\<rparr>" empty_db
      "[ClusterDiscovered ''k'' (sample_snapshot 2)]" "''k''" "sample_snapshot 1" "[]"]
  by (simp add: in_int64_def)

lemma zero_Snapshot_wf: "wf_Snapshot zero_Snapshot"
  by (simp add: wf_Snapshot_def zero_Snapshot_def in_int64_def)



end
