(* ===== verification/Qumomf_Api.thy ===== *)
theory Qumomf_Api
  imports Storage_Client
begin

text \<open>
  internal/api: the read service over the storage.

  Its operations are functions of a storage interface \<open>db\<close> and the storage's state, which a read
  can change (a driver counts its calls).  What they return is proved once, from the contract of
  the storage, and holds of SQLite by its interpretation.
\<close>

record ClusterInfo =
  ci_Name :: string
  ci_ShardsCount :: nat
  ci_RoutersCount :: nat
  ci_DiscoveredAt :: int
  ci_HealthLevel :: HealthLevel

record InstanceAlerts =
  ia_ClusterName :: string
  ia_ShardUUID :: ReplicaSetUUID
  ia_InstanceURI :: string
  ia_Alerts :: "Alert list"

record RoutersAlerts =
  ra_URI :: string
  ra_Alerts :: "Alert list"

record AlertsResponse =
  ar_InstancesAlerts :: "InstanceAlerts list"
  ar_RoutersAlerts :: "RoutersAlerts list"

datatype api_error = ErrClusterNotFound | ErrApiReplicaSetNotFound | ErrInstanceNotFound | ErrStorage storage_error

section \<open>The service\<close>

definition ClustersList :: "'s Storage \<Rightarrow> 's \<Rightarrow> (api_error, ClusterInfo list) go_result \<times> 's" where
  "ClustersList db s =
     (case st_GetClusters db s of
        (Inl err, s) \<Rightarrow> (Inl (ErrStorage err), s)
      | (Inr clustersList, s) \<Rightarrow>
          (Inr (map (\<lambda>c. \<lparr>ci_Name = cr_Name c,
                          ci_ShardsCount = length (sn_ReplicaSets (cr_Snapshot c)),
                          ci_RoutersCount = length (sn_Routers (cr_Snapshot c)),
                          ci_DiscoveredAt = sn_Created (cr_Snapshot c),
                          ci_HealthLevel = ClusterHealthLevel (cr_Snapshot c)\<rparr>) clustersList), s))"

definition api_ClusterSnapshot :: "'s Storage \<Rightarrow> string \<Rightarrow> 's \<Rightarrow> (api_error, Snapshot) go_result \<times> 's" where
  "api_ClusterSnapshot db clusterName s =
     (case st_GetClusterSnapshot db clusterName s of
        (Inl err, s) \<Rightarrow> (Inl (if err = ErrEmptyResult then ErrClusterNotFound else ErrStorage err), s)
      | (Inr snap, s) \<Rightarrow> (Inr snap, s))"

definition api_ReplicaSet :: "'s Storage \<Rightarrow> string \<Rightarrow> ReplicaSetUUID \<Rightarrow> 's \<Rightarrow> (api_error, ReplicaSet) go_result \<times> 's" where
  "api_ReplicaSet db clusterName replicaSetUUID s =
     (case st_GetClusterSnapshot db clusterName s of
        (Inl err, s) \<Rightarrow> (Inl (if err = ErrEmptyResult then ErrClusterNotFound else ErrStorage err), s)
      | (Inr snap, s) \<Rightarrow>
          (case Snapshot_ReplicaSet snap replicaSetUUID of
             Inl ErrReplicaSetNotFound \<Rightarrow> (Inl ErrApiReplicaSetNotFound, s)
           | Inr replicaSet \<Rightarrow> (Inr replicaSet, s)))"

definition api_Instance :: "'s Storage \<Rightarrow> string \<Rightarrow> ReplicaSetUUID \<Rightarrow> InstanceUUID \<Rightarrow> 's \<Rightarrow> (api_error, Instance) go_result \<times> 's" where
  "api_Instance db clusterName replicaSetUUID instanceUUID s =
     (case api_ReplicaSet db clusterName replicaSetUUID s of
        (Inl err, s) \<Rightarrow> (Inl err, s)
      | (Inr replicaSet, s) \<Rightarrow>
          (case find (\<lambda>i. inst_UUID i = instanceUUID) (set_Instances replicaSet) of
             Some i \<Rightarrow> (Inr i, s)
           | None \<Rightarrow> (Inl ErrInstanceNotFound, s)))"

definition Recoveries :: "'s Storage \<Rightarrow> string \<Rightarrow> ReplicaSetUUID \<Rightarrow> 's \<Rightarrow> (api_error, Recovery list) go_result \<times> 's" where
  "Recoveries db clusterName replicaSetUUID s =
     (case st_GetRecoveries db clusterName s of
        (Inl err, s) \<Rightarrow> (Inl (ErrStorage err), s)
      | (Inr recoveries, s) \<Rightarrow> (Inr (filter (\<lambda>r. rv_SetUUID r = replicaSetUUID) recoveries), s))"

fun routersAlerts :: "Router list \<Rightarrow> RoutersAlerts list" where
  "routersAlerts [] = []"
| "routersAlerts (r # routers) =
     (if length (ri_Alerts (rt_Info r)) > 0
      then \<lparr>ra_URI = rt_URI r, ra_Alerts = ri_Alerts (rt_Info r)\<rparr> # routersAlerts routers
      else routersAlerts routers)"

fun set_alerts :: "string \<Rightarrow> ReplicaSetUUID \<Rightarrow> Instance list \<Rightarrow> InstanceAlerts list" where
  "set_alerts clusterName uuid [] = []"
| "set_alerts clusterName uuid (i # instances) =
     (let alerts = si_Alerts (inst_StorageInfo i)
      in if length alerts \<noteq> 0
         then \<lparr>ia_ClusterName = clusterName, ia_ShardUUID = uuid, ia_InstanceURI = inst_URI i, ia_Alerts = alerts\<rparr>
              # set_alerts clusterName uuid instances
         else set_alerts clusterName uuid instances)"

fun instanceAlerts :: "string \<Rightarrow> ReplicaSet list \<Rightarrow> InstanceAlerts list" where
  "instanceAlerts clusterName [] = []"
| "instanceAlerts clusterName (rs # replicaSets) =
     set_alerts clusterName (set_UUID rs) (set_Instances rs) @ instanceAlerts clusterName replicaSets"

fun collect_alerts :: "ClusterSnapshotResp list \<Rightarrow> InstanceAlerts list \<Rightarrow> RoutersAlerts list \<Rightarrow> AlertsResponse" where
  "collect_alerts [] instances routers = \<lparr>ar_InstancesAlerts = instances, ar_RoutersAlerts = routers\<rparr>"
| "collect_alerts (c # clusters) instances routers =
     collect_alerts clusters
       (instances @ instanceAlerts (cr_Name c) (sn_ReplicaSets (cr_Snapshot c)))
       (routers @ routersAlerts (sn_Routers (cr_Snapshot c)))"

definition api_Alerts :: "'s Storage \<Rightarrow> 's \<Rightarrow> (api_error, AlertsResponse) go_result \<times> 's" where
  "api_Alerts db s =
     (case st_GetClusters db s of
        (Inl err, s) \<Rightarrow> (Inl (ErrStorage err), s)
      | (Inr clusters, s) \<Rightarrow> (Inr (collect_alerts clusters [] []), s))"

definition api_ClusterAlerts :: "'s Storage \<Rightarrow> string \<Rightarrow> 's \<Rightarrow> (api_error, AlertsResponse) go_result \<times> 's" where
  "api_ClusterAlerts db clusterName s =
     (case api_ClusterSnapshot db clusterName s of
        (Inl err, s) \<Rightarrow> (Inl err, s)
      | (Inr cluster, s) \<Rightarrow>
          (Inr \<lparr>ar_InstancesAlerts = instanceAlerts clusterName (sn_ReplicaSets cluster),
                ar_RoutersAlerts = routersAlerts (sn_Routers cluster)\<rparr>, s))"

text \<open>The interface the HTTP handlers use.\<close>

record 's Service =
  sv_ClustersList :: "'s \<Rightarrow> (api_error, ClusterInfo list) go_result \<times> 's"
  sv_ClusterSnapshot :: "string \<Rightarrow> 's \<Rightarrow> (api_error, Snapshot) go_result \<times> 's"
  sv_ReplicaSet :: "string \<Rightarrow> ReplicaSetUUID \<Rightarrow> 's \<Rightarrow> (api_error, ReplicaSet) go_result \<times> 's"
  sv_Instance :: "string \<Rightarrow> ReplicaSetUUID \<Rightarrow> InstanceUUID \<Rightarrow> 's \<Rightarrow> (api_error, Instance) go_result \<times> 's"
  sv_Recoveries :: "string \<Rightarrow> ReplicaSetUUID \<Rightarrow> 's \<Rightarrow> (api_error, Recovery list) go_result \<times> 's"
  sv_Alerts :: "'s \<Rightarrow> (api_error, AlertsResponse) go_result \<times> 's"
  sv_ClusterAlerts :: "string \<Rightarrow> 's \<Rightarrow> (api_error, AlertsResponse) go_result \<times> 's"

definition NewService :: "'s Storage \<Rightarrow> 's Service" where
  "NewService db = \<lparr>sv_ClustersList = ClustersList db, sv_ClusterSnapshot = api_ClusterSnapshot db,
     sv_ReplicaSet = api_ReplicaSet db, sv_Instance = api_Instance db, sv_Recoveries = Recoveries db,
     sv_Alerts = api_Alerts db, sv_ClusterAlerts = api_ClusterAlerts db\<rparr>"

section \<open>What the service returns\<close>

lemma routersAlerts_eq: "routersAlerts routers =
    map (\<lambda>r. \<lparr>ra_URI = rt_URI r, ra_Alerts = ri_Alerts (rt_Info r)\<rparr>) (filter (\<lambda>r. ri_Alerts (rt_Info r) \<noteq> []) routers)"
  by (induction routers) auto

lemma set_alerts_eq: "set_alerts name uuid instances =
    map (\<lambda>i. \<lparr>ia_ClusterName = name, ia_ShardUUID = uuid, ia_InstanceURI = inst_URI i, ia_Alerts = si_Alerts (inst_StorageInfo i)\<rparr>)
      (filter (\<lambda>i. si_Alerts (inst_StorageInfo i) \<noteq> []) instances)"
  by (induction instances) (auto simp: Let_def)

lemma instanceAlerts_eq:
  "instanceAlerts name replicaSets = concat (map (\<lambda>rs. set_alerts name (set_UUID rs) (set_Instances rs)) replicaSets)"
  by (induction replicaSets) auto

text \<open>An entry for an instance with alerts, and for no other.\<close>

lemma set_instanceAlerts: "x \<in> set (instanceAlerts name replicaSets) \<longleftrightarrow>
    (\<exists>rs \<in> set replicaSets. \<exists>i \<in> set (set_Instances rs). si_Alerts (inst_StorageInfo i) \<noteq> [] \<and>
       x = \<lparr>ia_ClusterName = name, ia_ShardUUID = set_UUID rs, ia_InstanceURI = inst_URI i,
            ia_Alerts = si_Alerts (inst_StorageInfo i)\<rparr>)"
  by (auto simp: instanceAlerts_eq set_alerts_eq)

lemma collect_alerts_eq: "collect_alerts clusters instances routers =
    \<lparr>ar_InstancesAlerts = instances @ concat (map (\<lambda>c. instanceAlerts (cr_Name c) (sn_ReplicaSets (cr_Snapshot c))) clusters),
     ar_RoutersAlerts = routers @ concat (map (\<lambda>c. routersAlerts (sn_Routers (cr_Snapshot c))) clusters)\<rparr>"
  by (induction clusters instances routers rule: collect_alerts.induct) simp_all

lemma Snapshot_ReplicaSet_cases: "case Snapshot_ReplicaSet sn u of
    Inr rs \<Rightarrow> rs \<in> set (sn_ReplicaSets sn) \<and> set_UUID rs = u
  | Inl _ \<Rightarrow> u \<notin> set_UUID ` set (sn_ReplicaSets sn)"
  by (auto simp: Snapshot_ReplicaSet_def find_Some_iff find_None_iff dest: find_SomeD split: option.splits)

context storage_contract
begin

text \<open>A read leaves what is stored.\<close>

definition kept_by :: "'s \<Rightarrow> 's \<Rightarrow> bool" where
  "kept_by s s' \<longleftrightarrow> inv s' \<and> archive_of s' = archive_of s"

lemma ClusterSnapshot_result:
  assumes "inv s" and "api_ClusterSnapshot db name s = (r, s')"
  shows "kept_by s s'" and "r = Inl ErrClusterNotFound \<Longrightarrow> snapshot_of s name = None"
    and "r = Inr sn \<Longrightarrow> snapshot_of s name = Some sn" and "r \<noteq> Inl ErrApiReplicaSetNotFound" and "r \<noteq> Inl ErrInstanceNotFound"
proof -
  obtain q t where st: "st_GetClusterSnapshot db name s = (q, t)" by fastforce
  from get_snapshot[OF assms(1) st] assms(2) st
  show "kept_by s s'" "r = Inl ErrClusterNotFound \<Longrightarrow> snapshot_of s name = None"
    "r = Inr sn \<Longrightarrow> snapshot_of s name = Some sn" "r \<noteq> Inl ErrApiReplicaSetNotFound" "r \<noteq> Inl ErrInstanceNotFound"
    by (auto simp: api_ClusterSnapshot_def kept_by_def archive_of_def split: sum.splits if_splits)
qed

lemma ReplicaSet_via_snapshot: "api_ReplicaSet db name u s =
    (case api_ClusterSnapshot db name s of
       (Inl err, s) \<Rightarrow> (Inl err, s)
     | (Inr snap, s) \<Rightarrow>
         (case Snapshot_ReplicaSet snap u of
            Inl _ \<Rightarrow> (Inl ErrApiReplicaSetNotFound, s)
          | Inr replicaSet \<Rightarrow> (Inr replicaSet, s)))"
  by (auto simp: api_ReplicaSet_def api_ClusterSnapshot_def split: prod.splits sum.splits snapshot_error.splits)

lemma ReplicaSet_result:
  assumes "inv s" and "api_ReplicaSet db name u s = (r, s')"
  shows "kept_by s s'" and "r = Inl ErrClusterNotFound \<Longrightarrow> snapshot_of s name = None"
    and "r = Inl ErrApiReplicaSetNotFound \<Longrightarrow>
      \<exists>sn. snapshot_of s name = Some sn \<and> u \<notin> set_UUID ` set (sn_ReplicaSets sn)"
    and "r = Inr rs \<Longrightarrow> \<exists>sn. snapshot_of s name = Some sn \<and> rs \<in> set (sn_ReplicaSets sn) \<and> set_UUID rs = u"
    and "r \<noteq> Inl ErrInstanceNotFound"
proof -
  obtain q t where st: "api_ClusterSnapshot db name s = (q, t)" by fastforce
  note cs = ClusterSnapshot_result[OF assms(1) st]
  have t: "s' = t" using assms(2) st by (auto simp: ReplicaSet_via_snapshot split: sum.splits)
  then show "kept_by s s'" using cs(1) by simp
  show "snapshot_of s name = None" if "r = Inl ErrClusterNotFound"
    using assms(2) st that cs(2) by (auto simp: ReplicaSet_via_snapshot split: sum.splits)
  show "r \<noteq> Inl ErrInstanceNotFound"
    using assms(2) st cs(5) by (auto simp: ReplicaSet_via_snapshot split: sum.splits)
  show "\<exists>sn. snapshot_of s name = Some sn \<and> u \<notin> set_UUID ` set (sn_ReplicaSets sn)" if "r = Inl ErrApiReplicaSetNotFound"
  proof (cases q)
    case (Inl e)
    with assms(2) st that cs(4) show ?thesis by (simp add: ReplicaSet_via_snapshot)
  next
    case (Inr sn)
    with assms(2) st that have "isl (Snapshot_ReplicaSet sn u)" by (auto simp: ReplicaSet_via_snapshot split: sum.splits)
    with Snapshot_ReplicaSet_cases[where sn = sn and u = u] cs(3)[OF Inr] show ?thesis by (auto split: sum.splits)
  qed
  show "\<exists>sn. snapshot_of s name = Some sn \<and> rs \<in> set (sn_ReplicaSets sn) \<and> set_UUID rs = u" if "r = Inr rs"
  proof (cases q)
    case (Inl e)
    with assms(2) st that show ?thesis by (simp add: ReplicaSet_via_snapshot)
  next
    case (Inr sn)
    with assms(2) st that have "Snapshot_ReplicaSet sn u = Inr rs" by (auto simp: ReplicaSet_via_snapshot split: sum.splits)
    with Snapshot_ReplicaSet_cases[where sn = sn and u = u] cs(3)[OF Inr] show ?thesis by auto
  qed
qed

lemma Instance_result:
  assumes "inv s" and "api_Instance db name u v s = (r, s')"
  shows "kept_by s s'" and "r = Inl ErrClusterNotFound \<Longrightarrow> snapshot_of s name = None"
    and "r = Inl ErrApiReplicaSetNotFound \<Longrightarrow>
      \<exists>sn. snapshot_of s name = Some sn \<and> u \<notin> set_UUID ` set (sn_ReplicaSets sn)"
    and "r = Inl ErrInstanceNotFound \<Longrightarrow> \<exists>sn. snapshot_of s name = Some sn \<and>
      (\<exists>rs \<in> set (sn_ReplicaSets sn). set_UUID rs = u \<and> v \<notin> inst_UUID ` set (set_Instances rs))"
    and "r = Inr i \<Longrightarrow> \<exists>sn. snapshot_of s name = Some sn \<and>
      (\<exists>rs \<in> set (sn_ReplicaSets sn). set_UUID rs = u \<and> i \<in> set (set_Instances rs) \<and> inst_UUID i = v)"
proof -
  obtain q t where st: "api_ReplicaSet db name u s = (q, t)" by fastforce
  note rr = ReplicaSet_result[OF assms(1) st]
  have t: "s' = t" and r: "r = (case q of Inl err \<Rightarrow> Inl err
     | Inr rs \<Rightarrow> (case find (\<lambda>i. inst_UUID i = v) (set_Instances rs) of Some i \<Rightarrow> Inr i | None \<Rightarrow> Inl ErrInstanceNotFound))"
    using assms(2) st by (auto simp: api_Instance_def split: sum.splits option.splits)
  from t rr(1) show "kept_by s s'" by simp
  show "r = Inl ErrClusterNotFound \<Longrightarrow> snapshot_of s name = None"
    "r = Inl ErrApiReplicaSetNotFound \<Longrightarrow> \<exists>sn. snapshot_of s name = Some sn \<and> u \<notin> set_UUID ` set (sn_ReplicaSets sn)"
    using r rr(2,3) by (auto split: sum.splits option.splits)
  show "\<exists>sn. snapshot_of s name = Some sn \<and>
      (\<exists>rs \<in> set (sn_ReplicaSets sn). set_UUID rs = u \<and> v \<notin> inst_UUID ` set (set_Instances rs))"
    if "r = Inl ErrInstanceNotFound"
  proof -
    from that r rr(5) obtain rs where q: "q = Inr rs" "find (\<lambda>i. inst_UUID i = v) (set_Instances rs) = None"
      by (auto split: sum.splits option.splits)
    with rr(4) show ?thesis by (fastforce simp: find_None_iff)
  qed
  show "\<exists>sn. snapshot_of s name = Some sn \<and>
      (\<exists>rs \<in> set (sn_ReplicaSets sn). set_UUID rs = u \<and> i \<in> set (set_Instances rs) \<and> inst_UUID i = v)"
    if "r = Inr i"
  proof -
    from that r obtain rs where q: "q = Inr rs" "find (\<lambda>i. inst_UUID i = v) (set_Instances rs) = Some i"
      by (auto split: sum.splits option.splits)
    with rr(4) find_SomeD[OF q(2)] show ?thesis by blast
  qed
qed

lemma Recoveries_result:
  assumes "inv s" and "Recoveries db name u s = (r, s')"
  shows "kept_by s s'"
    and "r = Inr rvs \<Longrightarrow> mset rvs \<subseteq># mset (filter (\<lambda>rv. rv_SetUUID rv = u) (recoveries_of s name))"
proof -
  obtain q t where st: "st_GetRecoveries db name s = (q, t)" by fastforce
  from get_recoveries[OF assms(1) st] assms(2) st
  show "kept_by s s'" "r = Inr rvs \<Longrightarrow> mset rvs \<subseteq># mset (filter (\<lambda>rv. rv_SetUUID rv = u) (recoveries_of s name))"
    by (auto simp: Recoveries_def kept_by_def archive_of_def multiset_filter_mono split: sum.splits)
qed

end

section \<open>On SQLite\<close>

lemma api_no_fault:
  assumes "sq_inv s" and "db_fault env (sq_io s) = None"
  shows "fst (api_ClusterSnapshot (sqlite_storage env) name s) \<noteq> Inl (ErrStorage e)"
    and "fst (api_ReplicaSet (sqlite_storage env) name u s) \<noteq> Inl (ErrStorage e)"
    and "fst (api_Instance (sqlite_storage env) name u v s) \<noteq> Inl (ErrStorage e)"
proof -
  obtain r s' where g: "GetClusterSnapshot env name s = (r, s')" by fastforce
  have "r = Inl ErrEmptyResult \<or> (\<exists>sn. r = Inr sn)"
    using sqlite_reads_snapshot(4)[OF assms(1) g assms(2)] by (simp split: option.splits)
  with g show c: "fst (api_ClusterSnapshot (sqlite_storage env) name s) \<noteq> Inl (ErrStorage e)"
    by (auto simp: api_ClusterSnapshot_def sqlite_storage_def)
  show rs: "fst (api_ReplicaSet (sqlite_storage env) name u s) \<noteq> Inl (ErrStorage e)"
    unfolding sq.ReplicaSet_via_snapshot using c
    by (cases "api_ClusterSnapshot (sqlite_storage env) name s") (auto split: sum.splits)
  show "fst (api_Instance (sqlite_storage env) name u v s) \<noteq> Inl (ErrStorage e)"
    unfolding api_Instance_def using rs
    by (cases "api_ReplicaSet (sqlite_storage env) name u s") (auto split: sum.splits option.splits)
qed

text \<open>C40: the lookup of an instance: it is found in the replica set of that id in the stored snapshot of the
  cluster, or the error says at which of the three levels nothing was found, or the driver
  reported a fault.\<close>

theorem instance_lookup:
  assumes "sq_inv s"
  shows "case fst (api_Instance (sqlite_storage env) name u v s) of
     Inr i \<Rightarrow> \<exists>sn. sq_snapshot_of s name = Some sn \<and>
       (\<exists>rs \<in> set (sn_ReplicaSets sn). set_UUID rs = u \<and> i \<in> set (set_Instances rs) \<and> inst_UUID i = v)
   | Inl ErrInstanceNotFound \<Rightarrow> \<exists>sn. sq_snapshot_of s name = Some sn \<and>
       (\<exists>rs \<in> set (sn_ReplicaSets sn). set_UUID rs = u \<and> v \<notin> inst_UUID ` set (set_Instances rs))
   | Inl ErrApiReplicaSetNotFound \<Rightarrow>
       \<exists>sn. sq_snapshot_of s name = Some sn \<and> u \<notin> set_UUID ` set (sn_ReplicaSets sn)
   | Inl ErrClusterNotFound \<Rightarrow> sq_snapshot_of s name = None
   | Inl (ErrStorage _) \<Rightarrow> db_fault env (sq_io s) \<noteq> None"
proof -
  obtain r s' where g: "api_Instance (sqlite_storage env) name u v s = (r, s')" by fastforce
  note ir = sq.Instance_result[OF assms g]
  show ?thesis
  proof (cases r)
    case (Inr i)
    with ir(5)[OF Inr] g show ?thesis by simp
  next
    case (Inl e)
    show ?thesis
    proof (cases e)
      case (ErrStorage x)
      have "db_fault env (sq_io s) \<noteq> None"
      proof
        assume "db_fault env (sq_io s) = None"
        from api_no_fault(3)[OF assms this, of name u v x] g Inl ErrStorage show False by simp
      qed
      with Inl g ErrStorage show ?thesis by simp
    qed (use ir(2-4) g Inl in simp_all)
  qed
qed

text \<open>The alerts of a cluster are one entry for every instance with alerts in its stored snapshot and one
  for every router with alerts, with their alerts as they were stored, and no other entry.\<close>

theorem cluster_alerts_exact:
  assumes "sq_inv s" and "fst (api_ClusterAlerts (sqlite_storage env) name s) = Inr resp"
  shows "\<exists>sn. sq_snapshot_of s name = Some sn \<and>
     set (ar_InstancesAlerts resp) = (\<Union>rs \<in> set (sn_ReplicaSets sn).
       (\<lambda>i. \<lparr>ia_ClusterName = name, ia_ShardUUID = set_UUID rs, ia_InstanceURI = inst_URI i,
             ia_Alerts = si_Alerts (inst_StorageInfo i)\<rparr>) ` {i \<in> set (set_Instances rs). si_Alerts (inst_StorageInfo i) \<noteq> []}) \<and>
     ar_RoutersAlerts resp = map (\<lambda>r. \<lparr>ra_URI = rt_URI r, ra_Alerts = ri_Alerts (rt_Info r)\<rparr>)
       (filter (\<lambda>r. ri_Alerts (rt_Info r) \<noteq> []) (sn_Routers sn))"
proof -
  obtain r s' where g: "api_ClusterSnapshot (sqlite_storage env) name s = (r, s')" by fastforce
  with assms(2) obtain sn where r: "r = Inr sn" and resp: "resp = \<lparr>ar_InstancesAlerts = instanceAlerts name (sn_ReplicaSets sn),
      ar_RoutersAlerts = routersAlerts (sn_Routers sn)\<rparr>"
    by (cases r) (simp_all add: api_ClusterAlerts_def)
  have "set (instanceAlerts name (sn_ReplicaSets sn)) = (\<Union>rs \<in> set (sn_ReplicaSets sn).
       (\<lambda>i. \<lparr>ia_ClusterName = name, ia_ShardUUID = set_UUID rs, ia_InstanceURI = inst_URI i,
             ia_Alerts = si_Alerts (inst_StorageInfo i)\<rparr>) ` {i \<in> set (set_Instances rs). si_Alerts (inst_StorageInfo i) \<noteq> []})"
    by (rule set_eqI, unfold set_instanceAlerts) blast
  with sq.ClusterSnapshot_result(3)[OF assms(1) g r] show ?thesis by (simp add: resp routersAlerts_eq)
qed

definition sample_alerting :: Instance where
  "sample_alerting = zero_Instance\<lparr>inst_UUID := ''i'', inst_StorageInfo := zero_StorageInfo\<lparr>
     si_Alerts := [\<lparr>alert_Type = ''UNREACHABLE_MASTER'', alert_Description = ''''\<rparr>]\<rparr>\<rparr>"

definition sample_stored :: Snapshot where
  "sample_stored = zero_Snapshot\<lparr>sn_ReplicaSets := [zero_ReplicaSet\<lparr>set_UUID := ''s'', set_Instances := [sample_alerting]\<rparr>]\<rparr>"

definition quiet_db :: db_env where
  "quiet_db = \<lparr>db_fault = \<lambda>_. None, db_scan = \<lambda>_. ([0], None)\<rparr>"

definition sample_store :: sqlite where
  "sample_store = snd (SaveSnapshot quiet_db ''k'' sample_stored empty_db)"

lemma sample_stored_wf: "wf_Snapshot sample_stored"
  by (simp add: wf_Snapshot_def sample_stored_def zero_Snapshot_def in_int64_def wf_ReplicaSet_def
      sample_alerting_def zero_Instance_def wf_Instance_def wf_StorageInfo_def zero_StorageInfo_def
      wf_InstanceBucket_def zero_InstanceBucket_def)

lemma sample_store_props: "sq_inv sample_store" "sq_snapshot_of sample_store ''k'' = Some sample_stored"
proof -
  obtain r s' where st: "SaveSnapshot quiet_db ''k'' sample_stored empty_db = (r, s')" by fastforce
  note sv = sqlite_saves_snapshot[OF empty_db_inv sample_stored_wf st]
  have "r = Inr ()" by (rule sv(4)) (simp add: quiet_db_def)
  moreover have "view_Snapshot sample_stored = sample_stored"
    by (simp add: view_Snapshot_def sample_stored_def zero_Snapshot_def)
  ultimately show "sq_inv sample_store" "sq_snapshot_of sample_store ''k'' = Some sample_stored"
    using sv(1,3) st by (auto simp: sample_store_def)
qed

theorem instance_lookup_witness:
  "fst (api_Instance (sqlite_storage quiet_db) ''k'' ''s'' ''j'' sample_store) = Inl ErrInstanceNotFound \<and>
   (\<exists>rs \<in> set (sn_ReplicaSets sample_stored). set_UUID rs = ''s'' \<and> ''j'' \<notin> inst_UUID ` set (set_Instances rs))"
proof -
  obtain r s' where g: "GetClusterSnapshot quiet_db ''k'' sample_store = (r, s')" by fastforce
  have "r = Inr sample_stored"
    using sqlite_reads_snapshot(4)[OF sample_store_props(1) g] sample_store_props(2) by (simp add: quiet_db_def)
  with g have "fst (api_Instance (sqlite_storage quiet_db) ''k'' ''s'' ''j'' sample_store) = Inl ErrInstanceNotFound"
    by (simp add: api_Instance_def api_ReplicaSet_def sqlite_storage_def sample_stored_def sample_alerting_def
        Snapshot_ReplicaSet_def zero_Instance_def)
  with instance_lookup[OF sample_store_props(1), where env = quiet_db and name = "''k''" and u = "''s''" and v = "''j''"] sample_store_props(2)
  show ?thesis by simp
qed

theorem cluster_alerts_exact_witness:
  "\<exists>resp. fst (api_ClusterAlerts (sqlite_storage quiet_db) ''k'' sample_store) = Inr resp \<and>
     set (ar_InstancesAlerts resp) = {\<lparr>ia_ClusterName = ''k'', ia_ShardUUID = ''s'', ia_InstanceURI = '''',
       ia_Alerts = [\<lparr>alert_Type = ''UNREACHABLE_MASTER'', alert_Description = ''''\<rparr>]\<rparr>}"
proof -
  obtain r s' where g: "GetClusterSnapshot quiet_db ''k'' sample_store = (r, s')" by fastforce
  have "r = Inr sample_stored"
    using sqlite_reads_snapshot(4)[OF sample_store_props(1) g] sample_store_props(2) by (simp add: quiet_db_def)
  with g obtain resp where "fst (api_ClusterAlerts (sqlite_storage quiet_db) ''k'' sample_store) = Inr resp"
    by (simp add: api_ClusterAlerts_def api_ClusterSnapshot_def sqlite_storage_def)
  note resp = this
  from cluster_alerts_exact[OF sample_store_props(1) resp] obtain sn where
    sn: "sq_snapshot_of sample_store ''k'' = Some sn"
    and a: "set (ar_InstancesAlerts resp) = (\<Union>rs \<in> set (sn_ReplicaSets sn).
       (\<lambda>i. \<lparr>ia_ClusterName = ''k'', ia_ShardUUID = set_UUID rs, ia_InstanceURI = inst_URI i,
             ia_Alerts = si_Alerts (inst_StorageInfo i)\<rparr>) ` {i \<in> set (set_Instances rs). si_Alerts (inst_StorageInfo i) \<noteq> []})"
    by blast
  from sn have "sn = sample_stored" using sample_store_props(2) by simp
  then have sets: "set (sn_ReplicaSets sn) = {zero_ReplicaSet\<lparr>set_UUID := ''s'', set_Instances := [sample_alerting]\<rparr>}"
    by (simp add: sample_stored_def)
  have "{i \<in> set [sample_alerting]. si_Alerts (inst_StorageInfo i) \<noteq> []} = {sample_alerting}"
    by (auto simp: sample_alerting_def)
  then have "set (ar_InstancesAlerts resp) = {\<lparr>ia_ClusterName = ''k'', ia_ShardUUID = ''s'', ia_InstanceURI = '''',
       ia_Alerts = [\<lparr>alert_Type = ''UNREACHABLE_MASTER'', alert_Description = ''''\<rparr>]\<rparr>}"
    unfolding a sets by (simp add: sample_alerting_def zero_Instance_def)
  with resp show ?thesis by blast
qed

end
