(* ===== verification/Qumomf_Http.thy ===== *)
theory Qumomf_Http
  imports Qumomf_Api
begin

text \<open>
  internal/qumhttp: the HTTP handlers over the read service.

  A handler is a function of the service, the path variables of the request (gorilla/mux hands
  them over as a map) and the state behind the service; it yields the response it writes.  The body of a
  response is a document or a message.  A failing write to the client is only logged and left out.  A
  slice that is nil would be written as null; the model has no nil slices and writes it as empty.
\<close>

datatype body = Doc json | Message string | NoBody

datatype response_error = ServiceError api_error | MarshalError json_error

record http_response =
  rs_statusCode :: nat
  rs_data :: body
  rs_err :: "response_error option"

definition StatusOK :: nat where [simp]: "StatusOK = 200"
definition StatusBadRequest :: nat where [simp]: "StatusBadRequest = 400"
definition StatusInternalServerError :: nat where [simp]: "StatusInternalServerError = 500"

definition newOKResponse :: "json \<Rightarrow> http_response" where
  "newOKResponse d = \<lparr>rs_statusCode = StatusOK, rs_data = Doc d, rs_err = None\<rparr>"

definition newBadRequestResponse :: "string \<Rightarrow> http_response" where
  "newBadRequestResponse msg = \<lparr>rs_statusCode = StatusBadRequest, rs_data = Message msg, rs_err = None\<rparr>"

definition newInternalErrResponse :: "string \<Rightarrow> response_error \<Rightarrow> http_response" where
  "newInternalErrResponse msg err =
     \<lparr>rs_statusCode = StatusInternalServerError, rs_data = Message msg, rs_err = Some err\<rparr>"

section \<open>Parameters and errors\<close>

definition paramClusterName :: string where "paramClusterName = ''cluster_name''"
definition paramShardUUID :: string where "paramShardUUID = ''shard_uuid''"
definition paramInstanceUUID :: string where "paramInstanceUUID = ''instance_uuid''"

definition msgMarshallingError :: string where "msgMarshallingError = ''failed to marshal data''"
definition msgInvalidParams :: string where "msgInvalidParams = ''one or more parameters are invalid''"

record params =
  pm_clusterName :: string
  pm_shardUUID :: ReplicaSetUUID
  pm_instanceUUID :: InstanceUUID

text \<open>Go reads the zero value for a missing key.\<close>

definition var :: "(string \<rightharpoonup> string) \<Rightarrow> string \<Rightarrow> string" where
  "var vars k = (case vars k of Some v \<Rightarrow> v | None \<Rightarrow> '''')"

definition parseParams :: "(string \<rightharpoonup> string) \<Rightarrow> params" where
  "parseParams vars = \<lparr>pm_clusterName = var vars paramClusterName, pm_shardUUID = var vars paramShardUUID,
     pm_instanceUUID = var vars paramInstanceUUID\<rparr>"

definition isNotFoundTypeErr :: "api_error \<Rightarrow> bool" where
  "isNotFoundTypeErr err \<longleftrightarrow> err = ErrClusterNotFound \<or> err = ErrApiReplicaSetNotFound \<or> err = ErrInstanceNotFound"

fun parseNotFoundTypeErr :: "api_error \<Rightarrow> string" where
  "parseNotFoundTypeErr ErrClusterNotFound = ''cluster snapshot not found''"
| "parseNotFoundTypeErr ErrApiReplicaSetNotFound = ''shard snapshot not found''"
| "parseNotFoundTypeErr ErrInstanceNotFound = ''instance snapshot not found''"
| "parseNotFoundTypeErr _ = ''cluster not found''"

section \<open>The documents of the service\<close>

definition enc_HealthLevel :: "HealthLevel encoder" where "enc_HealthLevel l = enc_str (HealthLevel_string l)"

definition enc_ClusterInfo :: "ClusterInfo encoder" where
  "enc_ClusterInfo c = enc_obj
     [(''name'', enc_str (ci_Name c)), (''shards_count'', enc_count (ci_ShardsCount c)),
      (''routers_count'', enc_count (ci_RoutersCount c)), (''discovered_at'', enc_int (ci_DiscoveredAt c)),
      (''health_level'', enc_HealthLevel (ci_HealthLevel c))]"

definition enc_InstanceAlerts :: "InstanceAlerts encoder" where
  "enc_InstanceAlerts a = enc_obj
     [(''cluster_name'', enc_str (ia_ClusterName a)), (''shard_uuid'', enc_str (ia_ShardUUID a)),
      (''instance_uri'', enc_str (ia_InstanceURI a)), (''alerts'', enc_list enc_Alert (ia_Alerts a))]"

definition enc_RoutersAlerts :: "RoutersAlerts encoder" where
  "enc_RoutersAlerts a = enc_obj [(''uri'', enc_str (ra_URI a)), (''alerts'', enc_list enc_Alert (ra_Alerts a))]"

definition enc_AlertsResponse :: "AlertsResponse encoder" where
  "enc_AlertsResponse a = enc_obj
     [(''instances_alerts'', enc_list enc_InstanceAlerts (ar_InstancesAlerts a)),
      (''routers_alerts'', enc_list enc_RoutersAlerts (ar_RoutersAlerts a))]"

section \<open>The handlers\<close>

text \<open>The end every handler has: the value is marshalled and written.\<close>

definition respond :: "'a encoder \<Rightarrow> 'a \<Rightarrow> http_response" where
  "respond enc x = (case enc x of
     Inl err \<Rightarrow> newInternalErrResponse msgMarshallingError (MarshalError err)
   | Inr d \<Rightarrow> newOKResponse d)"

definition http_ClusterList :: "'s Service \<Rightarrow> (string \<rightharpoonup> string) \<Rightarrow> 's \<Rightarrow> http_response \<times> 's" where
  "http_ClusterList srv vars s =
     (case sv_ClustersList srv s of
        (Inl err, s) \<Rightarrow> (newInternalErrResponse ''failed to get cluster list'' (ServiceError err), s)
      | (Inr resp, s) \<Rightarrow> (respond (enc_list enc_ClusterInfo) resp, s))"

definition http_ClusterSnapshot :: "'s Service \<Rightarrow> (string \<rightharpoonup> string) \<Rightarrow> 's \<Rightarrow> http_response \<times> 's" where
  "http_ClusterSnapshot srv vars s =
     (let reqParams = parseParams vars
      in if pm_clusterName reqParams = '''' then (newBadRequestResponse msgInvalidParams, s)
         else case sv_ClusterSnapshot srv (pm_clusterName reqParams) s of
           (Inl err, s) \<Rightarrow>
             (if isNotFoundTypeErr err then newBadRequestResponse (parseNotFoundTypeErr err)
              else newInternalErrResponse ''failed get cluster snapshot'' (ServiceError err), s)
         | (Inr snap, s) \<Rightarrow> (respond enc_Snapshot snap, s))"

definition http_ShardSnapshot :: "'s Service \<Rightarrow> (string \<rightharpoonup> string) \<Rightarrow> 's \<Rightarrow> http_response \<times> 's" where
  "http_ShardSnapshot srv vars s =
     (let reqParams = parseParams vars
      in if pm_clusterName reqParams = '''' \<or> pm_shardUUID reqParams = '''' then (newBadRequestResponse msgInvalidParams, s)
         else case sv_ReplicaSet srv (pm_clusterName reqParams) (pm_shardUUID reqParams) s of
           (Inl err, s) \<Rightarrow>
             (if isNotFoundTypeErr err then newBadRequestResponse (parseNotFoundTypeErr err)
              else newInternalErrResponse ''failed get shard snapshot'' (ServiceError err), s)
         | (Inr shard, s) \<Rightarrow> (respond enc_ReplicaSet shard, s))"

definition http_InstanceSnapshot :: "'s Service \<Rightarrow> (string \<rightharpoonup> string) \<Rightarrow> 's \<Rightarrow> http_response \<times> 's" where
  "http_InstanceSnapshot srv vars s =
     (let reqParams = parseParams vars
      in if pm_clusterName reqParams = '''' \<or> pm_shardUUID reqParams = '''' \<or> pm_instanceUUID reqParams = ''''
         then (newBadRequestResponse msgInvalidParams, s)
         else case sv_Instance srv (pm_clusterName reqParams) (pm_shardUUID reqParams) (pm_instanceUUID reqParams) s of
           (Inl err, s) \<Rightarrow>
             (if isNotFoundTypeErr err then newBadRequestResponse (parseNotFoundTypeErr err)
              else newInternalErrResponse ''failed get instance snapshot'' (ServiceError err), s)
         | (Inr inst, s) \<Rightarrow> (respond enc_Instance inst, s))"

definition http_ShardRecoveries :: "'s Service \<Rightarrow> (string \<rightharpoonup> string) \<Rightarrow> 's \<Rightarrow> http_response \<times> 's" where
  "http_ShardRecoveries srv vars s =
     (let reqParams = parseParams vars
      in if pm_clusterName reqParams = '''' \<or> pm_shardUUID reqParams = '''' then (newBadRequestResponse msgInvalidParams, s)
         else case sv_Recoveries srv (pm_clusterName reqParams) (pm_shardUUID reqParams) s of
           (Inl err, s) \<Rightarrow> (newInternalErrResponse ''failed get shard recovery'' (ServiceError err), s)
         | (Inr recoveries, s) \<Rightarrow> (respond (enc_list enc_Recovery) recoveries, s))"

definition http_Alerts :: "'s Service \<Rightarrow> (string \<rightharpoonup> string) \<Rightarrow> 's \<Rightarrow> http_response \<times> 's" where
  "http_Alerts srv vars s =
     (case sv_Alerts srv s of
        (Inl err, s) \<Rightarrow> (newInternalErrResponse ''failed get alerts list'' (ServiceError err), s)
      | (Inr alerts, s) \<Rightarrow> (respond enc_AlertsResponse alerts, s))"

definition http_ClusterAlerts :: "'s Service \<Rightarrow> (string \<rightharpoonup> string) \<Rightarrow> 's \<Rightarrow> http_response \<times> 's" where
  "http_ClusterAlerts srv vars s =
     (let reqParams = parseParams vars
      in if pm_clusterName reqParams = '''' then (newBadRequestResponse msgInvalidParams, s)
         else case sv_ClusterAlerts srv (pm_clusterName reqParams) s of
           (Inl err, s) \<Rightarrow>
             (if isNotFoundTypeErr err then newBadRequestResponse (parseNotFoundTypeErr err)
              else newInternalErrResponse ''failed get cluster alerts'' (ServiceError err), s)
         | (Inr alerts, s) \<Rightarrow> (respond enc_AlertsResponse alerts, s))"

text \<open>What reaches the client, and what is logged.\<close>

record reply =
  rp_headers :: "(string \<times> string) list"
  rp_status :: nat
  rp_body :: body

definition writeResponse :: "http_response \<Rightarrow> reply \<times> response_error option" where
  "writeResponse resp =
     (\<lparr>rp_headers = [(''Content-Type'', ''application/json; charset=utf-8'')], rp_status = rs_statusCode resp,
       rp_body = rs_data resp\<rparr>, rs_err resp)"

definition HealthHandler :: reply where
  "HealthHandler = \<lparr>rp_headers = [(''Content-Type'', ''application/json; charset=utf-8'')], rp_status = StatusOK,
     rp_body = NoBody\<rparr>"

definition AboutHandler :: "string \<Rightarrow> string \<Rightarrow> string \<Rightarrow> reply" where
  "AboutHandler version commit_id buildDate =
     \<lparr>rp_headers = [(''Content-Type'', ''application/json; charset=utf-8'')], rp_status = StatusOK,
      rp_body = (case enc_obj [(''version'', enc_str version), (''commit'', enc_str commit_id), (''build'', enc_str buildDate)] of
        Inl _ \<Rightarrow> NoBody | Inr d \<Rightarrow> Doc d)\<rparr>"

section \<open>The routes\<close>

text \<open>\<open>RegisterAPIHandlers\<close> and \<open>RegisterDebugHandlers\<close>: path, method, handler.  The page of metrics is
  the Prometheus library's.\<close>

definition MethodGet :: string where "MethodGet = ''GET''"

definition RegisterAPIHandlers ::
  "'s Service \<Rightarrow> (string \<times> string \<times> ((string \<rightharpoonup> string) \<Rightarrow> 's \<Rightarrow> http_response \<times> 's)) list" where
  "RegisterAPIHandlers srv =
     [(''/api/v0/snapshots'', MethodGet, http_ClusterList srv),
      (''/api/v0/snapshots/{cluster_name}'', MethodGet, http_ClusterSnapshot srv),
      (''/api/v0/snapshots/{cluster_name}/{shard_uuid}'', MethodGet, http_ShardSnapshot srv),
      (''/api/v0/snapshots/{cluster_name}/{shard_uuid}/{instance_uuid}'', MethodGet, http_InstanceSnapshot srv),
      (''/api/v0/recoveries/{cluster_name}/{shard_uuid}'', MethodGet, http_ShardRecoveries srv),
      (''/api/v0/alerts'', MethodGet, http_Alerts srv),
      (''/api/v0/alerts/{cluster_name}'', MethodGet, http_ClusterAlerts srv)]"

definition RegisterDebugHandlers :: "reply \<Rightarrow> string \<Rightarrow> string \<Rightarrow> string \<Rightarrow> (string \<times> string \<times> reply) list" where
  "RegisterDebugHandlers metrics version commit_id buildDate =
     [(''/debug/metrics'', MethodGet, metrics),
      (''/debug/health'', MethodGet, HealthHandler),
      (''/debug/about'', MethodGet, AboutHandler version commit_id buildDate)]"

section \<open>What a client gets\<close>

text \<open>A response is a document, a refusal of the request, or an internal error that is logged.\<close>

definition well_formed_response :: "http_response \<Rightarrow> bool" where
  "well_formed_response r \<longleftrightarrow>
     (case rs_data r of
        Doc _ \<Rightarrow> rs_statusCode r = StatusOK \<and> rs_err r = None
      | Message m \<Rightarrow> m \<noteq> '''' \<and> (rs_statusCode r = StatusBadRequest \<and> rs_err r = None \<or>
          rs_statusCode r = StatusInternalServerError \<and> rs_err r \<noteq> None)
      | NoBody \<Rightarrow> False)"

lemma well_formed_responses [simp]:
  "well_formed_response (newOKResponse d)"
  "well_formed_response (newBadRequestResponse m) \<longleftrightarrow> m \<noteq> ''''"
  "well_formed_response (newInternalErrResponse m e) \<longleftrightarrow> m \<noteq> ''''"
  "well_formed_response (respond enc x)"
  by (auto simp: well_formed_response_def newOKResponse_def newBadRequestResponse_def newInternalErrResponse_def
      respond_def msgMarshallingError_def split: sum.splits)

lemma parseNotFoundTypeErr_text: "parseNotFoundTypeErr e \<noteq> ''''"
  by (cases e) simp_all

lemmas http_handlers [go_defs] = http_ClusterList_def http_ClusterSnapshot_def http_ShardSnapshot_def http_InstanceSnapshot_def
  http_ShardRecoveries_def http_Alerts_def http_ClusterAlerts_def

lemma msgInvalidParams_text: "msgInvalidParams \<noteq> ''''" by (simp add: msgInvalidParams_def)

text \<open>The three shapes the handlers have.\<close>

lemma well_formed_answer:
  assumes "m \<noteq> ''''"
  shows "well_formed_response (fst (case p of
      (Inl err, s) \<Rightarrow> (newInternalErrResponse m (ServiceError err), s) | (Inr x, s) \<Rightarrow> (respond enc x, s)))"
  using assms by (auto split: prod.splits sum.splits)

lemma well_formed_lookup:
  assumes "m \<noteq> ''''"
  shows "well_formed_response (fst (case p of
      (Inl err, s) \<Rightarrow> (if isNotFoundTypeErr err then newBadRequestResponse (parseNotFoundTypeErr err)
         else newInternalErrResponse m (ServiceError err), s) | (Inr x, s) \<Rightarrow> (respond enc x, s)))"
  using assms by (auto simp: parseNotFoundTypeErr_text split: prod.splits sum.splits)

lemma well_formed_checked: "well_formed_response (fst q) \<Longrightarrow>
    well_formed_response (fst (if bad then (newBadRequestResponse msgInvalidParams, s) else q))"
  by (simp add: msgInvalidParams_text)

lemma http_well_formed:
  "well_formed_response (fst (http_ClusterList srv vars s))" "well_formed_response (fst (http_ClusterSnapshot srv vars s))"
  "well_formed_response (fst (http_ShardSnapshot srv vars s))" "well_formed_response (fst (http_InstanceSnapshot srv vars s))"
  "well_formed_response (fst (http_ShardRecoveries srv vars s))" "well_formed_response (fst (http_Alerts srv vars s))"
  "well_formed_response (fst (http_ClusterAlerts srv vars s))"
  unfolding go_defs Let_def
  by (intro well_formed_checked well_formed_answer well_formed_lookup; simp)+

text \<open>Every route of the interface answers every request with a document and status 200, with a message
  and status 400 and nothing logged, or with a message and status 500 and the error logged.\<close>

theorem http_responses:
  "\<forall>(path, m, h) \<in> set (RegisterAPIHandlers srv). m = ''GET'' \<and> well_formed_response (fst (h vars s))"
  by (simp add: RegisterAPIHandlers_def MethodGet_def http_well_formed)

lemma NewService_simps [simp]:
  "sv_ClusterSnapshot (NewService db) = api_ClusterSnapshot db" "sv_Instance (NewService db) = api_Instance db"
  "sv_ReplicaSet (NewService db) = api_ReplicaSet db" "sv_Recoveries (NewService db) = Recoveries db"
  by (simp_all add: NewService_def)

text \<open>What the handlers rely on: a value of the service is the stored one.\<close>

locale service_contract =
  fixes srv :: "'s Service" and inv :: "'s \<Rightarrow> bool" and snapshot_of :: "'s \<Rightarrow> string \<rightharpoonup> Snapshot"
  assumes service_snapshot: "inv s \<Longrightarrow> sv_ClusterSnapshot srv name s = (Inr sn, s') \<Longrightarrow> snapshot_of s name = Some sn"
    and service_set: "inv s \<Longrightarrow> sv_ReplicaSet srv name u s = (Inr rs, s') \<Longrightarrow>
      \<exists>sn. snapshot_of s name = Some sn \<and> rs \<in> set (sn_ReplicaSets sn) \<and> set_UUID rs = u"
    and service_instance: "inv s \<Longrightarrow> sv_Instance srv name u v s = (Inr i, s') \<Longrightarrow>
      \<exists>sn. snapshot_of s name = Some sn \<and>
        (\<exists>rs \<in> set (sn_ReplicaSets sn). set_UUID rs = u \<and> i \<in> set (set_Instances rs) \<and> inst_UUID i = v)"
begin

lemma no_document [simp]:
  "rs_data (newBadRequestResponse m) \<noteq> Doc j" "rs_data (newInternalErrResponse m e) \<noteq> Doc j"
  by (simp_all add: newBadRequestResponse_def newInternalErrResponse_def)

lemma respond_document: "rs_data (respond enc x) = Doc j \<Longrightarrow> enc x = Inr j"
  by (simp add: respond_def newOKResponse_def split: sum.splits)

lemma snapshot_document:
  assumes "inv s" and "rs_data (fst (http_ClusterSnapshot srv vars s)) = Doc j"
  shows "\<exists>sn. snapshot_of s (var vars paramClusterName) = Some sn \<and> enc_Snapshot sn = Inr j"
proof -
  obtain r s' where g: "sv_ClusterSnapshot srv (pm_clusterName (parseParams vars)) s = (r, s')" by fastforce
  with assms(2) obtain sn where r: "r = Inr sn" "enc_Snapshot sn = Inr j"
    by (auto simp: http_ClusterSnapshot_def Let_def dest: respond_document split: sum.splits if_splits)
  from service_snapshot[OF assms(1) g[unfolded r(1)]] r(2) show ?thesis by (simp add: parseParams_def)
qed

lemma set_document:
  assumes "inv s" and "rs_data (fst (http_ShardSnapshot srv vars s)) = Doc j"
  shows "\<exists>sn rs. snapshot_of s (var vars paramClusterName) = Some sn \<and> rs \<in> set (sn_ReplicaSets sn) \<and>
    set_UUID rs = var vars paramShardUUID \<and> enc_ReplicaSet rs = Inr j"
proof -
  obtain r s' where g: "sv_ReplicaSet srv (pm_clusterName (parseParams vars)) (pm_shardUUID (parseParams vars)) s = (r, s')" by fastforce
  with assms(2) obtain rs where r: "r = Inr rs" "enc_ReplicaSet rs = Inr j"
    by (auto simp: http_ShardSnapshot_def Let_def dest: respond_document split: sum.splits if_splits)
  from service_set[OF assms(1) g[unfolded r(1)]] r(2) show ?thesis by (auto simp: parseParams_def)
qed

lemma instance_document:
  assumes "inv s" and "rs_data (fst (http_InstanceSnapshot srv vars s)) = Doc j"
  shows "\<exists>sn i. snapshot_of s (var vars paramClusterName) = Some sn \<and> enc_Instance i = Inr j \<and>
    inst_UUID i = var vars paramInstanceUUID \<and>
    (\<exists>rs \<in> set (sn_ReplicaSets sn). set_UUID rs = var vars paramShardUUID \<and> i \<in> set (set_Instances rs))"
proof -
  obtain r s' where g: "sv_Instance srv (pm_clusterName (parseParams vars)) (pm_shardUUID (parseParams vars))
      (pm_instanceUUID (parseParams vars)) s = (r, s')" by fastforce
  with assms(2) obtain i where r: "r = Inr i" "enc_Instance i = Inr j"
    by (auto simp: http_InstanceSnapshot_def Let_def dest: respond_document split: sum.splits if_splits)
  from service_instance[OF assms(1) g[unfolded r(1)]] r(2) show ?thesis by (auto simp: parseParams_def)
qed

end

sublocale storage_contract \<subseteq> served: service_contract "NewService db" inv snapshot_of
proof
  fix s name sn s' assume "inv s" "sv_ClusterSnapshot (NewService db) name s = (Inr sn, s')"
  then show "snapshot_of s name = Some sn" using ClusterSnapshot_result(3)[of s name "Inr sn" s' sn] by simp
next
  fix s name u rs s' assume "inv s" "sv_ReplicaSet (NewService db) name u s = (Inr rs, s')"
  then show "\<exists>sn. snapshot_of s name = Some sn \<and> rs \<in> set (sn_ReplicaSets sn) \<and> set_UUID rs = u"
    using ReplicaSet_result(4)[of s name u "Inr rs" s' rs] by simp
next
  fix s name u v i s' assume "inv s" "sv_Instance (NewService db) name u v s = (Inr i, s')"
  then show "\<exists>sn. snapshot_of s name = Some sn \<and>
      (\<exists>rs \<in> set (sn_ReplicaSets sn). set_UUID rs = u \<and> i \<in> set (set_Instances rs) \<and> inst_UUID i = v)"
    using Instance_result(5)[of s name u v "Inr i" s' i] by simp
qed

lemma instance_refusals:
  assumes "sq_inv s" and "db_fault env (sq_io s) = None"
    and "vars = [paramClusterName \<mapsto> name, paramShardUUID \<mapsto> u, paramInstanceUUID \<mapsto> v]"
    and "fst (http_InstanceSnapshot (NewService (sqlite_storage env)) vars s) = resp"
  shows "(rs_statusCode resp = 400 \<longleftrightarrow> name = '''' \<or> u = '''' \<or> v = '''' \<or>
      fst (api_Instance (sqlite_storage env) name u v s) \<in> {Inl ErrClusterNotFound, Inl ErrApiReplicaSetNotFound, Inl ErrInstanceNotFound}) \<and>
    (rs_statusCode resp = 500 \<longrightarrow> (\<exists>e. rs_err resp = Some (MarshalError e)))"
proof -
  obtain r s' where g: "api_Instance (sqlite_storage env) name u v s = (r, s')" by fastforce
  have p: "parseParams vars = \<lparr>pm_clusterName = name, pm_shardUUID = u, pm_instanceUUID = v\<rparr>"
    by (simp add: assms(3) parseParams_def var_def paramClusterName_def paramShardUUID_def paramInstanceUUID_def)
  show ?thesis
  proof (cases "name = '''' \<or> u = '''' \<or> v = ''''")
    case True
    then have "resp = newBadRequestResponse msgInvalidParams"
      using assms(4) by (auto simp: http_InstanceSnapshot_def p Let_def)
    then have "rs_statusCode resp = 400" by (simp add: newBadRequestResponse_def)
    with True show ?thesis by (elim disjE) simp_all
  next
    case False
    then have resp: "resp = (case r of
        Inl err \<Rightarrow> if isNotFoundTypeErr err then newBadRequestResponse (parseNotFoundTypeErr err)
          else newInternalErrResponse ''failed get instance snapshot'' (ServiceError err)
      | Inr inst \<Rightarrow> respond enc_Instance inst)"
      using assms(4) g by (auto simp: http_InstanceSnapshot_def p Let_def split: sum.splits)
    show ?thesis
    proof (cases r)
      case (Inl e)
      with api_no_fault(3)[OF assms(1,2), of name u v] g have e: "e \<in> {ErrClusterNotFound, ErrApiReplicaSetNotFound, ErrInstanceNotFound}"
        by (cases e) auto
      then have "resp = newBadRequestResponse (parseNotFoundTypeErr e)"
        using resp Inl by (auto simp: isNotFoundTypeErr_def)
      with e g Inl show ?thesis by (auto simp: newBadRequestResponse_def)
    next
      case (Inr i)
      then have "resp = respond enc_Instance i" using resp by simp
      with g Inr False show ?thesis
        by (auto simp: respond_def newOKResponse_def newInternalErrResponse_def split: sum.splits)
    qed
  qed
qed

text \<open>The answers to a request for an instance, over SQLite: without a fault of the driver it is never
  500 but for a document that cannot be marshalled, it is 400 exactly when a path variable is
  missing or empty, or the cluster, the replica set or the instance is not stored, and a document is that
  of the stored instance with this id in this replica set of this cluster.\<close>

theorem instance_status:
  assumes "sq_inv s" and "db_fault env (sq_io s) = None"
    and "vars = [paramClusterName \<mapsto> name, paramShardUUID \<mapsto> u, paramInstanceUUID \<mapsto> v]"
    and "fst (http_InstanceSnapshot (NewService (sqlite_storage env)) vars s) = resp"
  shows "(rs_statusCode resp = 400 \<longleftrightarrow> name = '''' \<or> u = '''' \<or> v = '''' \<or>
      fst (api_Instance (sqlite_storage env) name u v s) \<in> {Inl ErrClusterNotFound, Inl ErrApiReplicaSetNotFound, Inl ErrInstanceNotFound}) \<and>
    (rs_statusCode resp = 500 \<longrightarrow> (\<exists>e. rs_err resp = Some (MarshalError e))) \<and>
    (\<forall>j. rs_data resp = Doc j \<longrightarrow> (\<exists>sn i. sq_snapshot_of s name = Some sn \<and> enc_Instance i = Inr j \<and> inst_UUID i = v \<and>
       (\<exists>rs \<in> set (sn_ReplicaSets sn). set_UUID rs = u \<and> i \<in> set (set_Instances rs))))"
  using instance_refusals[OF assms]
    sq.served.instance_document[OF assms(1), of env vars, unfolded assms(4)] assms(3)
  by (auto simp: var_def paramClusterName_def paramShardUUID_def paramInstanceUUID_def)

theorem instance_status_witness:
  "rs_statusCode (fst (http_InstanceSnapshot (NewService (sqlite_storage quiet_db))
     [paramClusterName \<mapsto> ''k'', paramShardUUID \<mapsto> ''s'', paramInstanceUUID \<mapsto> ''j''] sample_store)) = 400"
proof -
  obtain r s' where g: "GetClusterSnapshot quiet_db ''k'' sample_store = (r, s')" by fastforce
  have "r = Inr sample_stored"
    using sqlite_reads_snapshot(4)[OF sample_store_props(1) g] sample_store_props(2) by (simp add: quiet_db_def)
  with g have "fst (api_Instance (sqlite_storage quiet_db) ''k'' ''s'' ''j'' sample_store) = Inl ErrInstanceNotFound"
    by (simp add: api_Instance_def api_ReplicaSet_def sqlite_storage_def sample_stored_def sample_alerting_def
        Snapshot_ReplicaSet_def zero_Instance_def)
  with instance_status[OF sample_store_props(1) _ refl refl, where env = quiet_db and name = "''k''" and u = "''s''" and v = "''j''"]
  show ?thesis by (simp add: quiet_db_def)
qed

section \<open>What was stored is what is served\<close>

lemma view_RouterInfo_idem [simp]: "view_RouterInfo (view_RouterInfo i) = view_RouterInfo i"
  by (simp add: view_RouterInfo_def sort_key_id_if_sorted)

lemma view_Router_idem [simp]: "view_Router (view_Router r) = view_Router r"
  by (simp add: view_Router_def)

lemma view_Snapshot_idem: "view_Snapshot (view_Snapshot sn) = view_Snapshot sn"
  by (simp add: view_Snapshot_def)

lemma wf_view_RouterInfo: "wf_RouterInfo i \<Longrightarrow> wf_RouterInfo (view_RouterInfo i)"
  unfolding wf_RouterInfo_def view_RouterInfo_def
  by (simp add: list_all_iff) (metis distinct_map distinct_sort inj_on_def set_sort)

lemma wf_view_Snapshot: "wf_Snapshot sn \<Longrightarrow> wf_Snapshot (view_Snapshot sn)"
  by (simp add: wf_Snapshot_def view_Snapshot_def view_Router_def list_all_iff wf_view_RouterInfo)

text \<open>C8: the way of a snapshot through the program: once it is stored, a request for its cluster is
  answered with a document that reads back as the snapshot, without the priorities and with the replica
  sets each router knows in the order of their ids.\<close>

theorem stored_snapshot_served:
  assumes "\<And>n. db_fault env n = None" and "sq_inv s" and "wf_Snapshot sn"
    and "vars paramClusterName = Some name" and "name \<noteq> ''''"
  shows "\<exists>j. fst (http_ClusterSnapshot (NewService (sqlite_storage env)) vars (snd (SaveSnapshot env name sn s)))
      = newOKResponse j \<and> dec_Snapshot j = Inr (view_Snapshot sn)"
proof -
  obtain r s1 where st: "SaveSnapshot env name sn s = (r, s1)" by fastforce
  note sv = sqlite_saves_snapshot[OF assms(2,3) st]
  from sv(3) sv(4)[OF assms(1)] have stored: "sq_snapshot_of s1 name = Some (view_Snapshot sn)" by auto
  obtain r2 s2 where g: "GetClusterSnapshot env name s1 = (r2, s2)" by fastforce
  have "r2 = Inr (view_Snapshot sn)" using sqlite_reads_snapshot(4)[OF sv(1) g assms(1)] stored by simp
  moreover obtain j where "enc_Snapshot (view_Snapshot sn) = Inr j" "dec_Snapshot j = Inr (view_Snapshot (view_Snapshot sn))"
    by (rule Snapshot_json.encodeE[OF wf_view_Snapshot[OF assms(3)]])
  moreover have "pm_clusterName (parseParams vars) = name" using assms(4) by (simp add: parseParams_def var_def)
  ultimately show ?thesis using assms(5) st g
    by (intro exI[of _ j]) (simp add: http_ClusterSnapshot_def Let_def api_ClusterSnapshot_def sqlite_storage_def
        respond_def view_Snapshot_idem)
qed

theorem stored_snapshot_served_witness:
  "\<exists>j. fst (http_ClusterSnapshot (NewService (sqlite_storage quiet_db)) [paramClusterName \<mapsto> ''k''] sample_store)
      = newOKResponse j \<and> dec_Snapshot j = Inr (view_Snapshot sample_stored)"
  unfolding sample_store_def
  by (rule stored_snapshot_served) (simp_all add: quiet_db_def sample_stored_wf)

end
