(* ===== verification/Recovery_Archive.thy ===== *)
theory Recovery_Archive
  imports Failover_Run Qumomf_Http
begin

text \<open>
  The way of a recovery through the program: the failover registers it and calls back, the coordinator
  stores it, the read service returns it.
\<close>

definition registered :: "event list \<Rightarrow> Recovery list" where
  "registered es = concat (map (\<lambda>e. case e of EvRegistered r \<Rightarrow> [r] | _ \<Rightarrow> []) es)"

definition called_back :: "event list \<Rightarrow> Recovery list" where
  "called_back es = concat (map (\<lambda>e. case e of EvRecoveredCB r \<Rightarrow> [r] | _ \<Rightarrow> []) es)"

lemma registered_simps [simp]:
  "registered [] = []" "registered (e # es) = (case e of EvRegistered r \<Rightarrow> [r] | _ \<Rightarrow> []) @ registered es"
  "registered (es @ fs) = registered es @ registered fs"
  "called_back [] = []" "called_back (e # es) = (case e of EvRecoveredCB r \<Rightarrow> [r] | _ \<Rightarrow> []) @ called_back es"
  "called_back (es @ fs) = called_back es @ called_back fs"
  by (simp_all add: registered_def called_back_def)

lemma quiet_events: "\<forall>e \<in> set es. (\<exists>t c. e = EvHook t c \<or> e = EvHookAsync t c) \<or> (\<exists>u l ok. e = EvExec u l ok) \<Longrightarrow>
    registered es = [] \<and> called_back es = []"
  by (induction es) auto

lemma post_events_reported: "fo_recoveredCB f \<Longrightarrow>
    registered (post_events f r) = [r] \<and> called_back (post_events f r) = [r]"
proof -
  assume cb: "fo_recoveredCB f"
  have "registered (map (hook_event t r) ps) = [] \<and> called_back (map (hook_event t r) ps) = []" for t ps
    by (rule quiet_events) (auto simp: hook_event_def Let_def case_prod_beta)
  with cb show ?thesis by (simp add: post_events_def)
qed

lemma reported_concat: "fo_recoveredCB f \<Longrightarrow> registered (concat (map (post_events f) recs)) = recs \<and>
    called_back (concat (map (post_events f) recs)) = recs"
  by (induction recs) (simp_all add: post_events_reported)

lemma checkAndRecover_reports:
  assumes "checkAndRecover srt sha env a f w = Some (f', w')" and "fo_recoveredCB f"
  shows "fo_recoveredCB f' \<and> (\<exists>es. w_trace w' = w_trace w @ es \<and> registered es = called_back es)"
  using assms(1)
proof (cases rule: checkAndRecover_cases)
  case no_action
  with assms(2) show ?thesis by simp
next
  case (recovered rf w0 recs w1)
  from run_recovery_events[OF recovered(5)] obtain es where
    "w_trace w1 = w_trace w0 @ es" "registered es = [] \<and> called_back es = []"
    using quiet_events by metis
  with recovered assms(2) reported_concat[OF assms(2)] show ?thesis by auto
qed

lemma serve_reports:
  "serve srt sha env inputs f w = Some (f', w') \<Longrightarrow> fo_recoveredCB f \<Longrightarrow>
     \<exists>es. w_trace w' = w_trace w @ es \<and> registered es = called_back es"
proof (induction inputs arbitrary: f w)
  case (Cons input inputs)
  from Cons.prems(1) obtain f1 w1 where o: "serve_one srt sha env input f w = Some (f1, w1)"
    "serve srt sha env inputs f1 w1 = Some (f', w')" by (auto simp: bind_eq_Some_conv)
  from o(1) have "fo_recoveredCB f1 \<and> (\<exists>es. w_trace w1 = w_trace w @ es \<and> registered es = called_back es)"
  proof (cases rule: serve_one_cases)
    case (cleaned alive)
    with cleanup_frame[OF cleaned(2)] Cons.prems(2) show ?thesis by simp
  next
    case (skipped a)
    with Cons.prems(2) show ?thesis by simp
  next
    case (handled a)
    from checkAndRecover_reports[OF handled(2) Cons.prems(2)] show ?thesis by simp
  qed
  then obtain es where es: "fo_recoveredCB f1" "w_trace w1 = w_trace w @ es" "registered es = called_back es" by blast
  from Cons.IH[OF o(2) es(1)] obtain fs where "w_trace w' = w_trace w1 @ fs" "registered fs = called_back fs" by blast
  with es(2,3) show ?case by (intro exI[of _ "es @ fs"]) simp
qed simp

section \<open>A complete read\<close>

lemma delivered_mset:
  assumes "{..<length rows} \<subseteq> set ps"
  shows "mset (delivered ps rows) = mset rows"
proof (rule subset_mset.antisym)
  let ?is = "remdups (filter (\<lambda>i. i < length rows) ps)"
  have "mset [0..<length rows] \<subseteq># mset ?is" using assms by (intro distinct_mset_subset) auto
  then have "image_mset ((!) rows) (mset [0..<length rows]) \<subseteq># image_mset ((!) rows) (mset ?is)"
    by (rule image_mset_subseteq_mono)
  moreover have "image_mset ((!) rows) (mset [0..<length rows]) = mset rows" by (metis map_nth mset_map)
  ultimately show "mset rows \<subseteq># mset (delivered ps rows)" by (simp only: delivered_def mset_map)
qed (rule delivered_subset)

lemma sqlite_reads_all_recoveries:
  assumes "sq_inv s" and "db_fault env (sq_io s) = None" and "db_scan env (sq_io s) = (ps, None)"
    and "{..<length (sq_recoveries_of s name)} \<subseteq> set ps" and "GetRecoveries env name s = (r, s')"
  shows "\<exists>rvs. r = Inr rvs \<and> mset rvs = mset (sq_recoveries_of s name)"
proof -
  let ?rows = "queryGetRecoveries name s"
  have "list_all (\<lambda>row. \<not> isl (recovery_row row)) ?rows"
    using assms(1) by (auto simp: sq_inv_def queryGetRecoveries_def list_all_iff)
  then have ok: "list_all (\<lambda>row. \<not> isl (recovery_row row)) (delivered ps ?rows)"
    by (rule mset_subseteq_list_all[OF delivered_subset])
  from read_rows_eq[OF ok, of None "[]"] assms(2,3,5)
  have "r = Inr (map (\<lambda>row. projr (recovery_row row)) (delivered ps ?rows))"
    by (simp add: GetRecoveries_def query_rows_def)
  moreover have "mset (delivered ps ?rows) = mset ?rows"
    using assms(4) by (intro delivered_mset) (simp add: sq_recoveries_of_def)
  ultimately show ?thesis by (simp add: sq_recoveries_of_def)
qed

lemma mset_concat_map: "mset xs = mset ys \<Longrightarrow> mset (concat (map f xs)) = mset (concat (map f ys))"
proof -
  have "mset (concat (map f zs)) = sum_mset (image_mset (\<lambda>x. mset (f x)) (mset zs))" for zs
    by (induction zs) simp_all
  then show "mset xs = mset ys \<Longrightarrow> mset (concat (map f xs)) = mset (concat (map f ys))" by simp
qed

text \<open>C6: every recovery that a run of the failover registers is stored and served: whatever the order in which
  the callbacks reach the database, a complete read returns for each replica set of each cluster
  exactly the recoveries registered for it.\<close>

theorem recoveries_served:
  assumes "serve srt sha env inputs f w = Some (f', w')" and "fo_recoveredCB f"
    and "mset ns = mset (map ClusterRecovered (called_back (drop (length (w_trace w)) (w_trace w'))))"
    and "list_all wf_notice ns" and "\<And>n. db_fault db n = None"
    and "\<And>n. snd (db_scan db n) = None \<and> {..<length ns} \<subseteq> set (fst (db_scan db n))"
  shows "\<exists>rvs. fst (Recoveries (sqlite_storage db) name u (snd (notify_all (sqlite_storage db) ns empty_db))) = Inr rvs \<and>
    mset rvs = mset (filter (\<lambda>r. rv_ClusterName r = name \<and> rv_SetUUID r = u) (registered (drop (length (w_trace w)) (w_trace w'))))"
proof -
  obtain es st where n: "notify_all (sqlite_storage db) ns empty_db = (es, st)" by fastforce
  from notify_all_without_faults[OF assms(5) empty_db_inv assms(4) n]
  have inv: "sq_inv st" and ar: "sq_archive st = fold keep ns (sq_archive empty_db)" by simp_all
  have "sq_recoveries_of st name = ar_recoveries (sq_archive st) name" by (simp add: sq_archive_def)
  also have "\<dots> = [r. ClusterRecovered r \<leftarrow> ns, rv_ClusterName r = name]" by (simp add: ar keep_recoveries)
  finally have kept: "sq_recoveries_of st name = [r. ClusterRecovered r \<leftarrow> ns, rv_ClusterName r = name]" .
  let ?called = "called_back (drop (length (w_trace w)) (w_trace w'))"
  let ?pick = "\<lambda>n. case n of ClusterRecovered r \<Rightarrow> if rv_ClusterName r = name then [r] else [] | _ \<Rightarrow> []"
  have "mset (concat (map ?pick ns)) = mset (concat (map ?pick (map ClusterRecovered ?called)))"
    by (rule mset_concat_map[OF assms(3)])
  moreover have "concat (map ?pick (map ClusterRecovered rs)) = filter (\<lambda>r. rv_ClusterName r = name) rs" for rs
    by (induction rs) simp_all
  moreover have "sq_recoveries_of st name = concat (map ?pick ns)" unfolding kept
    by (intro arg_cong[of _ _ concat] map_cong) (auto split: notice.split)
  ultimately have m: "mset (sq_recoveries_of st name) = mset (filter (\<lambda>r. rv_ClusterName r = name) ?called)" by simp
  have "length (sq_recoveries_of st name) \<le> length ns"
  proof -
    have "length (sq_recoveries_of st name) = length (filter (\<lambda>r. rv_ClusterName r = name) ?called)"
      using m by (rule mset_eq_length)
    also have "\<dots> \<le> length ?called" by (rule length_filter_le)
    also have "length ?called = length ns" using mset_eq_length[OF assms(3)] by simp
    finally show ?thesis .
  qed
  with assms(6)[of "sq_io st"] have "{..<length (sq_recoveries_of st name)} \<subseteq> set (fst (db_scan db (sq_io st)))" by force
  moreover have "db_scan db (sq_io st) = (fst (db_scan db (sq_io st)), None)"
    using assms(6)[of "sq_io st"] by (metis prod.collapse)
  moreover obtain r st' where g: "GetRecoveries db name st = (r, st')" by fastforce
  ultimately obtain rvs where rvs: "r = Inr rvs" "mset rvs = mset (sq_recoveries_of st name)"
    using sqlite_reads_all_recoveries[OF inv assms(5)] by metis
  have "mset (filter (\<lambda>r. rv_SetUUID r = u) rvs) = mset (filter (\<lambda>r. rv_ClusterName r = name \<and> rv_SetUUID r = u) ?called)"
  proof -
    have "mset (filter (\<lambda>r. rv_SetUUID r = u) rvs) = filter_mset (\<lambda>r. rv_SetUUID r = u) (mset (filter (\<lambda>r. rv_ClusterName r = name) ?called))"
      using rvs(2) m by (simp only: mset_filter)
    then show ?thesis by (simp add: filter_filter_mset conj_commute)
  qed
  moreover from serve_reports[OF assms(1,2)] have "?called = registered (drop (length (w_trace w)) (w_trace w'))" by force
  ultimately show ?thesis using n g rvs(1) by (simp add: Recoveries_def sqlite_storage_def)
qed

section \<open>A concrete run\<close>

definition sample_reporter :: failover where
  "sample_reporter = SetOnClusterRecovered (sample_failover (smart_ChooseMaster insertion_sort no_limits))"

lemma sample_reporter_simps [simp]:
  "fo_recoveredCB sample_reporter" "fo_elector sample_reporter = smart_ChooseMaster insertion_sort no_limits"
  "fo_recoveries sample_reporter = []" "hooks_of (fo_hooker sample_reporter) t = []"
  "fo_recvSetTTL sample_reporter = 30 * Minute" "fo_clusterName sample_reporter = ''k''"
  by (simp_all add: sample_reporter_def SetOnClusterRecovered_def)
    (simp add: sample_failover_def NewDefaultFailover_def)

lemma sample_reported:
  "\<exists>r w'. promoteFollowerToMaster insertion_sort (sample_env [sample_follower ''a'' 7])
      (sample_reporter\<lparr>fo_sampler := s\<rparr>) (sample_analysis [sample_follower ''a'' 7]) w
    = Some ([r], w') \<and> rv_SetUUID r = ''s'' \<and> rv_ClusterName r = ''k'' \<and> wf_Recovery r"
proof -
  have set: "an_Set (sample_analysis [sample_follower ''a'' 7]) = sample_set [sample_follower ''a'' 7]"
    by (simp add: sample_analysis_def)
  have wf: "wf_Analysis (sample_analysis [sample_follower ''a'' 7])"
    by (simp add: wf_Analysis_def sample_analysis_def wf_ReplicaSet_def sample_set_def sample_follower_def
        zero_Instance_def wf_Instance_def wf_Upstream_def wf_StorageInfo_def zero_StorageInfo_def
        wf_InstanceBucket_def zero_InstanceBucket_def in_int64_def)
  show ?thesis
    unfolding promote_unfold set
    by (simp add: ExecuteProcesses_def sample_elect promote_elected_def Let_def sample_Instance sample_promotes
        sample_exec return_recovery_result set started_def wf_Recovery_def wf in_int64_def Second_def Minute_def)
      (simp add: sample_set_def)
qed

lemma sample_report_run:
  "\<exists>r f' w'. serve insertion_sort id (sample_env [sample_follower ''a'' 7])
      [AnalysisReceived (sample_analysis [sample_follower ''a'' 7])] sample_reporter world0 = Some (f', w') \<and>
    registered (w_trace w') = [r] \<and> rv_SetUUID r = ''s'' \<and> rv_ClusterName r = ''k'' \<and> wf_Recovery r"
proof -
  let ?env = "sample_env [sample_follower ''a'' 7]" and ?a = "sample_analysis [sample_follower ''a'' 7]"
  let ?f = "sample_reporter\<lparr>fo_sampler := snd (sample id ?a (fo_sampler sample_reporter))\<rparr>"
  let ?w = "(emit EvStartRecovery (tick world0))\<lparr>w_active := True\<rparr>"
  have st: "fst (getCheckAndRecoveryFunc (an_State ?a)) = Some PromoteFollowerToMaster"
    by (simp add: sample_analysis_def)
  obtain r w1 where p: "promoteFollowerToMaster insertion_sort ?env ?f ?a ?w = Some ([r], w1)"
    and r: "rv_SetUUID r = ''s''" "rv_ClusterName r = ''k''" "wf_Recovery r"
    using sample_reported by metis
  then have run: "run_recovery insertion_sort ?env ?f PromoteFollowerToMaster ?a ?w = Some ([r], w1)"
    by (simp add: run_recovery_def)
  from checkAndRecover_returns[OF st run] obtain f' w' where
    c: "checkAndRecover insertion_sort id ?env ?a sample_reporter (tick world0) = Some (f', w')"
    and f': "fo_recoveries f' = [r]" by auto
  have "registered (w_trace w') = [r]"
    using c
  proof (cases rule: checkAndRecover_cases)
    case no_action
    with st show ?thesis by simp
  next
    case (recovered rf w0 recs w2)
    from run_recovery_events[OF recovered(5)] obtain es where
      "w_trace w2 = w_trace w0 @ es" "registered es = [] \<and> called_back es = []" using quiet_events by metis
    with recovered(2,6,7) f' reported_concat[of sample_reporter recs] show ?thesis by (auto simp: world0_def)
  qed
  moreover have "shouldBeAnalysisChecked ?env world0" by (simp add: shouldBeAnalysisChecked_def world0_def)
  ultimately show ?thesis using c r
    by (intro exI[of _ r] exI[of _ f'] exI[of _ w']) (simp add: serve_one_def)
qed

theorem recoveries_served_witness:
  "\<exists>f' w' r rvs. serve insertion_sort id (sample_env [sample_follower ''a'' 7])
      [AnalysisReceived (sample_analysis [sample_follower ''a'' 7])] sample_reporter world0 = Some (f', w') \<and>
    registered (w_trace w') = [r] \<and>
    fst (Recoveries (sqlite_storage quiet_db) ''k'' ''s''
      (snd (notify_all (sqlite_storage quiet_db) [ClusterRecovered r] empty_db))) = Inr rvs \<and> rvs = [r]"
proof -
  obtain r f' w' where s: "serve insertion_sort id (sample_env [sample_follower ''a'' 7])
      [AnalysisReceived (sample_analysis [sample_follower ''a'' 7])] sample_reporter world0 = Some (f', w')"
    and r: "registered (w_trace w') = [r]" "rv_SetUUID r = ''s''" "rv_ClusterName r = ''k''" "wf_Recovery r"
    using sample_report_run by blast
  from serve_reports[OF s] have "called_back (w_trace w') = [r]" using r(1) by (auto simp: world0_def)
  with recoveries_served[OF s, of "[ClusterRecovered r]" quiet_db "''k''" "''s''"] r s show ?thesis
    by (auto simp: world0_def quiet_db_def lessThan_Suc)
qed

end
