(* ===== verification/Qumomf_Main.thy ===== *)
theory Qumomf_Main
  imports Recovery_Archive
begin

text \<open>
  cmd/qumomf/main.go: the assembly of the program, from the configuration to its orderly end.

  \<open>main_env\<close> is what the run finds outside: the file of the configuration and its decoder, the level
  parser of zerolog, the system log daemon, the permissions of directories, the database.  A run either
  ends at once with a fatal message, panics, or starts everything, waits for a signal and shuts down;
  \<open>main\<close> returns which, with the parts it started.  The goroutine of the HTTP server, which ends the process
  when it cannot listen, and the texts of the log are left out.
\<close>

section \<open>path.Dir\<close>

text \<open>The components of a path between its slashes.\<close>

fun split_slash :: "string \<Rightarrow> string list" where
  "split_slash [] = [[]]"
| "split_slash (c # s) =
     (if c = CHR ''/'' then [] # split_slash s
      else (case split_slash s of [] \<Rightarrow> [[c]] | x # xs \<Rightarrow> (c # x) # xs))"

text \<open>\<open>path.Clean\<close>: empty components and dots vanish, two dots take the component before with them, if it is no
  pair of dots itself; in a rooted path leading pairs vanish.  \<open>out\<close> is reversed.\<close>

fun clean_parts :: "bool \<Rightarrow> string list \<Rightarrow> string list \<Rightarrow> string list" where
  "clean_parts rooted out [] = rev out"
| "clean_parts rooted out (p # ps) =
     (if p = '''' \<or> p = ''.'' then clean_parts rooted out ps
      else if p = ''..'' then
        (case out of
           [] \<Rightarrow> clean_parts rooted (if rooted then [] else [p]) ps
         | q # rest \<Rightarrow> if q = ''..'' then clean_parts rooted (p # out) ps else clean_parts rooted rest ps)
      else clean_parts rooted (p # out) ps)"

fun join_slash :: "string list \<Rightarrow> string" where
  "join_slash [] = ''''"
| "join_slash [p] = p"
| "join_slash (p # ps) = p @ CHR ''/'' # join_slash ps"

definition path_Clean :: "string \<Rightarrow> string" where
  "path_Clean p =
     (let rooted = (p \<noteq> '''' \<and> hd p = CHR ''/''); out = join_slash (clean_parts rooted [] (split_slash p))
      in if rooted then CHR ''/'' # out else if out = '''' then ''.'' else out)"

definition path_Dir :: "string \<Rightarrow> string" where
  "path_Dir p = path_Clean (concat (map (\<lambda>x. x @ ''/'') (butlast (split_slash p))))"

lemma path_Dir_examples:
  "path_Dir ''/var/log/qumomf.log'' = ''/var/log''" "path_Dir ''qumomf.log'' = ''.''"
  "path_Dir ''/qumomf.log'' = ''/''" "path_Dir ''a/../../b/c'' = ''../b''"
  by (simp_all add: path_Dir_def path_Clean_def)

section \<open>The logger\<close>

datatype writer = Stdout | SyslogWriter | RollingFile string int int int

record logger =
  lg_writers :: "writer list"
  lg_level :: "int option"
  lg_timestamp :: bool

text \<open>\<open>log_levels\<close>: zerolog's parser and its DebugLevel.\<close>

record log_env =
  le_ParseLevel :: "string \<Rightarrow> (string, int) go_result"
  le_DebugLevel :: int
  le_syslog :: "(string, unit) go_result"
  le_writable :: "string \<Rightarrow> bool"

definition newRollingLogFile :: "log_env \<Rightarrow> Logging \<Rightarrow> (string, writer) go_result" where
  "newRollingLogFile le cfg =
     (let dir = path_Dir (log_Filename cfg)
      in if \<not> le_writable le dir then Inl (''no permissions to write logs to dir: '' @ dir)
         else Inr (RollingFile (log_Filename cfg) (log_MaxBackups cfg) (log_MaxSize cfg) (log_MaxAge cfg)))"

text \<open>The global level and the logger.\<close>

definition initLogger :: "log_env \<Rightarrow> Config \<Rightarrow> int \<times> logger" where
  "initLogger le cfg =
     (let loggingCfg = q_Logging (c_Qumomf cfg);
          logLevel = (case le_ParseLevel le (log_Level loggingCfg) of Inl _ \<Rightarrow> le_DebugLevel le | Inr l \<Rightarrow> l);
          writers = [Stdout];
          writers = (if log_SysLogEnabled loggingCfg
                     then (case le_syslog le of Inl _ \<Rightarrow> writers | Inr _ \<Rightarrow> writers @ [SyslogWriter]) else writers);
          writers = (if log_FileLoggingEnabled loggingCfg
                     then (case newRollingLogFile le loggingCfg of Inl _ \<Rightarrow> writers | Inr w \<Rightarrow> writers @ [w]) else writers)
      in (logLevel,
          if length writers = 1 then \<lparr>lg_writers = writers, lg_level = Some logLevel, lg_timestamp = True\<rparr>
          else \<lparr>lg_writers = writers, lg_level = None, lg_timestamp = False\<rparr>))"

text \<open>Times are written to the log exactly when it only goes to the standard output: a second writer costs the
  time stamps and the level of the logger.\<close>

lemma initLogger_timestamp:
  "lg_timestamp (snd (initLogger le cfg)) \<longleftrightarrow> lg_writers (snd (initLogger le cfg)) = [Stdout]"
  by (auto simp: initLogger_def Let_def split: sum.splits)

section \<open>The program\<close>

record 's http_server =
  hs_Addr :: string
  hs_api :: "(string \<times> string \<times> ((string \<rightharpoonup> string) \<Rightarrow> 's \<Rightarrow> http_response \<times> 's)) list"
  hs_debug :: "(string \<times> string \<times> reply) list"
  hs_ReadTimeout :: duration
  hs_WriteTimeout :: duration

definition initHTTPServer :: "reply \<Rightarrow> string \<times> string \<times> string \<Rightarrow> 's Service \<Rightarrow> string \<Rightarrow> 's http_server" where
  "initHTTPServer metrics_page build service port =
     (case build of (version, commit_id, buildDate) \<Rightarrow>
       \<lparr>hs_Addr = port, hs_api = RegisterAPIHandlers service,
        hs_debug = RegisterDebugHandlers metrics_page version commit_id buildDate,
        hs_ReadTimeout = 5 * Second, hs_WriteTimeout = 5 * Second\<rparr>)"

record main_env =
  me_read :: "(config_error, string) go_result"
  me_decode :: "string \<Rightarrow> Config \<Rightarrow> (config_error, Config) go_result"
  me_log :: log_env
  me_open :: "string option"
  me_files :: "string \<Rightarrow> dbfile"
  me_db :: db_env
  me_clock :: "nat \<Rightarrow> int"
  me_build :: "string \<times> string \<times> string"
  me_metrics_page :: reply

datatype stop = StopTask shutdown_task | StopServer

record running =
  rn_logger :: logger
  rn_store :: sqlite
  rn_server :: "sqlite http_server"
  rn_parts :: "(string \<times> storageMonitor \<times> failover) list"
  rn_stops :: "stop list"

datatype main_result = Fatal string | Panic | Ran running

definition main :: "Instance sorter \<Rightarrow> main_env \<Rightarrow> main_result" where
  "main srt me =
     (case Setup (me_read me) (me_decode me) of
        None \<Rightarrow> Panic
      | Some (Inl _) \<Rightarrow> Fatal ''failed to read config''
      | Some (Inr cfg) \<Rightarrow>
          let logger = snd (initLogger (me_log me) cfg)
          in case fst (newStorage (me_db me) (me_open me) (me_files me) cfg) of
               Inl _ \<Rightarrow> Fatal ''failed to init persistent storage''
             | Inr db \<Rightarrow>
                 let service = NewService (sqlite_storage (me_db me));
                     server = initHTTPServer (me_metrics_page me) (me_build me) service (q_Port (c_Qumomf cfg))
                 in case register_clusters srt (me_clock me) (c_Clusters cfg) cfg coordinator_New of
                      None \<Rightarrow> Panic
                    | Some (parts, qCoordinator) \<Rightarrow>
                        Ran \<lparr>rn_logger = logger, rn_store = db, rn_server = server, rn_parts = parts,
                             rn_stops = map StopTask (Shutdown qCoordinator) @ [StopServer]\<rparr>)"

section \<open>A start and an end\<close>

lemma sqlite_New_fresh:
  assumes "db_fault env 0 = None"
  obtains s f' where "sqlite_New env None f = (Inr s, f')"
    "sq_snapshots s = (case fl_snapshots f of None \<Rightarrow> [] | Some rows \<Rightarrow> rows)"
    "sq_recoveries s = (case fl_recoveries f of None \<Rightarrow> [] | Some rows \<Rightarrow> rows)"
  using assms by (cases "fl_snapshots f"; cases "fl_recoveries f")
    (simp_all add: sqlite_New_def createTables_def create_snapshots_def create_recoveries_def)


definition sample_main_config :: Config where
  "sample_main_config = zero_Config\<lparr>c_Qumomf := (c_Qumomf zero_Config)\<lparr>q_ElectionMode := ''smart'', q_Port := '':8080''\<rparr>,
     c_Connection := Some default_Connection, c_Clusters := [(''k'', sample_config)]\<rparr>"

definition sample_main_env :: main_env where
  "sample_main_env = \<lparr>me_read = Inr ''x'', me_decode = (\<lambda>_ _. Inr sample_main_config),
     me_log = \<lparr>le_ParseLevel = (\<lambda>_. Inr 0), le_DebugLevel = 0, le_syslog = Inr (), le_writable = (\<lambda>_. True)\<rparr>,
     me_open = None, me_files = (\<lambda>_. \<lparr>fl_snapshots = None, fl_recoveries = None\<rparr>), me_db = quiet_db,
     me_clock = (\<lambda>_. 0), me_build = ('''', '''', ''''), me_metrics_page = HealthHandler\<rparr>"

lemma sample_main_setup:
  "Setup (me_read sample_main_env) (me_decode sample_main_env) = Some (Inr sample_main_config)"
proof -
  have "inherit_Cluster sample_main_config sample_config = Some sample_config"
    by (simp add: inherit_Cluster_def inherit_Connection_def sample_main_config_def sample_config_def default_Connection_def Let_def)
  then have "overrideEmptyByGlobalConfigs sample_main_config = Some sample_main_config"
    by (simp add: overrideEmptyByGlobalConfigs_def sample_main_config_def)
  moreover have "validate_config sample_main_config = Inr ()"
    by (simp add: validate_config_def validateElector_def sample_main_config_def sample_config_def)
  ultimately show ?thesis by (simp add: Setup_def sample_main_env_def)
qed


end
