(* ===== verification/Qumomf_Process.thy ===== *)
theory Qumomf_Process
  imports Qumomf_Main
begin

text \<open>
  cmd/qumomf/main.go once the server is built: the goroutine of \<open>main\<close>, which registers the clusters, waits
  for a signal and shuts everything down, and the goroutine that listens, as interleaving steps over
  what they share.  They share the variable \<open>err\<close>: the function literal of the \<open>go\<close> statement assigns
  to the \<open>err\<close> of \<open>main\<close>, not to one of its own.

  Of \<open>net/http\<close> the model uses what its documentation says: \<open>ListenAndServe\<close> returns an error, which is
  \<open>ErrServerClosed\<close> exactly after \<open>Shutdown\<close> has been called.  Of \<open>os/signal\<close>: before \<open>Notify\<close> a signal
  ends the process, afterwards it is put into the channel if there is room for it.  A task of the shutdown
  is one step here; \<open>Vshard_Pool\<close> shows when closing the connections of a cluster blocks.
\<close>

section \<open>The process\<close>

datatype proc_err = RegisterErr coordinator_error | ErrServerClosed | ListenErr string | CloseErr string

datatype main_pc =
    Registering "(string \<times> ClusterConfig) list"
  | Registered string "(string \<times> ClusterConfig) list"
  | Waiting
  | Stopping "shutdown_task list"
  | Draining
  | Drained

datatype server_pc = Listening | Returning proc_err | Checking | ServerDone

datatype proc_exit = MainReturned | FatalExit | Killed | Panicked

datatype proc_log = LogRegistered string | LogNotRegistered string | LogSignal | LogShutdownFailed | LogListenFailed

record process =
  ps_main :: main_pc
  ps_server :: server_pc
  ps_err :: "proc_err option"
  ps_count :: nat
  ps_co :: Coordinator
  ps_parts :: "(string \<times> storageMonitor \<times> failover) list"
  ps_notified :: bool
  ps_interrupt :: bool
  ps_closed :: bool
  ps_stopped :: "shutdown_task list"
  ps_log :: "proc_log list"
  ps_exit :: "proc_exit option"

definition proc_init :: "(string \<times> ClusterConfig) list \<Rightarrow> process" where
  "proc_init clusters = \<lparr>ps_main = Registering clusters, ps_server = Listening, ps_err = None, ps_count = 0,
     ps_co = coordinator_New, ps_parts = [], ps_notified = False, ps_interrupt = False, ps_closed = False,
     ps_stopped = [], ps_log = [], ps_exit = None\<rparr>"

datatype proc_act = Register | TestRegister | Notify | SignalArrives | Wake | RunTask | CloseServer
  | ServerDrained "string option" | TestShutdown | ListenFails string | ListenClosed | AssignErr | TestErr

text \<open>The goroutine of \<open>main\<close>.  The second case of \<open>register\<close> is a panic.\<close>

inductive main_step :: "Instance sorter \<Rightarrow> (nat \<Rightarrow> int) \<Rightarrow> Config \<Rightarrow> process \<Rightarrow> proc_act \<Rightarrow> process \<Rightarrow> bool"
  for srt clock cfg where
  register: "ps_main s = Registering ((name, k) # clusters) \<Longrightarrow>
     RegisterCluster srt (clock (ps_count s)) name k cfg (ps_co s) = Some (res, c) \<Longrightarrow>
     main_step srt clock cfg s Register (s\<lparr>ps_main := Registered name clusters, ps_count := Suc (ps_count s), ps_co := c,
       ps_err := (case res of Inl e \<Rightarrow> Some (RegisterErr e) | Inr _ \<Rightarrow> None),
       ps_parts := ps_parts s @ (case res of Inl _ \<Rightarrow> [] | Inr parts \<Rightarrow> [(name, parts)])\<rparr>)"
| register_panics: "ps_main s = Registering ((name, k) # clusters) \<Longrightarrow>
     RegisterCluster srt (clock (ps_count s)) name k cfg (ps_co s) = None \<Longrightarrow>
     main_step srt clock cfg s Register (s\<lparr>ps_exit := Some Panicked\<rparr>)"
| test_register: "ps_main s = Registered name clusters \<Longrightarrow>
     main_step srt clock cfg s TestRegister (s\<lparr>ps_main := Registering clusters,
       ps_log := ps_log s @ [if ps_err s \<noteq> None then LogNotRegistered name else LogRegistered name]\<rparr>)"
| notify: "ps_main s = Registering [] \<Longrightarrow>
     main_step srt clock cfg s Notify (s\<lparr>ps_main := Waiting, ps_notified := True\<rparr>)"
| wake: "ps_main s = Waiting \<Longrightarrow> ps_interrupt s \<Longrightarrow>
     main_step srt clock cfg s Wake (s\<lparr>ps_main := Stopping (Shutdown (ps_co s)), ps_interrupt := False,
       ps_log := ps_log s @ [LogSignal]\<rparr>)"
| run_task: "ps_main s = Stopping (task # tasks) \<Longrightarrow>
     main_step srt clock cfg s RunTask (s\<lparr>ps_main := Stopping tasks, ps_stopped := ps_stopped s @ [task]\<rparr>)"
| close_server: "ps_main s = Stopping [] \<Longrightarrow>
     main_step srt clock cfg s CloseServer (s\<lparr>ps_main := Draining, ps_closed := True\<rparr>)"
| drained: "ps_main s = Draining \<Longrightarrow>
     main_step srt clock cfg s (ServerDrained e) (s\<lparr>ps_main := Drained, ps_err := map_option CloseErr e\<rparr>)"
| test_shutdown: "ps_main s = Drained \<Longrightarrow>
     main_step srt clock cfg s TestShutdown (s\<lparr>ps_exit := Some MainReturned,
       ps_log := ps_log s @ (if ps_err s \<noteq> None then [LogShutdownFailed] else [])\<rparr>)"

text \<open>The goroutine that listens, and the signals.\<close>

inductive server_step :: "process \<Rightarrow> proc_act \<Rightarrow> process \<Rightarrow> bool" where
  listen_fails: "ps_server s = Listening \<Longrightarrow> \<not> ps_closed s \<Longrightarrow>
     server_step s (ListenFails msg) (s\<lparr>ps_server := Returning (ListenErr msg)\<rparr>)"
| listen_closed: "ps_server s = Listening \<Longrightarrow> ps_closed s \<Longrightarrow>
     server_step s ListenClosed (s\<lparr>ps_server := Returning ErrServerClosed\<rparr>)"
| assign_err: "ps_server s = Returning e \<Longrightarrow>
     server_step s AssignErr (s\<lparr>ps_server := Checking, ps_err := Some e\<rparr>)"
| test_err_closed: "ps_server s = Checking \<Longrightarrow> ps_err s = Some ErrServerClosed \<Longrightarrow>
     server_step s TestErr (s\<lparr>ps_server := ServerDone\<rparr>)"
| test_err_fatal: "ps_server s = Checking \<Longrightarrow> ps_err s \<noteq> Some ErrServerClosed \<Longrightarrow>
     server_step s TestErr (s\<lparr>ps_exit := Some FatalExit, ps_log := ps_log s @ [LogListenFailed]\<rparr>)"

definition signal_arrives :: "process \<Rightarrow> process" where
  "signal_arrives s = (if ps_notified s then s\<lparr>ps_interrupt := True\<rparr> else s\<lparr>ps_exit := Some Killed\<rparr>)"

inductive proc_step :: "Instance sorter \<Rightarrow> (nat \<Rightarrow> int) \<Rightarrow> Config \<Rightarrow> process \<Rightarrow> proc_act \<Rightarrow> process \<Rightarrow> bool"
  for srt clock cfg where
  by_main: "ps_exit s = None \<Longrightarrow> main_step srt clock cfg s act s' \<Longrightarrow> proc_step srt clock cfg s act s'"
| by_server: "ps_exit s = None \<Longrightarrow> server_step s act s' \<Longrightarrow> proc_step srt clock cfg s act s'"
| by_signal: "ps_exit s = None \<Longrightarrow> proc_step srt clock cfg s SignalArrives (signal_arrives s)"

inductive proc_run :: "Instance sorter \<Rightarrow> (nat \<Rightarrow> int) \<Rightarrow> Config \<Rightarrow> process \<Rightarrow> proc_act list \<Rightarrow> process \<Rightarrow> bool"
  for srt clock cfg where
  proc_nil: "proc_run srt clock cfg s [] s"
| proc_snoc: "proc_run srt clock cfg s0 acts s \<Longrightarrow> proc_step srt clock cfg s act s' \<Longrightarrow>
     proc_run srt clock cfg s0 (acts @ [act]) s'"

section \<open>The state after a run\<close>

text \<open>What is left of the registration, and of the shutdown, at each point of \<open>main\<close>.\<close>

definition to_register :: "main_pc \<Rightarrow> (string \<times> ClusterConfig) list" where
  "to_register pc = (case pc of Registering ks \<Rightarrow> ks | Registered _ ks \<Rightarrow> ks | _ \<Rightarrow> [])"

definition to_stop :: "Coordinator \<Rightarrow> main_pc \<Rightarrow> shutdown_task list" where
  "to_stop c pc = (case pc of Stopping tasks \<Rightarrow> tasks | Draining \<Rightarrow> [] | Drained \<Rightarrow> [] | _ \<Rightarrow> Shutdown c)"

definition before_signal :: "main_pc \<Rightarrow> bool" where
  "before_signal pc = (case pc of Stopping _ \<Rightarrow> False | Draining \<Rightarrow> False | Drained \<Rightarrow> False | _ \<Rightarrow> True)"

definition proc_inv :: "Instance sorter \<Rightarrow> (nat \<Rightarrow> int) \<Rightarrow> Config \<Rightarrow> (string \<times> ClusterConfig) list \<Rightarrow> proc_act list \<Rightarrow> process \<Rightarrow> bool" where
  "proc_inv srt clock cfg clusters acts s \<longleftrightarrow>
     register_clusters srt clock clusters cfg coordinator_New =
       map_option (\<lambda>(rest, c). (ps_parts s @ rest, c))
         (register_clusters srt (\<lambda>i. clock (ps_count s + i)) (to_register (ps_main s)) cfg (ps_co s)) \<and>
     (before_signal (ps_main s) \<longrightarrow> ps_stopped s = []) \<and>
     ps_stopped s @ to_stop (ps_co s) (ps_main s) = Shutdown (ps_co s) \<and>
     (ps_interrupt s \<or> \<not> before_signal (ps_main s) \<longrightarrow> SignalArrives \<in> set acts) \<and>
     (ps_notified s \<longleftrightarrow> Notify \<in> set acts) \<and>
     (ps_main s = Waiting \<longrightarrow> ps_notified s) \<and>
     (ps_main s \<in> {Draining, Drained} \<longleftrightarrow> ps_closed s) \<and>
     (ps_closed s \<longrightarrow> CloseServer \<in> set acts) \<and>
     (ps_server s \<noteq> Listening \<longrightarrow> ps_closed s \<or> (\<exists>m. ListenFails m \<in> set acts)) \<and>
     (ps_exit s = Some MainReturned \<longrightarrow> ps_main s = Drained) \<and>
     (ps_exit s = Some Killed \<longrightarrow> \<not> ps_notified s) \<and>
     (ps_exit s = Some FatalExit \<longrightarrow> ps_server s = Checking) \<and>
     (ps_exit s = Some Panicked \<longrightarrow> register_clusters srt clock clusters cfg coordinator_New = None)"

lemmas pc_defs = to_register_def to_stop_def before_signal_def

lemma main_step_inv:
  assumes "main_step srt clock cfg s act s'" and "ps_exit s = None" and "proc_inv srt clock cfg clusters acts s"
  shows "proc_inv srt clock cfg clusters (acts @ [act]) s'"
  using assms
proof (induction rule: main_step.induct)
  case (register s name k ks res c)
  then show ?case
    by (cases res) (auto simp: proc_inv_def pc_defs comp_def option.map_comp case_prod_beta intro!: map_option_cong)
qed (auto simp: proc_inv_def pc_defs)

lemma server_step_inv:
  assumes "server_step s act s'" and "ps_exit s = None" and "proc_inv srt clock cfg clusters acts s"
  shows "proc_inv srt clock cfg clusters (acts @ [act]) s'"
  using assms by (induction rule: server_step.induct) (auto simp: proc_inv_def)

lemma proc_run_inv:
  assumes "proc_run srt clock cfg (proc_init clusters) acts s"
  shows "proc_inv srt clock cfg clusters acts s"
  using assms
proof (induction "proc_init clusters" acts s rule: proc_run.induct)
  case proc_nil
  then show ?case
    by (simp add: proc_inv_def proc_init_def pc_defs Shutdown_def coordinator_New_def option.map_id id_def[symmetric] case_prod_beta)
next
  case (proc_snoc acts s act s')
  from proc_snoc(3) show ?case
  proof cases
    case by_signal
    with proc_snoc(2) show ?thesis by (auto simp: proc_inv_def signal_arrives_def)
  qed (use proc_snoc(2) main_step_inv server_step_inv in blast)+
qed

section \<open>Ways to go on\<close>

lemma proc_run_append:
  assumes "proc_run srt clock cfg s1 acts' s2" and "proc_run srt clock cfg s acts s1"
  shows "proc_run srt clock cfg s (acts @ acts') s2"
  using assms
proof (induction rule: proc_run.induct)
  case (proc_snoc s0 acts' s' act s'')
  from proc_run.proc_snoc[OF proc_snoc.IH[OF proc_snoc.prems] proc_snoc.hyps(2)] show ?case by simp
qed simp

lemma proc_run_cons:
  "proc_step srt clock cfg s act s1 \<Longrightarrow> proc_run srt clock cfg s1 acts s2 \<Longrightarrow> proc_run srt clock cfg s (act # acts) s2"
  using proc_run_append[OF _ proc_snoc[OF proc_nil]] by fastforce

text \<open>\<open>main\<close> can go from \<open>s\<close> to a state in which \<open>P\<close>, without any step of the listening goroutine.\<close>

definition main_reaches :: "Instance sorter \<Rightarrow> (nat \<Rightarrow> int) \<Rightarrow> Config \<Rightarrow> (process \<Rightarrow> bool) \<Rightarrow> process \<Rightarrow> bool" where
  "main_reaches srt clock cfg P s \<longleftrightarrow> (\<exists>acts s'. proc_run srt clock cfg s acts s' \<and> P s' \<and>
     set acts \<subseteq> {Register, TestRegister, Notify, SignalArrives, Wake, RunTask, CloseServer, ServerDrained None, TestShutdown})"

lemma main_reaches_now: "P s \<Longrightarrow> main_reaches srt clock cfg P s"
  unfolding main_reaches_def by (metis empty_iff empty_set proc_nil subsetI)

lemma main_reaches_step:
  assumes "ps_exit s = None" and "main_step srt clock cfg s act s'" and "main_reaches srt clock cfg P s'"
    and "act \<in> {Register, TestRegister, Notify, SignalArrives, Wake, RunTask, CloseServer, ServerDrained None, TestShutdown}"
  shows "main_reaches srt clock cfg P s"
proof -
  from assms(3) obtain acts s2 where "proc_run srt clock cfg s' acts s2" "P s2"
    "set acts \<subseteq> {Register, TestRegister, Notify, SignalArrives, Wake, RunTask, CloseServer, ServerDrained None, TestShutdown}"
    unfolding main_reaches_def by blast
  with proc_run_cons[OF by_main[OF assms(1,2)]] assms(4) show ?thesis
    unfolding main_reaches_def by (intro exI[of _ "act # acts"] exI[of _ s2]) simp
qed

lemma main_reaches_signal:
  assumes "ps_exit s = None" and "main_reaches srt clock cfg P (signal_arrives s)"
  shows "main_reaches srt clock cfg P s"
proof -
  from assms(2) obtain acts s2 where "proc_run srt clock cfg (signal_arrives s) acts s2" "P s2"
    "set acts \<subseteq> {Register, TestRegister, Notify, SignalArrives, Wake, RunTask, CloseServer, ServerDrained None, TestShutdown}"
    unfolding main_reaches_def by blast
  with proc_run_cons[OF by_signal[OF assms(1)]] show ?thesis
    unfolding main_reaches_def by (intro exI[of _ "SignalArrives # acts"] exI[of _ s2]) simp
qed

lemma reaches_draining:
  assumes "ps_main s = Stopping tasks" and "ps_exit s = None"
    and "main_reaches srt clock cfg P (s\<lparr>ps_main := Draining, ps_closed := True, ps_stopped := ps_stopped s @ tasks\<rparr>)"
  shows "main_reaches srt clock cfg P s"
  using assms
proof (induction tasks arbitrary: s)
  case Nil
  with main_reaches_step[OF Nil.prems(2) close_server[OF Nil.prems(1)]] show ?case by simp
next
  case (Cons task tasks)
  have "main_reaches srt clock cfg P (s\<lparr>ps_main := Stopping tasks, ps_stopped := ps_stopped s @ [task]\<rparr>)"
    by (rule Cons.IH) (use Cons.prems in simp_all)
  with main_reaches_step[OF Cons.prems(2) run_task[OF Cons.prems(1)]] show ?case by simp
qed

lemma reaches_stop:
  assumes "ps_main s = Waiting" and "ps_exit s = None" and "ps_notified s"
    and "\<And>s'. ps_main s' = Draining \<Longrightarrow> ps_closed s' \<Longrightarrow> ps_stopped s' = ps_stopped s @ Shutdown (ps_co s) \<Longrightarrow>
       ps_exit s' = None \<Longrightarrow> ps_server s' = ps_server s \<Longrightarrow> main_reaches srt clock cfg P s'"
  shows "main_reaches srt clock cfg P s"
proof (rule main_reaches_signal[OF assms(2)])
  let ?s = "s\<lparr>ps_interrupt := True\<rparr>"
  have "main_reaches srt clock cfg P (?s\<lparr>ps_main := Stopping (Shutdown (ps_co ?s)), ps_interrupt := False,
      ps_log := ps_log ?s @ [LogSignal]\<rparr>)"
    by (rule reaches_draining) (use assms(2) in \<open>auto intro!: assms(4)\<close>)
  with main_reaches_step[OF _ wake, of ?s] assms(1-3) show "main_reaches srt clock cfg P (signal_arrives s)"
    by (simp add: signal_arrives_def)
qed

lemma reaches_registered:
  assumes "register_clusters srt (\<lambda>i. clock (ps_count s + i)) ks cfg (ps_co s) = Some (rest, c)"
    and "ps_main s = Registering ks" and "ps_exit s = None"
    and "\<And>s'. ps_main s' = Waiting \<Longrightarrow> ps_notified s' \<Longrightarrow> ps_co s' = c \<Longrightarrow> ps_parts s' = ps_parts s @ rest \<Longrightarrow>
       ps_exit s' = None \<Longrightarrow> ps_server s' = ps_server s \<Longrightarrow> ps_stopped s' = ps_stopped s \<Longrightarrow>
       main_reaches srt clock cfg P s'"
  shows "main_reaches srt clock cfg P s"
  using assms
proof (induction ks arbitrary: s rest)
  case Nil
  have "main_reaches srt clock cfg P (s\<lparr>ps_main := Waiting, ps_notified := True\<rparr>)"
    by (rule Nil.prems(4)) (use Nil.prems in simp_all)
  with main_reaches_step[OF Nil.prems(3) notify[OF Nil.prems(2)]] show ?case by simp
next
  case (Cons nk ks)
  obtain name k where nk: "nk = (name, k)" by (cases nk)
  from Cons.prems(1) obtain res c1 where r: "RegisterCluster srt (clock (ps_count s)) name k cfg (ps_co s) = Some (res, c1)"
    by (auto simp: nk split: option.splits)
  let ?s1 = "s\<lparr>ps_main := Registered name ks, ps_count := Suc (ps_count s), ps_co := c1,
       ps_err := (case res of Inl e \<Rightarrow> Some (RegisterErr e) | Inr _ \<Rightarrow> None),
       ps_parts := ps_parts s @ (case res of Inl _ \<Rightarrow> [] | Inr parts \<Rightarrow> [(name, parts)])\<rparr>"
  let ?s2 = "?s1\<lparr>ps_main := Registering ks,
       ps_log := ps_log ?s1 @ [if ps_err ?s1 \<noteq> None then LogNotRegistered name else LogRegistered name]\<rparr>"
  obtain rest' where rest': "register_clusters srt (\<lambda>i. clock (Suc (ps_count s) + i)) ks cfg c1 = Some (rest', c)"
    "rest = (case res of Inl _ \<Rightarrow> [] | Inr parts \<Rightarrow> [(name, parts)]) @ rest'"
    using Cons.prems(1) r by (cases res) (auto simp: nk comp_def)
  have "main_reaches srt clock cfg P ?s2"
    by (rule Cons.IH[of ?s2 rest']) (use rest' Cons.prems(3) in \<open>auto intro!: Cons.prems(4)\<close>)
  then have "main_reaches srt clock cfg P ?s1"
    using main_reaches_step[OF _ test_register, of ?s1] Cons.prems(3) by simp
  with main_reaches_step[OF Cons.prems(3) register[where clock = clock, OF Cons.prems(2)[unfolded nk] r]] show ?case by simp
qed

text \<open>Once the server is told to close, \<open>main\<close> goes on to its end.\<close>

definition returned :: "shutdown_task list \<Rightarrow> server_pc \<Rightarrow> process \<Rightarrow> bool" where
  "returned tasks pc s \<longleftrightarrow> ps_exit s = Some MainReturned \<and> ps_stopped s = tasks \<and> ps_server s = pc"

lemma drained_returns:
  assumes "ps_main s = Drained" and "ps_exit s = None"
  shows "main_reaches srt clock cfg (returned (ps_stopped s) (ps_server s)) s"
proof -
  have "main_reaches srt clock cfg (returned (ps_stopped s) (ps_server s)) (s\<lparr>ps_exit := Some MainReturned,
      ps_log := ps_log s @ (if ps_err s \<noteq> None then [LogShutdownFailed] else [])\<rparr>)"
    by (rule main_reaches_now) (simp add: returned_def)
  with main_reaches_step[OF assms(2) test_shutdown[OF assms(1)]] show ?thesis by simp
qed

lemma draining_returns:
  assumes "ps_main s = Draining" and "ps_exit s = None"
  shows "main_reaches srt clock cfg (returned (ps_stopped s) (ps_server s)) s"
proof -
  have "main_reaches srt clock cfg (returned (ps_stopped s) (ps_server s)) (s\<lparr>ps_main := Drained, ps_err := map_option CloseErr None\<rparr>)"
    using drained_returns[of "s\<lparr>ps_main := Drained, ps_err := map_option CloseErr None\<rparr>"] assms(2) by simp
  with main_reaches_step[OF assms(2) drained[OF assms(1)]] show ?thesis by simp
qed

lemma waiting_returns:
  assumes "ps_main s = Waiting" and "ps_exit s = None" and "ps_notified s" and "ps_stopped s = []"
  shows "main_reaches srt clock cfg (returned (Shutdown (ps_co s)) (ps_server s)) s"
proof (rule reaches_stop[OF assms(1-3)])
  fix s' :: process
  assume "ps_main s' = Draining" "ps_stopped s' = ps_stopped s @ Shutdown (ps_co s)" "ps_exit s' = None" "ps_server s' = ps_server s"
  with draining_returns[of s' srt clock cfg] assms(4) show "main_reaches srt clock cfg (returned (Shutdown (ps_co s)) (ps_server s)) s'"
    by simp
qed

lemma registering_returns:
  assumes "register_clusters srt (\<lambda>i. clock (ps_count s + i)) ks cfg (ps_co s) = Some (rest, c)"
    and "ps_main s = Registering ks" and "ps_exit s = None" and "ps_stopped s = []"
  shows "main_reaches srt clock cfg (returned (Shutdown c) (ps_server s)) s"
proof (rule reaches_registered[OF assms(1-3)])
  fix s' :: process
  assume "ps_main s' = Waiting" "ps_notified s'" "ps_co s' = c" "ps_exit s' = None" "ps_server s' = ps_server s" "ps_stopped s' = ps_stopped s"
  with waiting_returns[of s' srt clock cfg] assms(4) show "main_reaches srt clock cfg (returned (Shutdown c) (ps_server s)) s'"
    by simp
qed

text \<open>Two ways the error of the closed server and that of the shutdown can meet in \<open>err\<close>.\<close>

lemma closed_server_fatal:
  assumes "proc_run srt clock cfg s0 acts s" and "ps_main s = Draining" and "ps_closed s" and "ps_exit s = None"
    and "ps_server s = Listening"
  shows "\<exists>s'. proc_run srt clock cfg s0 (acts @ [ListenClosed, AssignErr, ServerDrained None, TestErr]) s' \<and>
     ps_exit s' = Some FatalExit \<and> ps_stopped s' = ps_stopped s"
proof -
  let ?s1 = "s\<lparr>ps_server := Returning ErrServerClosed\<rparr>"
  have run1: "proc_run srt clock cfg s0 (acts @ [ListenClosed]) ?s1"
    by (rule proc_snoc[OF assms(1) by_server[OF assms(4) listen_closed[OF assms(5,3)]]])
  let ?s2 = "?s1\<lparr>ps_server := Checking, ps_err := Some ErrServerClosed\<rparr>"
  have run2: "proc_run srt clock cfg s0 ((acts @ [ListenClosed]) @ [AssignErr]) ?s2"
    by (rule proc_snoc[OF run1 by_server[OF _ assign_err]]) (use assms in simp_all)
  let ?s3 = "?s2\<lparr>ps_main := Drained, ps_err := map_option CloseErr None\<rparr>"
  have run3: "proc_run srt clock cfg s0 (((acts @ [ListenClosed]) @ [AssignErr]) @ [ServerDrained None]) ?s3"
    by (rule proc_snoc[OF run2 by_main[OF _ drained]]) (use assms in simp_all)
  let ?s4 = "?s3\<lparr>ps_exit := Some FatalExit, ps_log := ps_log ?s3 @ [LogListenFailed]\<rparr>"
  have "proc_run srt clock cfg s0 ((((acts @ [ListenClosed]) @ [AssignErr]) @ [ServerDrained None]) @ [TestErr]) ?s4"
    by (rule proc_snoc[OF run3 by_server[OF _ test_err_fatal]]) (use assms in simp_all)
  then show ?thesis by (intro exI[of _ ?s4]) simp
qed

lemma closed_server_logged:
  assumes "proc_run srt clock cfg s0 acts s" and "ps_main s = Draining" and "ps_closed s" and "ps_exit s = None"
    and "ps_server s = Listening"
  shows "\<exists>s'. proc_run srt clock cfg s0 (acts @ [ListenClosed, ServerDrained None, AssignErr, TestShutdown]) s' \<and>
     ps_exit s' = Some MainReturned \<and> ps_stopped s' = ps_stopped s \<and> LogShutdownFailed \<in> set (ps_log s')"
proof -
  let ?s1 = "s\<lparr>ps_server := Returning ErrServerClosed\<rparr>"
  have run1: "proc_run srt clock cfg s0 (acts @ [ListenClosed]) ?s1"
    by (rule proc_snoc[OF assms(1) by_server[OF assms(4) listen_closed[OF assms(5,3)]]])
  let ?s2 = "?s1\<lparr>ps_main := Drained, ps_err := map_option CloseErr None\<rparr>"
  have run2: "proc_run srt clock cfg s0 ((acts @ [ListenClosed]) @ [ServerDrained None]) ?s2"
    by (rule proc_snoc[OF run1 by_main[OF _ drained]]) (use assms in simp_all)
  let ?s3 = "?s2\<lparr>ps_server := Checking, ps_err := Some ErrServerClosed\<rparr>"
  have run3: "proc_run srt clock cfg s0 (((acts @ [ListenClosed]) @ [ServerDrained None]) @ [AssignErr]) ?s3"
    by (rule proc_snoc[OF run2 by_server[OF _ assign_err]]) (use assms in simp_all)
  let ?s4 = "?s3\<lparr>ps_exit := Some MainReturned,
      ps_log := ps_log ?s3 @ (if ps_err ?s3 \<noteq> None then [LogShutdownFailed] else [])\<rparr>"
  have "proc_run srt clock cfg s0 ((((acts @ [ListenClosed]) @ [ServerDrained None]) @ [AssignErr]) @ [TestShutdown]) ?s4"
    by (rule proc_snoc[OF run3 by_main[OF _ test_shutdown]]) (use assms in simp_all)
  then show ?thesis by (intro exI[of _ ?s4]) simp
qed

lemma main_registers:
  assumes "main srt me = Ran run" and "Setup (me_read me) (me_decode me) = Some (Inr cfg)"
  obtains c where "register_clusters srt (me_clock me) (c_Clusters cfg) cfg coordinator_New = Some (rn_parts run, c)"
    "rn_stops run = map StopTask (Shutdown c) @ [StopServer]"
  using assms by (auto simp: main_def Let_def split: sum.splits option.splits)

lemma init_reaches_draining:
  assumes "register_clusters srt clock clusters cfg coordinator_New = Some (parts, c)"
    and "\<And>s. ps_main s = Draining \<Longrightarrow> ps_closed s \<Longrightarrow> ps_stopped s = Shutdown c \<Longrightarrow> ps_exit s = None \<Longrightarrow>
       ps_server s = Listening \<Longrightarrow> P s"
  shows "main_reaches srt clock cfg P (proc_init clusters)"
proof (rule reaches_registered)
  show "register_clusters srt (\<lambda>i. clock (ps_count (proc_init clusters) + i)) clusters cfg (ps_co (proc_init clusters)) = Some (parts, c)"
    using assms(1) by (simp add: proc_init_def)
  fix s' :: process
  assume s: "ps_main s' = Waiting" "ps_notified s'" "ps_co s' = c" "ps_parts s' = ps_parts (proc_init clusters) @ parts"
    "ps_exit s' = None" "ps_server s' = ps_server (proc_init clusters)" "ps_stopped s' = ps_stopped (proc_init clusters)"
  show "main_reaches srt clock cfg P s'"
    by (rule reaches_stop[OF s(1,5,2)]) (rule main_reaches_now, rule assms(2), use s in \<open>simp_all add: proc_init_def\<close>)
qed (simp_all add: proc_init_def)

lemma proc_inv_registers:
  assumes "proc_inv srt clock cfg clusters acts s"
    and "register_clusters srt clock clusters cfg coordinator_New = Some (parts, c)"
  obtains rest where "register_clusters srt (\<lambda>i. clock (ps_count s + i)) (to_register (ps_main s)) cfg (ps_co s) = Some (rest, c)"
proof (cases "register_clusters srt (\<lambda>i. clock (ps_count s + i)) (to_register (ps_main s)) cfg (ps_co s)")
  case (Some x)
  with conjunct1[OF assms(1)[unfolded proc_inv_def]] assms(2) have "x = (fst x, c)" by (cases x) simp
  with Some show ?thesis by (intro that[of "fst x"]) simp
qed (use conjunct1[OF assms(1)[unfolded proc_inv_def]] assms(2) in simp)

section \<open>A concrete process\<close>

lemma sample_main_Ran:
  obtains run where "main insertion_sort sample_main_env = Ran run"
proof -
  have "list_all (\<lambda>(_, k). complete_Cluster k) (c_Clusters sample_main_config)"
    by (rule Setup_accepted_complete[OF sample_main_setup])
      (auto simp: sample_main_env_def sample_main_config_def complete_Connection_def default_Connection_def)
  moreover have "distinct (map fst (c_Clusters sample_main_config))" by (simp add: sample_main_config_def)
  ultimately have "\<exists>parts c. register_clusters insertion_sort (me_clock sample_main_env) (c_Clusters sample_main_config)
      sample_main_config coordinator_New = Some (parts, c)"
    using register_clusters_complete[where c = coordinator_New] by (force simp: coordinator_New_def)
  moreover have "\<exists>db. fst (newStorage (me_db sample_main_env) (me_open sample_main_env) (me_files sample_main_env) sample_main_config) = Inr db"
    by (rule sqlite_New_fresh[where env = "me_db sample_main_env" and f = "\<lparr>fl_snapshots = None, fl_recoveries = None\<rparr>"])
      (auto simp: sample_main_env_def quiet_db_def newStorage_def Let_def)
  ultimately have "\<exists>run. main insertion_sort sample_main_env = Ran run"
    using sample_main_setup by (auto simp: main_def Let_def)
  then show ?thesis using that by blast
qed

section \<open>Properties\<close>



text \<open>C32: an orderly end can be reported as a failure.  Nothing fails: the clusters are stopped and the server
  shuts down without an error.  But both goroutines use one \<open>err\<close>: when \<open>main\<close> overwrites the
  \<open>ErrServerClosed\<close> of the listening goroutine before that tests it, the process ends fatally; when it is
  the other way round, \<open>main\<close> logs that the shutdown failed.\<close>

theorem orderly_shutdown_fatal:
  assumes "main srt me = Ran run" and "Setup (me_read me) (me_decode me) = Some (Inr cfg)"
  shows "(\<exists>acts s. proc_run srt (me_clock me) cfg (proc_init (c_Clusters cfg)) acts s \<and>
       (\<forall>m. ListenFails m \<notin> set acts) \<and> {e. ServerDrained e \<in> set acts} = {None} \<and>
       map StopTask (ps_stopped s) @ [StopServer] = rn_stops run \<and> ps_exit s = Some FatalExit) \<and>
     (\<exists>acts s. proc_run srt (me_clock me) cfg (proc_init (c_Clusters cfg)) acts s \<and>
       (\<forall>m. ListenFails m \<notin> set acts) \<and> {e. ServerDrained e \<in> set acts} = {None} \<and>
       map StopTask (ps_stopped s) @ [StopServer] = rn_stops run \<and>
       ps_exit s = Some MainReturned \<and> LogShutdownFailed \<in> set (ps_log s))"
proof -
  let ?run = "proc_run srt (me_clock me) cfg"
  from assms obtain c where r: "register_clusters srt (me_clock me) (c_Clusters cfg) cfg coordinator_New = Some (rn_parts run, c)"
    and stops: "rn_stops run = map StopTask (Shutdown c) @ [StopServer]" by (rule main_registers)
  have "main_reaches srt (me_clock me) cfg (\<lambda>s. ps_main s = Draining \<and> ps_closed s \<and> ps_stopped s = Shutdown c \<and>
      ps_exit s = None \<and> ps_server s = Listening) (proc_init (c_Clusters cfg))"
    by (rule init_reaches_draining[OF r]) simp
  then obtain acts s where s: "?run (proc_init (c_Clusters cfg)) acts s" "ps_main s = Draining" "ps_closed s"
    "ps_stopped s = Shutdown c" "ps_exit s = None" "ps_server s = Listening"
    and acts: "set acts \<subseteq> {Register, TestRegister, Notify, SignalArrives, Wake, RunTask, CloseServer, ServerDrained None, TestShutdown}"
    unfolding main_reaches_def by blast
  from acts have "\<forall>m. ListenFails m \<notin> set acts" "{e. ServerDrained e \<in> set acts} \<subseteq> {None}" by auto
  then have A: "(\<forall>m. ListenFails m \<notin> set (acts @ acts')) \<and> {e. ServerDrained e \<in> set (acts @ acts')} = {None}"
    if "set acts' \<subseteq> {ListenClosed, AssignErr, ServerDrained None, TestErr, TestShutdown}" "ServerDrained None \<in> set acts'" for acts'
    using that by auto
  have t: "map StopTask (ps_stopped u) @ [StopServer] = rn_stops run" if "ps_stopped u = ps_stopped s" for u
    using that s(4) stops by simp
  let ?a1 = "acts @ [ListenClosed, AssignErr, ServerDrained None, TestErr]"
  let ?a2 = "acts @ [ListenClosed, ServerDrained None, AssignErr, TestShutdown]"
  obtain s1 where s1: "?run (proc_init (c_Clusters cfg)) ?a1 s1" "ps_exit s1 = Some FatalExit" "ps_stopped s1 = ps_stopped s"
    using closed_server_fatal[OF s(1-3,5,6)] by blast
  obtain s2 where s2: "?run (proc_init (c_Clusters cfg)) ?a2 s2" "ps_exit s2 = Some MainReturned"
    "ps_stopped s2 = ps_stopped s" "LogShutdownFailed \<in> set (ps_log s2)"
    using closed_server_logged[OF s(1-3,5,6)] by blast
  have a1: "\<forall>m. ListenFails m \<notin> set ?a1" "{e. ServerDrained e \<in> set ?a1} = {None}"
    and a2: "\<forall>m. ListenFails m \<notin> set ?a2" "{e. ServerDrained e \<in> set ?a2} = {None}"
    by (rule A[THEN conjunct1] A[THEN conjunct2]; simp)+
  show ?thesis
    by (rule conjI; rule exI, rule exI)
      (rule conjI[OF s1(1) conjI[OF a1(1) conjI[OF a1(2) conjI[OF t[OF s1(3)] s1(2)]]]],
       rule conjI[OF s2(1) conjI[OF a2(1) conjI[OF a2(2) conjI[OF t[OF s2(3)] conjI[OF s2(2,4)]]]]])
qed

theorem orderly_shutdown_fatal_witness:
  "\<exists>acts s. proc_run insertion_sort (me_clock sample_main_env) sample_main_config (proc_init (c_Clusters sample_main_config)) acts s \<and>
     (\<forall>m. ListenFails m \<notin> set acts) \<and> ps_exit s = Some FatalExit"
proof -
  obtain run where "main insertion_sort sample_main_env = Ran run" by (rule sample_main_Ran)
  from conjunct1[OF orderly_shutdown_fatal[OF this sample_main_setup]] show ?thesis
    by (elim exE conjE) (rule exI, rule exI, rule conjI, assumption, rule conjI, assumption, assumption)
qed



end
