(* ===== verification/Qumomf_Metrics.thy ===== *)
theory Qumomf_Metrics
  imports Orch_Monitor
begin

text \<open>
  internal/metrics/metrics.go: what is recorded for Prometheus, and the gauges of the states of a
  replica set, which the monitor sets after an analysis.

  The client library is reduced to what it documents: a gauge has a value per list of labels, a counter a
  number of increments, a histogram the observed durations (their distribution over the buckets is the
  library's).  Help texts and bucket limits are left out.
\<close>

section \<open>The metrics and their registration\<close>

record metric_desc =
  md_Subsystem :: string
  md_Name :: string
  md_labels :: "string list"

definition labelClusterName :: string where [simp]: "labelClusterName = ''cluster_name''"
definition labelHostName :: string where [simp]: "labelHostName = ''hostname''"
definition labelShardState :: string where [simp]: "labelShardState = ''shard_state''"
definition labelShardUUID :: string where [simp]: "labelShardUUID = ''shard_uuid''"

definition discoveryInstanceDurationsSum :: metric_desc where
  "discoveryInstanceDurationsSum = \<lparr>md_Subsystem = ''discovery'', md_Name = ''instance_durations'',
     md_labels = [labelClusterName, labelHostName]\<rparr>"

definition discoveryClusterDurationsSum :: metric_desc where
  "discoveryClusterDurationsSum = \<lparr>md_Subsystem = ''discovery'', md_Name = ''cluster_durations'',
     md_labels = [labelClusterName]\<rparr>"

definition shardCriticalLevelGauge :: metric_desc where
  "shardCriticalLevelGauge = \<lparr>md_Subsystem = ''shard'', md_Name = ''critical_level'',
     md_labels = [labelClusterName, labelShardUUID]\<rparr>"

definition shardStateGauge :: metric_desc where
  "shardStateGauge = \<lparr>md_Subsystem = ''shard'', md_Name = ''state'',
     md_labels = [labelClusterName, labelShardUUID, labelShardState]\<rparr>"

definition discoveryErrors :: metric_desc where
  "discoveryErrors = \<lparr>md_Subsystem = ''discovery'', md_Name = ''errors'', md_labels = []\<rparr>"

definition shardStateCounter :: metric_desc where
  "shardStateCounter = \<lparr>md_Subsystem = ''orchestrator'', md_Name = ''shard_state_event'',
     md_labels = [labelClusterName, labelShardUUID, labelShardState]\<rparr>"

text \<open>The name under which a metric is registered; \<open>MustRegister\<close> panics (\<open>None\<close>) on one already taken.\<close>

definition fq_name :: "metric_desc \<Rightarrow> string" where
  "fq_name d = md_Subsystem d @ ''_'' @ md_Name d"

fun MustRegister :: "metric_desc list \<Rightarrow> string list \<Rightarrow> string list option" where
  "MustRegister [] taken = Some taken"
| "MustRegister (d # ds) taken =
     (if fq_name d \<in> set taken then None else MustRegister ds (taken @ [fq_name d]))"

definition metrics_init :: "string list option" where
  "metrics_init = MustRegister [discoveryInstanceDurationsSum, discoveryClusterDurationsSum,
     shardCriticalLevelGauge, shardStateGauge, discoveryErrors, shardStateCounter] []"

text \<open>The names are distinct, so the program survives its initialisation.\<close>

lemma metrics_init_registers: "metrics_init = Some [''discovery_instance_durations'', ''discovery_cluster_durations'',
    ''shard_critical_level'', ''shard_state'', ''discovery_errors'', ''orchestrator_shard_state_event'']"
  by (simp add: metrics_init_def fq_name_def discoveryInstanceDurationsSum_def discoveryClusterDurationsSum_def
      shardCriticalLevelGauge_def shardStateGauge_def discoveryErrors_def shardStateCounter_def)

section \<open>Recording\<close>

record metrics =
  mt_instance_durations :: "string \<times> string \<Rightarrow> duration list"
  mt_cluster_durations :: "string \<Rightarrow> duration list"
  mt_critical_level :: "string \<times> string \<rightharpoonup> float64"
  mt_shard_state :: "string \<times> string \<times> string \<rightharpoonup> float64"
  mt_discovery_errors :: nat
  mt_shard_events :: "string \<times> string \<times> string \<Rightarrow> nat"

definition no_metrics :: metrics where
  "no_metrics = \<lparr>mt_instance_durations = \<lambda>_. [], mt_cluster_durations = \<lambda>_. [], mt_critical_level = Map.empty,
     mt_shard_state = Map.empty, mt_discovery_errors = 0, mt_shard_events = \<lambda>_. 0\<rparr>"

text \<open>A transaction is a histogram, its labels and the time it was started at.\<close>

datatype summary = InstanceDurations string string | ClusterDurations string

record timeTransaction =
  txn_summary :: summary
  txn_timer :: int

definition Start :: "int \<Rightarrow> summary \<Rightarrow> timeTransaction" where
  "Start now s = \<lparr>txn_summary = s, txn_timer = now\<rparr>"

definition End :: "int \<Rightarrow> timeTransaction \<Rightarrow> metrics \<Rightarrow> metrics" where
  "End now txn m =
     (let d = now - txn_timer txn
      in case txn_summary txn of
           InstanceDurations c h \<Rightarrow>
             m\<lparr>mt_instance_durations := (mt_instance_durations m)((c, h) := mt_instance_durations m (c, h) @ [d])\<rparr>
         | ClusterDurations c \<Rightarrow>
             m\<lparr>mt_cluster_durations := (mt_cluster_durations m)(c := mt_cluster_durations m c @ [d])\<rparr>)"

definition StartInstanceDiscovery :: "int \<Rightarrow> string \<Rightarrow> string \<Rightarrow> timeTransaction" where
  "StartInstanceDiscovery now clusterName hostname = Start now (InstanceDurations clusterName hostname)"

definition StartClusterDiscovery :: "int \<Rightarrow> string \<Rightarrow> timeTransaction" where
  "StartClusterDiscovery now clusterName = Start now (ClusterDurations clusterName)"

definition SetShardCriticalLevel :: "string \<Rightarrow> string \<Rightarrow> int \<Rightarrow> metrics \<Rightarrow> metrics" where
  "SetShardCriticalLevel clusterName uuid level m =
     m\<lparr>mt_critical_level := (mt_critical_level m)((clusterName, uuid) \<mapsto> f64_of_int level)\<rparr>"

definition SetShardState :: "string \<Rightarrow> string \<Rightarrow> string \<Rightarrow> bool \<Rightarrow> metrics \<Rightarrow> metrics" where
  "SetShardState clusterName uuid state active m =
     (let v = (if active then f64_of_int 1 else f64_of_int 0)
      in m\<lparr>mt_shard_state := (mt_shard_state m)((clusterName, uuid, state) \<mapsto> v)\<rparr>)"

definition RecordDiscoveryError :: "metrics \<Rightarrow> metrics" where
  "RecordDiscoveryError m = m\<lparr>mt_discovery_errors := mt_discovery_errors m + 1\<rparr>"

definition RecordDiscoveredShardState :: "string \<Rightarrow> string \<Rightarrow> string \<Rightarrow> metrics \<Rightarrow> metrics" where
  "RecordDiscoveredShardState clusterName shardUUID state m =
     m\<lparr>mt_shard_events := (mt_shard_events m)
        ((clusterName, shardUUID, state) := mt_shard_events m (clusterName, shardUUID, state) + 1)\<rparr>"

section \<open>The gauges of an analysis\<close>

text \<open>The calls the goroutine of a replica set makes after it has sent its analysis.\<close>

definition shard_states :: "string \<Rightarrow> ReplicationAnalysis \<Rightarrow> (metrics \<Rightarrow> metrics) list" where
  "shard_states clusterName analysis =
     map (\<lambda>state. SetShardState clusterName (set_UUID (an_Set analysis)) (state_string state) (state = an_State analysis))
       ReplicaSetStateEnum"

lemma state_string_eq_iff: "state_string a = state_string b \<longleftrightarrow> a = b"
  by (cases a; cases b) simp_all

lemma in_ReplicaSetStateEnum: "s \<in> set ReplicaSetStateEnum"
  by (cases s) (simp_all add: ReplicaSetStateEnum_def)

lemma fold_SetShardState: "mt_shard_state (fold (\<lambda>f. f) (map (\<lambda>state. SetShardState c u (state_string state) (P state)) states) m) (c', u', k) =
    (if c' = c \<and> u' = u \<and> k \<in> state_string ` set states
     then Some (f64_of_int (if \<exists>s. state_string s = k \<and> P s then 1 else 0)) else mt_shard_state m (c', u', k))"
  by (induction states arbitrary: m) (auto simp: SetShardState_def Let_def state_string_eq_iff)

text \<open>When the goroutine of an analysis is done, and no other interferes, exactly the gauge of the
  diagnosed state is 1 and the gauges of the nine other states are 0; the gauges of other replica
  sets and clusters are as they were.\<close>

theorem shard_states_exact:
  "mt_shard_state (fold (\<lambda>f. f) (shard_states c a) m) (c', u', state_string s) =
     (if c' = c \<and> u' = set_UUID (an_Set a)
      then Some (f64_of_int (if s = an_State a then 1 else 0)) else mt_shard_state m (c', u', state_string s))"
  unfolding shard_states_def fold_SetShardState
  by (simp add: in_ReplicaSetStateEnum state_string_eq_iff)

text \<open>But the goroutines of two analyses of one replica set may overlap, and then two states can remain
  at 1.\<close>

lemma append_in_shuffles: "ys @ xs \<in> shuffles xs ys"
proof (induction ys)
  case (Cons y ys)
  then show ?case by (simp add: Cons_in_shuffles_rightI)
qed simp

theorem shard_states_race:
  assumes "set_UUID (an_Set a) = u" and "set_UUID (an_Set b) = u"
    and "an_State a = DeadMaster" and "an_State b = NoProblem"
  shows "\<exists>calls \<in> shuffles (shard_states c a) (shard_states c b).
     mt_shard_state (fold (\<lambda>f. f) calls m) (c, u, ''DeadMaster'') = Some (f64_of_int 1) \<and>
     mt_shard_state (fold (\<lambda>f. f) calls m) (c, u, ''NoProblem'') = Some (f64_of_int 1)"
proof -
  let ?xs = "shard_states c a" and ?ys = "shard_states c b"
  let ?calls = "hd ?xs # ?ys @ tl ?xs"
  have xs: "?xs = hd ?xs # tl ?xs" by (simp add: shard_states_def ReplicaSetStateEnum_def)
  have "?ys @ tl ?xs \<in> shuffles (tl ?xs) ?ys" by (rule append_in_shuffles)
  then have "?calls \<in> shuffles ?xs ?ys" by (subst xs) (rule Cons_in_shuffles_leftI)
  moreover have "mt_shard_state (fold (\<lambda>f. f) ?calls m) (c, u, ''DeadMaster'') = Some (f64_of_int 1) \<and>
     mt_shard_state (fold (\<lambda>f. f) ?calls m) (c, u, ''NoProblem'') = Some (f64_of_int 1)"
    using assms by (simp add: shard_states_def ReplicaSetStateEnum_def SetShardState_def Let_def)
  ultimately show ?thesis by blast
qed

section \<open>The metrics of a discovery\<close>

text \<open>
  cluster.go, \<open>Discover\<close> and \<open>discoverInstance\<close>, as far as they record.  \<open>t0\<close> and \<open>t1\<close> are the times a
  transaction starts and ends at.  The goroutines of the instances record in some order, \<open>ord\<close>.
\<close>

definition discoverInstance_metrics :: "string \<Rightarrow> int \<Rightarrow> int \<Rightarrow> (string \<Rightarrow> tnt_result) \<Rightarrow> Instance \<Rightarrow> metrics \<Rightarrow> metrics" where
  "discoverInstance_metrics name t0 t1 exec inst m =
     (let txn = StartInstanceDiscovery t0 name (inst_URI inst);
          resp = exec (inst_URI inst);
          m = (if res_Error resp \<noteq> None then RecordDiscoveryError m
               else case ParseInstanceInfo (res_Data resp) of
                      Inl _ \<Rightarrow> RecordDiscoveryError m
                    | Inr _ \<Rightarrow> m)
      in End t1 txn m)"

definition set_metrics :: "probe \<Rightarrow> string \<Rightarrow> (string \<rightharpoonup> string) \<Rightarrow> Snapshot \<Rightarrow> (ReplicaSetUUID \<Rightarrow> nat \<Rightarrow> int \<times> int)
    \<Rightarrow> ReplicaSetUUID \<times> RouterInstanceParameters \<Rightarrow> (metrics \<Rightarrow> metrics) list" where
  "set_metrics pr name rules snapshot clock = (\<lambda>(uuid, master).
     (case set_topology pr rules snapshot uuid master of
        None \<Rightarrow> []
      | Some topology \<Rightarrow>
          map (\<lambda>(i, inst). discoverInstance_metrics name (fst (clock uuid i)) (snd (clock uuid i))
                 (ask_instance pr rules uuid i) inst) (enumerate 0 topology)))"

definition Discover_metrics :: "probe \<Rightarrow> int \<Rightarrow> int \<Rightarrow> (ReplicaSetUUID \<Rightarrow> nat \<Rightarrow> int \<times> int)
    \<Rightarrow> ((metrics \<Rightarrow> metrics) list \<Rightarrow> (metrics \<Rightarrow> metrics) list) \<Rightarrow> Cluster \<Rightarrow> metrics \<Rightarrow> metrics" where
  "Discover_metrics pr t0 t1 clock ord c m =
     (let txn = StartClusterDiscovery t0 (cl_Name c);
          snapshot = Snapshot_Copy (cl_snapshot c);
          rules = cl_rules c
      in End t1 txn
           (case pickUpRandomRouter (pr_pick pr) (sn_Routers snapshot) of
              None \<Rightarrow> m
            | Some router \<Rightarrow>
                let resp = response (pr_codes pr) (pr_router pr (pool_key rules (rt_URI router)))
                in if res_Error resp \<noteq> None then RecordDiscoveryError m
                   else case ParseRouterInfo (res_Data resp) of
                     Inl _ \<Rightarrow> RecordDiscoveryError m
                   | Inr updatedRI \<Rightarrow>
                       let m = fold (\<lambda>f. f) (ord (concat (map (set_metrics pr (cl_Name c) rules snapshot clock)
                                                        (ri_ReplicaSets updatedRI)))) m;
                           discovered = pr_order pr
                             (List.map_filter (discoverSet pr rules snapshot) (ri_ReplicaSets updatedRI))
                       in fold (\<lambda>rs. SetShardCriticalLevel (cl_Name c) (set_UUID rs) (fst (HealthStatus rs)))
                            discovered m))"

text \<open>How many errors a recording adds, and that it adds them whatever was recorded before.\<close>

definition errors_of :: "(metrics \<Rightarrow> metrics) \<Rightarrow> nat" where
  "errors_of f = mt_discovery_errors (f no_metrics)"

definition counts :: "(metrics \<Rightarrow> metrics) \<Rightarrow> bool" where
  "counts f \<longleftrightarrow> (\<forall>m. mt_discovery_errors (f m) = mt_discovery_errors m + errors_of f)"

lemma recording_simps [simp]:
  "mt_discovery_errors (End t txn m) = mt_discovery_errors m"
  "mt_discovery_errors (RecordDiscoveryError m) = Suc (mt_discovery_errors m)"
  "mt_discovery_errors (SetShardCriticalLevel c u l m) = mt_discovery_errors m"
  "mt_critical_level (End t txn m) = mt_critical_level m"
  "mt_critical_level (SetShardCriticalLevel c u l m) = (mt_critical_level m)((c, u) \<mapsto> f64_of_int l)"
  "mt_discovery_errors no_metrics = 0"
  by (simp_all add: End_def RecordDiscoveryError_def SetShardCriticalLevel_def Let_def no_metrics_def
      split: summary.split)

lemma discoverInstance_metrics_errors:
  "mt_discovery_errors (discoverInstance_metrics name t0 t1 exec inst m) =
     mt_discovery_errors m + (if inst_LastCheckValid (discoverInstance exec inst) then 0 else 1)"
  by (auto simp: discoverInstance_metrics_def discoverInstance_def Let_def split: option.split sum.split)

lemma fold_counts:
  "list_all counts fs \<Longrightarrow> mt_discovery_errors (fold (\<lambda>f. f) fs m) = mt_discovery_errors m + sum_list (map errors_of fs)"
  by (induction fs arbitrary: m) (simp_all add: counts_def)

lemma fold_counts_perm:
  assumes "mset gs = mset fs" and "list_all counts fs"
  shows "mt_discovery_errors (fold (\<lambda>f. f) gs m) = mt_discovery_errors m + sum_list (map errors_of fs)"
proof -
  have "list_all counts gs" using assms by (metis list_all_iff mset_eq_setD)
  moreover have "sum_list (map errors_of gs) = sum_list (map errors_of fs)"
    using assms(1) by (metis mset_map sum_mset_sum_list)
  ultimately show ?thesis by (simp add: fold_counts)
qed

text \<open>The instances of a discovered set that did not answer.\<close>

definition failed_instances :: "ReplicaSet \<Rightarrow> nat" where
  "failed_instances rs = length (filter (\<lambda>i. \<not> inst_LastCheckValid i) (set_Instances rs))"

lemma sum_list_if: "(\<Sum>x\<leftarrow>xs. if Q x then 0 else (1::nat)) = length (filter (\<lambda>x. \<not> Q x) xs)"
  by (induction xs) simp_all

lemma set_metrics_errors:
  "list_all counts (set_metrics pr name rules snapshot clock um) \<and>
   sum_list (map errors_of (set_metrics pr name rules snapshot clock um)) =
     (case discoverSet pr rules snapshot um of None \<Rightarrow> 0 | Some rs \<Rightarrow> failed_instances rs)"
proof -
  obtain uuid master where um: "um = (uuid, master)" by (cases um)
  have e: "errors_of (discoverInstance_metrics name t0 t1 exec inst) =
      (if inst_LastCheckValid (discoverInstance exec inst) then 0 else 1)" for t0 t1 exec inst
    by (simp add: errors_of_def discoverInstance_metrics_errors)
  have c: "counts (discoverInstance_metrics name t0 t1 exec inst)" for t0 t1 exec inst
    by (simp add: counts_def e discoverInstance_metrics_errors)
  show ?thesis
    by (auto simp: sum_list_if um set_metrics_def discoverSet_def failed_instances_def discoverInstances_def c e list_all_iff
        comp_def case_prod_beta split: option.split)
qed

lemma sum_list_map_filter:
  "sum_list (map (\<lambda>x. case f x of None \<Rightarrow> 0 | Some y \<Rightarrow> g y) xs) = sum_list (map g (List.map_filter f xs))"
  for g :: "'b \<Rightarrow> nat"
  by (induction xs) (simp_all add: List.map_filter_simps split: option.split)

lemma concat_metrics_errors:
  "list_all counts (concat (map (set_metrics pr name rules snapshot clock) ums)) \<and>
   sum_list (map errors_of (concat (map (set_metrics pr name rules snapshot clock) ums))) =
     sum_list (map failed_instances (List.map_filter (discoverSet pr rules snapshot) ums))"
  unfolding sum_list_map_filter[symmetric]
  by (induction ums) (simp_all add: set_metrics_errors)

lemma fold_levels:
  "distinct (map set_UUID rss) \<Longrightarrow> rs \<in> set rss \<Longrightarrow>
   mt_critical_level (fold (\<lambda>rs. SetShardCriticalLevel c (set_UUID rs) (l rs)) rss m) (c, set_UUID rs) =
     Some (f64_of_int (l rs))"
proof (induction rss arbitrary: m)
  case (Cons r rss)
  have frame: "mt_critical_level (fold (\<lambda>rs. SetShardCriticalLevel c (set_UUID rs) (l rs)) rss m) (c, u) =
      mt_critical_level m (c, u)" if "u \<notin> set_UUID ` set rss" for u m
    using that by (induction rss arbitrary: m) auto
  show ?case using Cons by (cases "rs = r") (auto simp: frame)
qed simp

lemma fold_levels_errors:
  "mt_discovery_errors (fold (\<lambda>rs. SetShardCriticalLevel c (set_UUID rs) (l rs)) rss m) = mt_discovery_errors m"
  by (induction rss arbitrary: m) simp_all

text \<open>C38: what a discovery adds to the count of discovery errors: one when the router cannot be asked or
  understood; otherwise one for each instance of the discovered sets that does not answer, in
  whatever order the goroutines record, and none for a set whose replication could not be read.  Then the
  gauge of each discovered set is its health.\<close>

theorem discovery_counts_failures:
  assumes "\<And>fs. mset (ord fs) = mset fs" and "\<And>rss. mset (pr_order pr rss) = mset rss"
  shows "case poll pr (cl_rules c) (Snapshot_Copy (cl_snapshot c)) of
      None \<Rightarrow> mt_discovery_errors (Discover_metrics pr begun ended clock ord c m) =
        mt_discovery_errors m + (if Cluster_Routers c = [] then 0 else 1)
    | Some (ns, discovered) \<Rightarrow>
        mt_discovery_errors (Discover_metrics pr begun ended clock ord c m) =
          mt_discovery_errors m + sum_list (map failed_instances discovered) \<and>
        (distinct (map set_UUID discovered) \<longrightarrow> (\<forall>rs \<in> set discovered.
           mt_critical_level (Discover_metrics pr begun ended clock ord c m) (cl_Name c, set_UUID rs) =
             Some (f64_of_int (fst (HealthStatus rs)))))"
proof -
  let ?sn = "Snapshot_Copy (cl_snapshot c)"
  have sum: "sum_list (map failed_instances (pr_order pr rss)) = sum_list (map failed_instances rss)" for rss
    using assms(2) by (metis mset_map sum_mset_sum_list)
  note fold = fold_counts_perm[OF assms(1) conjunct1[OF concat_metrics_errors]]
  show ?thesis
  proof (cases "pickUpRandomRouter (pr_pick pr) (sn_Routers ?sn)")
    case None
    then show ?thesis
      by (simp add: poll_def Discover_metrics_def Let_def Cluster_Routers_def pickUpRandomRouter_def Snapshot_Copy_def
          split: if_splits)
  next
    case (Some router)
    then have "Cluster_Routers c \<noteq> []"
      by (auto simp: pickUpRandomRouter_def Cluster_Routers_def Snapshot_Copy_def)
    with Some show ?thesis
      by (auto simp: poll_def Discover_metrics_def Let_def fold_levels_errors fold
          conjunct2[OF concat_metrics_errors] sum fold_levels split: sum.split)
  qed
qed

theorem discovery_counts_failures_witness:
  "mt_discovery_errors (Discover_metrics sample_probe 0 0 (\<lambda>_ _. (0, 0)) rev sample_cluster no_metrics) = 0 \<and>
   mt_critical_level (Discover_metrics sample_probe 0 0 (\<lambda>_ _. (0, 0)) rev sample_cluster no_metrics) (''k'', ''s'') =
     Some (f64_of_int (fst (HealthStatus sample_discovered)))"
proof -
  obtain ns where p: "poll sample_probe Map.empty (cl_snapshot sample_cluster) = Some (ns, [sample_discovered])"
    using sample_poll by blast
  moreover have "cl_rules sample_cluster = Map.empty" "cl_Name sample_cluster = ''k''"
    "Snapshot_Copy (cl_snapshot sample_cluster) = cl_snapshot sample_cluster"
    "set_UUID sample_discovered = ''s''" "failed_instances sample_discovered = 0"
    by (simp_all add: sample_cluster_def Snapshot_Copy_def sample_discovered_def failed_instances_def sample_instance_def)
  moreover have "mset (pr_order sample_probe rss) = mset rss" for rss by (simp add: sample_probe_def)
  ultimately show ?thesis
    using discovery_counts_failures[where ord = rev and pr = sample_probe and c = sample_cluster and begun = 0 and ended = 0 and
        clock = "\<lambda>_ _. (0, 0)" and m = no_metrics] by simp
qed

end
