(* ===== verification/Spec2Isabelle.thy ===== *)
theory Spec2Isabelle
  imports Qumomf_Runtime Recovery_Effect Orch_Sorters Qumomf_Process Qumomf_Metrics
begin

text \<open>
  A verification development of qumomf, a failover manager for Tarantool clusters sharded with vshard.

  For every configured cluster the program runs a monitor, which discovers the topology periodically and
  analyses every replica set of it, and a failover, which receives the analyses, elects a new master when
  the present one is dead and sends it and all other nodes the new configuration.  Snapshots and recoveries
  are stored in SQLite and served over HTTP.

  Parts, theories and sources (paths below src/):

  \<^item> Go: \<open>Qumomf_Prelude\<close> (results, search loops), \<open>Go_Float\<close> (float64), \<open>Go_Sort\<close> (the contract of
    sort.Sort, insertion sort), \<open>Go_Sort_Interface\<close> (sorting through Len, Less and Swap), \<open>Go_Strings\<close> (strings, strconv), \<open>Go_Json\<close> (encoding/json on
    trees, the contract \<open>codec\<close> of an encoder and its decoder).
  \<^item> Data, internal/vshard: \<open>Vshard_Instance\<close> (instance.go, alert.go), \<open>Vshard_ReplicaSet\<close>
    (replicaset.go), \<open>Vshard_Snapshot\<close> (snapshot.go, router.go), \<open>Vshard_Parser\<close> (parser.go),
    \<open>Vshard_Json\<close> (the JSON form of all of them and of analyses and recoveries).
  \<^item> Network, internal/vshard: \<open>Vshard_Tarantool\<close> (tarantool.go: connectors and the retry loop),
    \<open>Vshard_Cluster\<close> (cluster.go, mock.go: discovery as a function of what the network answers, and as
    a step relation when discoveries and setters interleave), \<open>Vshard_Pool\<close> (tarantool.go: the pool as a
    step relation of concurrent calls of \<open>Get\<close> and \<open>Close\<close>), \<open>Vshard_Query\<close> (the two Lua programs of
    cluster.go as functions of what they read on the server, and what the parser makes of their answers).
  \<^item> Decisions: \<open>Quorum_Elector\<close> (internal/quorum, contract \<open>elector_contract\<close> of both electors),
    \<open>Orch_Analysis\<close> and \<open>Orch_Monitor\<close> (orchestrator/analysis.go, sampler.go, monitor.go).
  \<^item> Failover, internal/vshard/orchestrator: \<open>Orch_Recovery\<close> (recovery.go, the registry),
    \<open>Orch_Hook\<close> (hook.go), \<open>Orch_Script\<close> (the Lua script), \<open>Orch_Failover\<close> (failover.go,
    instance_utils.go), \<open>Failover_Safety\<close> and \<open>Failover_Run\<close> (one reaction, whole runs),
    \<open>Recovery_Effect\<close> (the Lua script as a function of the node that runs it, and what a trace of queries
    does to a cluster of nodes), \<open>Orch_Sorters\<close> (the sorters of smart.go and instance_utils.go in place),
    \<open>Qumomf_Runtime\<close> (monitor, senders, failover and shutdown of a cluster as interleaving goroutines).
  \<^item> Assembly: \<open>Qumomf_Config\<close> (internal/config), \<open>Qumomf_Coordinator\<close> (internal/coordinator and
    the registration loop of main), \<open>Qumomf_Metrics\<close> (internal/metrics and what a discovery records),
    \<open>Qumomf_Main\<close>
    (cmd/qumomf/main.go: logger, server, start and end, in a straight line), \<open>Qumomf_Process\<close> (main.go: the
    goroutines of main and of the HTTP server, signals, and the ends of the process).
  \<^item> Storage and service: \<open>Storage_Sqlite\<close> (internal/storage, contract \<open>storage_contract\<close>),
    \<open>Storage_Client\<close> (the callbacks of the coordinator), \<open>Qumomf_Api\<close> (internal/api),
    \<open>Qumomf_Http\<close> (internal/qumhttp, contract \<open>service_contract\<close>), \<open>Recovery_Archive\<close> (a
    recovery from the failover to the client).

  State.  The structs of the source are records with the fields of the source under a prefix.  A cluster is
  \<open>Cluster\<close>, a failover \<open>failover\<close>, a monitor \<open>storageMonitor\<close>, the coordinator \<open>Coordinator\<close>, the
  database \<open>sqlite\<close>; operations take and return them.  The goroutine of the failover meets its
  environment one numbered interaction after the other (\<open>env\<close>) and leaves a trace of effects
  (\<open>world\<close>); the network of a discovery is a \<open>probe\<close>; the driver of the database is \<open>db_env\<close>.
  Shared state that several goroutines change (the pool, the snapshot of a cluster, the channels between
  monitor and failover) is an inductive step relation with an invariant proved over its reachable states.  An error is a left summand, a panic is \<open>None\<close>.

  What is shown, by group: what the queries read on the servers is what a discovery reports
  (\<open>replication_discovered\<close>, \<open>same_config_same_fingerprint\<close>, \<open>discovery_counts_failures\<close>); the parser and the JSON
  codecs read back what was written (\<open>ParseRouterInfo_roundtrip\<close>, \<open>stored_snapshot_served\<close>); analyses mean what their states say
  (\<open>analyze_states\<close>, \<open>analyze_counters\<close>); electors elect admissible followers (\<open>smart_elects_best\<close>,
  \<open>idle_elects_least_idle\<close>); monitor and failover together do what their loops do one after the other
  (\<open>runtime_refines_loops\<close>), so a failover only acts on a justified analysis (\<open>queries_justified\<close>), in the
  documented order (\<open>promotion_order\<close>, \<open>checkAndRecover_bracket\<close>), fails without spreading
  (\<open>promotion_fails_safely\<close>), leaves one writer among the nodes it reached (\<open>promotion_leaves_one_writer\<close>),
  demotes a co-master once (\<open>demotion_converges\<close>) and does not repeat a promotion within the block time
  (\<open>no_repeated_promotion\<close>); sorting in place is sorting (\<open>sorting_in_place\<close>); the process starts and stops what
  its straight-line reading says (\<open>process_refines_main\<close>, \<open>signal_ends_process\<close>); concurrent discoveries keep the invariant of a cluster and lose no setting
  (\<open>cluster_invariant\<close>, \<open>settings_not_lost\<close>); the storage refines an archive of snapshots and recoveries
  (\<open>storage_refines_archive\<close>) from which the service answers (\<open>instance_lookup\<close>, \<open>recoveries_served\<close>).
  Where the code fails, the failure is a theorem too: \<open>pool_get_deadlock\<close>, \<open>failover_panics\<close>,
  \<open>smart_less_cycle\<close>, \<open>lost_follower_elected\<close>, \<open>shutdown_waits_for_nobody\<close>, \<open>orderly_shutdown_fatal\<close>, \<open>accepted_config_runs\<close>,
  \<open>last_stored_snapshot\<close>.

  Termination.  Every definition is a total function; loops of the source are structural recursion over what they
  iterate.  The retry loop of \<open>Exec\<close> counts its rounds down from \<open>maxRetries\<close>, two, and returns before or at
  zero; no other fuel is used.  The endless loops of the goroutines run over the list of inputs their
  \<open>select\<close> delivers, of any length.

  Parameters: how a Tarantool server puts Lua integers and tables on the wire (\<open>wire_contract\<close>), the CRC of its
  module digest, what \<open>vshard.storage.cfg\<close>, \<open>vshard.router.cfg\<close> and \<open>box.cfg\<close> do (\<open>vshard_contract\<close>), the outcome of queries, hooks, clock and network (\<open>env\<close>, \<open>probe\<close>), the algorithm of sort.Sort (\<open>sort_contract\<close>, \<open>sort_algorithm\<close>),
  SHA-256, the YAML decoder, time zone formatting, the SQL driver.

  Not modelled: log lines (but for the few of \<open>Qumomf_Process\<close> that report an error), the command line flag, the
  routing of gorilla/mux, the Tarantool driver, help texts and bucket limits of metrics.  All of these are calls of libraries without a decision of the
  program.  Texts of error messages of the parser and the validator are not kept.
\<close>

section \<open>A concrete run\<close>

lemma sample_check:
  "\<exists>r f' w'. checkAndRecover insertion_sort id (sample_env sample_fs) (sample_analysis sample_fs) sample_fo w
     = Some (f', w') \<and> fo_recoveries f' = [r] \<and> fo_recvSetTTL f' = 30 * Minute \<and>
     (\<exists>u l. EvExec u l True \<in> set (drop (length (w_trace w)) (w_trace w')))"
proof -
  let ?env = "sample_env sample_fs" and ?a = "sample_analysis sample_fs"
  obtain s where s: "s = snd (sample id ?a (fo_sampler sample_fo))" by simp
  have st: "fst (getCheckAndRecoveryFunc (an_State ?a)) = Some PromoteFollowerToMaster"
    by (simp add: sample_analysis_def)
  have same: "promoteFollowerToMaster insertion_sort ?env (sample_fo\<lparr>fo_sampler := s\<rparr>) ?a v =
      promoteFollowerToMaster insertion_sort ?env sample_fo ?a v" for v
    by (simp add: promote_unfold cong: if_cong)
  obtain r w1 where p: "run_recovery insertion_sort ?env (sample_fo\<lparr>fo_sampler := s\<rparr>) PromoteFollowerToMaster ?a
      ((emit EvStartRecovery w)\<lparr>w_active := True\<rparr>) = Some ([r], w1)" and ok: "rv_IsSuccessful r"
    using sample_promotion[of "(emit EvStartRecovery w)\<lparr>w_active := True\<rparr>"] same
    by (auto simp: run_recovery_def)
  from checkAndRecover_returns[OF st p[unfolded s]] obtain f' w' where
    c: "checkAndRecover insertion_sort id ?env ?a sample_fo w = Some (f', w')"
    and r: "fo_recoveries f' = [r]" by auto
  have "\<exists>u l. EvExec u l True \<in> set (drop (length (w_trace w)) (w_trace w'))"
    using c
  proof (cases rule: checkAndRecover_cases)
    case no_action
    with st show ?thesis by simp
  next
    case (recovered rf w0 recs w2)
    with st r ok have recs: "recs = [r]" and "promoteFollowerToMaster insertion_sort ?env (sample_fo\<lparr>fo_sampler := s\<rparr>) ?a w0 = Some (recs, w2)"
      by (auto simp: s run_recovery_def)
    from this(2) show ?thesis
    proof (cases rule: promote_result)
      case (attempted n r' hooks es)
      with recs ok obtain c n' where "promotion_execs insertion_sort ?env
          (generateRecoveryLua (set_UUID (an_Set ?a)) c) c n' True es" by auto
      then obtain inst :: Instance and es' where "es = EvExec (inst_URI inst) (generateRecoveryLua (set_UUID (an_Set ?a)) c) True # es'"
        by (rule promotion_execs_trueE) (rule that)
      with attempted(6) recovered(2,7)
      have "EvExec (inst_URI inst) (generateRecoveryLua (set_UUID (an_Set ?a)) c) True
          \<in> set (drop (length (w_trace w)) (w_trace w'))" by simp
      then show ?thesis by (intro exI)
    qed (use recs in simp)
  qed
  moreover have "fo_recvSetTTL f' = 30 * Minute" using checkAndRecover_frame[OF c] by simp
  ultimately show ?thesis using c r by blast
qed

lemma Second_pos: "0 < Second"
  by simp

lemma elector_New_contract:
  assumes "sort_contract srt" and "elector_New srt mode opts = Some elect"
  shows "elector_contract elect"
proof -
  consider "elect = idle_ChooseMaster opts" | "elect = smart_ChooseMaster srt opts"
    using assms(2) by (auto simp: elector_New_def split: if_splits)
  then show ?thesis
    by cases (use smart_elector_contract[OF assms(1)] idle.elector_contract_axioms in simp_all)
qed

section \<open>Properties across components\<close>

text \<open>
  When the set \<open>rs\<close> justifies sending the script \<open>l\<close> to \<open>u\<close>.  Either its master did not answer and no
  follower that answered is replicating, and the script makes an alive follower with a priority that is
  not negative the master; or the master answered, some follower claims to be master too, and the
  script that keeps the present master is sent to a follower whose configuration differs from the
  master's.
\<close>

definition justified :: "ReplicaSet \<Rightarrow> string \<Rightarrow> string \<Rightarrow> bool" where
  "justified rs u l \<longleftrightarrow> (\<exists>m. Master rs = Inr m \<and>
     (if inst_LastCheckValid m
      then l = generateRecoveryLua (set_UUID rs) (set_MasterUUID rs) \<and>
        (\<exists>i \<in> set (Followers rs). claims_master i) \<and>
        (\<exists>i \<in> set (Followers rs). u = inst_URI i \<and> inst_VShardFingerprint i \<noteq> inst_VShardFingerprint m)
      else (\<forall>i \<in> set (Followers rs). \<not> replicating i) \<and>
        (\<exists>c \<in> set (AliveFollowers rs). inst_UUID c \<noteq> set_MasterUUID rs \<and> 0 \<le> inst_Priority c \<and>
           l = generateRecoveryLua (set_UUID rs) (inst_UUID c))))"

lemma serve_queries_justified:
  assumes "sort_contract srt" and "elector_New srt mode opts = Some (fo_elector f)"
    and "\<forall>a. AnalysisReceived a \<in> set inputs \<longrightarrow> (\<exists>rs. P rs \<and> analyze rs = Some a)"
    and "serve srt sha env inputs f w = Some (f', w')"
  shows "\<forall>u l ok. EvExec u l ok \<in> set (drop (length (w_trace w)) (w_trace w')) \<longrightarrow>
     (\<exists>rs a. P rs \<and> analyze rs = Some a \<and> justified rs u l)"
proof -
  let ?J = "\<lambda>u l. \<exists>rs a. P rs \<and> analyze rs = Some a \<and> justified rs u l"
  have el: "elector_contract (fo_elector f)"
    using assms(1,2) by (rule elector_New_contract)
  have step: "?J u l" if i: "input \<in> set inputs" and s: "serve_one srt sha env input f1 w1 = Some (f2, w2)"
    and e: "fo_elector f1 = fo_elector f" and x: "EvExec u l ok \<in> set (drop (length (w_trace w1)) (w_trace w2))"
    for input f1 w1 f2 w2 u l ok
    using s
  proof (cases rule: serve_one_cases)
    case (cleaned alive)
    with cleanup_frame[OF cleaned(2)] x show ?thesis by simp
  next
    case (handled a)
    with i have a: "AnalysisReceived a \<in> set inputs" by simp
    with assms(3) obtain rs where rs: "P rs" "analyze rs = Some a" by blast
    from rs(2) obtain m where m: "Master rs = Inr m" "an_Set a = rs" "an_State a = diagnosis m (Followers rs)"
      by (rule analyze_Some) (simp add: decide_state_diagnosis)
    have mz: "Master_or_zero rs = m" using m(1) by (simp add: Master_or_zero_def)
    have "EvExec u l ok \<in> set (drop (length (w_trace (tick w1))) (w_trace w2))" using x by simp
    from checkAndRecover_queries[OF handled(2) this] e m(2) mz
    consider (promote) c where "an_State a \<in> {DeadMaster, DeadMasterAndSomeFollowers}"
        "fo_elector f rs = Some (Inr c)" "l = generateRecoveryLua (set_UUID rs) c"
      | (demote) "an_State a = MasterMasterReplication" "l = generateRecoveryLua (set_UUID rs) (set_MasterUUID rs)"
        "\<exists>i \<in> set (Followers rs). u = inst_URI i \<and> inst_VShardFingerprint i \<noteq> inst_VShardFingerprint m"
      by auto
    then show ?thesis
    proof cases
      case promote
      then have d: "\<not> inst_LastCheckValid m" "\<forall>i \<in> set (Followers rs). \<not> replicating i"
        using m(3) by (auto simp: diagnosis_def split: if_splits)
      from elector_contract.elected[OF el promote(2)] elector_contract.never_the_master[OF el promote(2)]
      obtain ci where "ci \<in> set (AliveFollowers rs)" "inst_UUID ci = c" "0 \<le> inst_Priority ci" "c \<noteq> set_MasterUUID rs"
        by blast
      with d a rs m(1) promote(3) have "justified rs u l" unfolding justified_def by (intro exI[of _ m]) auto
      with a rs show ?thesis by blast
    next
      case demote
      then have "inst_LastCheckValid m" "\<exists>i \<in> set (Followers rs). claims_master i"
        using m(3) by (auto simp: diagnosis_def split: if_splits)
      with demote(2,3) a rs m(1) have "justified rs u l" unfolding justified_def by (intro exI[of _ m]) auto
      with a rs show ?thesis by blast
    qed
  qed (use x in simp)
  have "\<forall>e \<in> set (drop (length (w_trace w)) (w_trace w')). \<forall>u l ok. e = EvExec u l ok \<longrightarrow> ?J u l"
    by (rule serve_new_events[OF assms(4), where I = "\<lambda>f1 w1. fo_elector f1 = fo_elector f" and n = "w_io w'"])
      (use step serve_one_frame in \<open>fastforce+\<close>)
  then show ?thesis by blast
qed

lemma sample_serve:
  "\<exists>f' w' u l. serve insertion_sort id (sample_env sample_fs) [AnalysisReceived (sample_analysis sample_fs)] sample_fo world0
     = Some (f', w') \<and> EvExec u l True \<in> set (drop (length (w_trace world0)) (w_trace w'))"
proof -
  have s: "shouldBeAnalysisChecked (sample_env sample_fs) world0"
    by (simp add: shouldBeAnalysisChecked_def world0_def)
  from sample_check[of "tick world0"] obtain r f' w' u l where
    "checkAndRecover insertion_sort id (sample_env sample_fs) (sample_analysis sample_fs) sample_fo (tick world0)
       = Some (f', w')" "EvExec u l True \<in> set (drop (length (w_trace (tick world0))) (w_trace w'))" by blast
  with s show ?thesis by (intro exI[of _ f'] exI[of _ w'] exI[of _ u] exI[of _ l]) (simp add: serve_one_def)
qed

text \<open>C1: whatever goroutines of a cluster do and however they interleave, every query the failover sends is
  justified by a replica set the monitor found in the cluster on one of its ticks and analysed.\<close>

theorem queries_justified:
  assumes "sort_contract srt" and "elector_New srt mode opts = Some (fo_elector f)"
    and "rt_run srt sha env start (rt_init m f w tasks) acts s"
  shows "\<forall>u l ok. EvExec u l ok \<in> set (drop (length (w_trace w)) (w_trace (rt_world s))) \<longrightarrow>
     (\<exists>now c1 c2 rs a. RecoveryTick now c1 c2 \<in> set (mon_inputs acts) \<and> rs \<in> set (Cluster_ReplicaSets c2) \<and>
        analyze rs = Some a \<and> justified rs u l)"
proof -
  let ?P = "\<lambda>rs. \<exists>now c1 c2. RecoveryTick now c1 c2 \<in> set (mon_inputs acts) \<and> rs \<in> set (Cluster_ReplicaSets c2)"
  obtain inputs where "serve srt sha env inputs f w = Some (rt_fo s, rt_world s)"
    "\<forall>a. AnalysisReceived a \<in> set inputs \<longrightarrow> (\<exists>rs. ?P rs \<and> analyze rs = Some a)"
    by (rule refines_received[OF rt_run_refines[OF assms(3) refines_init]]) (simp add: rt_init_def, blast)
  from serve_queries_justified[OF assms(1,2) this(2,1)] show ?thesis by blast
qed

theorem queries_justified_witness:
  "\<exists>s u l. rt_run insertion_sort id (sample_env sample_fs) 0 sample_start
       [MonInput (RecoveryTick 20 sample_seen sample_seen), FoReceives, FoReturns] s \<and>
     EvExec u l True \<in> set (w_trace (rt_world s)) \<and> (\<exists>rs \<in> set (Cluster_ReplicaSets sample_seen). justified rs u l)"
proof -
  from sample_busy obtain s where s: "rt_run insertion_sort id (sample_env sample_fs) 0 sample_start
       [MonInput (RecoveryTick 20 sample_seen sample_seen), FoReceives] s"
     "rt_pc s = FoBusy (sample_analysis sample_fs)" "rt_fo s = sample_fo" "rt_world s = world0" by blast
  from sample_check[of "tick world0"] obtain f' w' u l where
    c: "checkAndRecover insertion_sort id (sample_env sample_fs) (sample_analysis sample_fs) (rt_fo s) (tick (rt_world s))
       = Some (f', w')" and x: "EvExec u l True \<in> set (drop (length (w_trace (tick world0))) (w_trace w'))"
    unfolding s(3,4) by blast
  let ?s = "s\<lparr>rt_fo := f', rt_world := w', rt_pc := FoSelect\<rparr>"
  have r: "rt_run insertion_sort id (sample_env sample_fs) 0 sample_start
      [MonInput (RecoveryTick 20 sample_seen sample_seen), FoReceives, FoReturns] ?s"
    using rt_snoc[OF s(1) returns[OF s(2) c]] by simp
  have e: "elector_New insertion_sort ModeSmart no_limits = Some (fo_elector sample_fo)" by (simp add: elector_New_def)
  have "\<exists>rs \<in> set (Cluster_ReplicaSets sample_seen). justified rs u l"
    using queries_justified[OF insertion_sort_contract e r[unfolded sample_start_def]] x
    by (auto simp: mon_inputs_def map_filter_simps world0_def)
  moreover have "EvExec u l True \<in> set (w_trace (rt_world ?s))" using in_set_dropD[OF x] by simp
  ultimately show ?thesis using r by blast
qed

text \<open>C3: after an attempted promotion of a replica set, successful or not, no reaction to any later
  analysis, and no clean-up in between, lets another promotion of this replica set begin before
  the configured block time has passed since the first one was considered.\<close>

theorem no_repeated_promotion:
  assumes "clock_mono env" and "checkAndRecover srt sha env a f w = Some (f1, w1)"
    and "an_State a \<in> {DeadMaster, DeadMasterAndSomeFollowers}" and "fo_recoveries f1 \<noteq> fo_recoveries f"
    and "serve srt sha env inputs f1 w1 = Some (f2, w2)"
    and "env_now env (w_io w2) \<le> env_now env (w_io w) + fo_recvSetTTL f"
  shows "\<forall>r. EvRegistered r \<in> set (drop (length (w_trace w1)) (w_trace w2)) \<and> rv_Scope r = RecoveryScopeSet \<longrightarrow>
     rv_SetUUID r \<noteq> set_UUID (an_Set a)"
proof -
  let ?T = "(env_now env (w_io w) + fo_recvSetTTL f) div Second"
  let ?I = "\<lambda>f w. blocks_until (set_UUID (an_Set a)) ?T (fo_recoveries f)"
  have now: "\<forall>n < k. env_now env n div Second \<le> ?T" if "k \<le> w_io w2" for k
    using clock_seconds[OF assms(1)] zdiv_mono1[OF assms(6), of Second] that
    by (meson Second_pos less_imp_le order_trans)
  have "\<forall>e \<in> set (drop (length (w_trace w1)) (w_trace w2)).
      \<forall>r. e = EvRegistered r \<and> rv_Scope r = RecoveryScopeSet \<longrightarrow> rv_SetUUID r \<noteq> set_UUID (an_Set a)"
  proof (rule serve_new_events[OF assms(5), where I = ?I and n = "w_io w2"])
    show "?I f1 w1" by (rule checkAndRecover_attempted[OF assms(2,4,3,1)])
  qed (use serve_one_blocked now in blast)+
  then show ?thesis by blast
qed

lemma sample_check_again:
  assumes "blocks_until ''s'' 1900 (fo_recoveries f)" and "\<not> w_active w"
  shows "\<exists>f' w'. serve insertion_sort id (sample_env sample_fs) [AnalysisReceived (sample_analysis sample_fs)] f w
     = Some (f', w')"
proof -
  let ?env = "sample_env sample_fs" and ?a = "sample_analysis sample_fs"
  let ?f = "f\<lparr>fo_sampler := snd (sample id ?a (fo_sampler f))\<rparr>"
  let ?w = "(emit EvStartRecovery (tick w))\<lparr>w_active := True\<rparr>"
  have set: "set_UUID (an_Set ?a) = ''s''" by (simp add: sample_analysis_def sample_set_def)
  from assms(1) obtain b where "b \<in> set (fo_recoveries ?f)" "ScopeKey b = ''s''" "1900 \<le> rv_Expiration b"
    by (auto simp: blocks_until_def)
  then have "fst (hasBlockedRecovery ?env (fo_recoveries ?f) ''s'' ?w)"
    by (intro hasBlockedRecovery_blocks) auto
  then obtain v where h: "hasBlockedRecovery ?env (fo_recoveries ?f) ''s'' ?w = (True, v)"
    by (metis prod.collapse)
  have "promoteFollowerToMaster insertion_sort ?env ?f ?a ?w = Some ([], v)"
    unfolding promote_unfold set Let_def h by simp
  then have "run_recovery insertion_sort ?env ?f PromoteFollowerToMaster ?a ?w = Some ([], v)"
    by (simp add: run_recovery_def)
  from checkAndRecover_returns[OF _ this] obtain f' w' where
    "checkAndRecover insertion_sort id ?env ?a f (tick w) = Some (f', w')"
    by (auto simp: sample_analysis_def)
  with assms(2) show ?thesis
    by (intro exI[of _ f'] exI[of _ w']) (simp add: serve_one_def shouldBeAnalysisChecked_def)
qed

theorem no_repeated_promotion_witness:
  "\<exists>f1 w1 f2 w2. checkAndRecover insertion_sort id (sample_env sample_fs) (sample_analysis sample_fs) sample_fo world0
       = Some (f1, w1) \<and> fo_recoveries f1 \<noteq> [] \<and>
     serve insertion_sort id (sample_env sample_fs) [AnalysisReceived (sample_analysis sample_fs)] f1 w1 = Some (f2, w2) \<and>
     (\<forall>r. EvRegistered r \<in> set (drop (length (w_trace w1)) (w_trace w2)) \<and> rv_Scope r = RecoveryScopeSet \<longrightarrow>
        rv_SetUUID r \<noteq> ''s'')"
proof -
  let ?env = "sample_env sample_fs" and ?a = "sample_analysis sample_fs"
  obtain r f1 w1 where c: "checkAndRecover insertion_sort id ?env ?a sample_fo world0 = Some (f1, w1)"
    and f1: "fo_recoveries f1 = [r]"
    using sample_check[of world0] by blast
  have st: "an_State ?a \<in> {DeadMaster, DeadMasterAndSomeFollowers}" "set_UUID (an_Set ?a) = ''s''"
    by (simp_all add: sample_analysis_def sample_set_def)
  have ne: "fo_recoveries f1 \<noteq> fo_recoveries sample_fo" using f1 by simp
  have b: "blocks_until ''s'' 1900 (fo_recoveries f1)"
    using checkAndRecover_attempted[OF c ne st(1) sample_clock] st(2) by simp
  have "\<not> w_active w1"
    using c by (cases rule: checkAndRecover_cases) (simp_all add: world0_def)
  from sample_check_again[OF b this] obtain f2 w2 where
    s: "serve insertion_sort id ?env [AnalysisReceived ?a] f1 w1 = Some (f2, w2)" by blast
  from no_repeated_promotion[OF sample_clock c st(1) ne s] have
    "\<forall>r. EvRegistered r \<in> set (drop (length (w_trace w1)) (w_trace w2)) \<and> rv_Scope r = RecoveryScopeSet \<longrightarrow>
        rv_SetUUID r \<noteq> ''s''" by (simp add: st(2))
  with c s f1 show ?thesis
    by (intro exI[of _ f1] exI[of _ w1] exI[of _ f2] exI[of _ w2]) simp
qed

text \<open>C4: a promotion sends nothing before it has a candidate that the configured elector chose from
  the alive followers of the analysed set and that, in the cluster as it is known at that moment,
  is not ahead of the master and follows or runs; what it sends first goes to this candidate.\<close>

theorem promotion_guarded:
  assumes "sort_contract srt" and "elector_New srt mode opts = Some (fo_elector f)"
    and "promoteFollowerToMaster srt env f a w = Some (recs, w')"
    and "queries (drop (length (w_trace w)) (w_trace w')) = q # qs"
  shows "\<exists>c n inst u ok. (\<exists>i \<in> set (AliveFollowers (an_Set a)). inst_UUID i = c \<and> 0 \<le> inst_Priority i) \<and>
     c \<noteq> set_MasterUUID (an_Set a) \<and> w_io w \<le> n \<and> Cluster_Instance (env_cluster env n) c = Inr inst \<and>
     0 \<le> inst_LSNBehindMaster inst \<and> inst_Upstream inst = Some u \<and>
     up_Status u \<in> {UpstreamFollow, UpstreamRunning} \<and>
     q = (inst_URI inst, generateRecoveryLua (set_UUID (an_Set a)) c, ok)"
  using assms(3)
proof (cases rule: promote_result)
  case blocked
  with assms(4) show ?thesis by simp
next
  case (attempted n r hooks es)
  from assms(4) attempted(6) queries_pre_hooks[OF attempted(7)] have q: "queries es = q # qs" by simp
  with attempted(8) obtain c n' where c: "fo_elector f (an_Set a) = Some (Inr c)" "n \<le> n'"
    and p: "promotion_execs srt env (generateRecoveryLua (set_UUID (an_Set a)) c) c n' (rv_IsSuccessful r) es" by auto
  from p q obtain inst ok where i: "Cluster_Instance (env_cluster env n') c = Inr inst"
    "shouldPromoteFollower inst = Some True" "q = (inst_URI inst, generateRecoveryLua (set_UUID (an_Set a)) c, ok)"
    by (cases rule: promotion_execs.cases) auto
  from i(2) obtain u where u: "0 \<le> inst_LSNBehindMaster inst" "inst_Upstream inst = Some u"
    "up_Status u \<in> {UpstreamFollow, UpstreamRunning}"
    by (auto simp: shouldPromoteFollower_def split: option.splits if_splits)
  note el = elector_New_contract[OF assms(1,2)]
  from elector_contract.elected[OF el c(1)] elector_contract.never_the_master[OF el c(1)] i(1,3) u c(2) attempted(2)
  show ?thesis
    by (intro exI[of _ c] exI[of _ n'] exI[of _ inst] exI[of _ u] exI[of _ ok]) auto
qed

theorem promotion_guarded_witness:
  "\<exists>r w' q qs. promoteFollowerToMaster insertion_sort (sample_env sample_fs) sample_fo (sample_analysis sample_fs) world0
      = Some ([r], w') \<and> queries (w_trace w') = q # qs \<and>
     (\<exists>inst ok c. q = (inst_URI inst, generateRecoveryLua ''s'' c, ok) \<and> 0 \<le> inst_LSNBehindMaster (inst :: Instance))"
proof -
  have set: "set_UUID (an_Set (sample_analysis sample_fs)) = ''s''"
    by (simp add: sample_analysis_def sample_set_def)
  obtain r w' where p: "promoteFollowerToMaster insertion_sort (sample_env sample_fs) sample_fo
      (sample_analysis sample_fs) world0 = Some ([r], w')" "rv_IsSuccessful r"
    using sample_promotion by blast
  have "queries (w_trace w') \<noteq> []"
    using p(1)
  proof (cases rule: promote_result)
    case (attempted n r' hooks es)
    with p(2) obtain c n' where "promotion_execs insertion_sort (sample_env sample_fs)
        (generateRecoveryLua (set_UUID (an_Set (sample_analysis sample_fs))) c) c n' True es" by auto
    then have "queries es \<noteq> []" by (auto elim!: promotion_execs_trueE)
    with attempted(6) show ?thesis by simp
  qed simp
  then obtain q qs where q: "queries (w_trace w') = q # qs" by (cases "queries (w_trace w')") auto
  from promotion_guarded[OF insertion_sort_contract _ p(1), of ModeSmart no_limits q qs] q
  obtain c and inst :: Instance and ok where "q = (inst_URI inst, generateRecoveryLua ''s'' c, ok)" "0 \<le> inst_LSNBehindMaster inst"
    by (auto simp: elector_New_def world0_def set)
  with p q show ?thesis by blast
qed

text \<open>C37: a follower without upstream data makes the failover panic: it counts as alive by its
  downstream, the idle elector prefers it because its idle time counts as zero, and the check of
  the elected candidate dereferences the missing upstream.\<close>

theorem failover_panics:
  "let a = zero_Instance\<lparr>inst_UUID := ''a'', inst_LastCheckValid := True,
         inst_Downstream := Some \<lparr>down_Status = ''follow''\<rparr>\<rparr>;
       rs = sample_set [a, sample_follower ''b'' 7]
   in AliveFollowers rs = [a, sample_follower ''b'' 7] \<and>
      idle_ChooseMaster no_limits rs = Some (Inr ''a'') \<and>
      (\<exists>an. analyze rs = Some an \<and>
        checkAndRecover insertion_sort id (sample_env [a, sample_follower ''b'' 7]) an
          (sample_failover (idle_ChooseMaster no_limits)) world0 = None)"
proof -
  let ?a = "zero_Instance\<lparr>inst_UUID := ''a'', inst_LastCheckValid := True,
         inst_Downstream := Some \<lparr>down_Status = ''follow''\<rparr>\<rparr>"
  let ?fs = "[?a, sample_follower ''b'' 7]"
  let ?env = "sample_env ?fs"
  have al: "AliveFollowers (sample_set ?fs) = ?fs"
    by (simp add: AliveFollowers_eq sample_set_def alive_follower_iff zero_Instance_def)
  have el: "idle_ChooseMaster no_limits (sample_set ?fs) = Some (Inr ''a'')"
    unfolding idle_ChooseMaster_def al filter_candidates_def
    by (simp add: admissible_iff no_limits_def Idle_def MaxFloat64_def zero_Instance_def Let_def)
  have "Followers (sample_set ?fs) = ?fs" by (simp add: Followers_eq sample_set_def zero_Instance_def)
  then obtain an where an: "analyze (sample_set ?fs) = Some an" "an_Set an = sample_set ?fs" "an_State an = DeadMaster"
    by (simp add: analyze_def sample_Master Let_def tally_step_def tally_status_def
        tally0_def decide_state_def sample_follower_def zero_Instance_def zero_StorageInfo_def)
  have inst: "Cluster_Instance (failover_cluster ?fs) ''a'' = Inr ?a"
    by (simp add: Cluster_Instance_def failover_cluster_def sample_set_def zero_Instance_def)
  have "shouldPromoteFollower ?a = None" by (simp add: shouldPromoteFollower_def zero_Instance_def)
  then have "promoteFollowerToMaster insertion_sort ?env
      (sample_failover (idle_ChooseMaster no_limits)\<lparr>fo_sampler := s\<rparr>) an v = None" for s v
    by (simp add: promote_unfold an(2) ExecuteProcesses_def el promote_elected_def inst Let_def cong: if_cong)
  then have "checkAndRecover insertion_sort id ?env an (sample_failover (idle_ChooseMaster no_limits)) world0 = None"
    by (simp add: checkAndRecover_def an(3) run_recovery_def)
  with al el an(1) show ?thesis by (simp add: Let_def)
qed

text \<open>When a configuration is accepted, every cluster in it is registered with a monitor and a
  failover.  But nothing checks the poll times: the monitors panic when they start if one of
  the two times is not positive, and only then.\<close>

theorem accepted_config_runs:
  assumes "Setup read decode = Some (Inr cfg)"
    and "\<And>data c0 c. decode data c0 = Inr c \<Longrightarrow> \<exists>g. c_Connection c = Some g \<and> complete_Connection g"
    and "distinct (map fst (c_Clusters cfg))"
  shows "\<exists>parts c. register_clusters srt clock (c_Clusters cfg) cfg coordinator_New = Some (parts, c) \<and>
     map fst parts = map fst (c_Clusters cfg) \<and>
     (\<forall>(n, m, f) \<in> set parts. \<forall>start inputs. continuousDiscovery start inputs m = None \<longleftrightarrow>
        q_ClusterRecoveryTime (c_Qumomf cfg) \<le> 0 \<or> q_ClusterDiscoveryTime (c_Qumomf cfg) \<le> 0)"
proof -
  have "list_all (\<lambda>(_, k). complete_Cluster k) (c_Clusters cfg)"
    by (rule Setup_accepted_complete[OF assms(1)]) (rule assms(2))
  from register_clusters_complete[OF this assms(3), where c = coordinator_New and srt = srt and clock = clock and cfg = cfg] obtain parts c where
    r: "register_clusters srt clock (c_Clusters cfg) cfg coordinator_New = Some (parts, c)"
    "map fst parts = map fst (c_Clusters cfg)"
    and p: "list_all2 (\<lambda>(n, k) (_, m, f). m = built_monitor cfg \<and>
        (\<exists>mode elect. cfg_ElectionMode k = Some mode \<and>
           elector_New srt mode (elector_options cfg) = Some elect \<and> f = built_failover cfg n elect))
      (c_Clusters cfg) parts"
    by (auto simp: coordinator_New_def)
  have "\<forall>(n, m, f) \<in> set parts. m = built_monitor cfg"
    using p by (induction rule: list_all2_induct) auto
  then have "\<forall>(n, m, f) \<in> set parts. \<forall>start inputs. continuousDiscovery start inputs m = None \<longleftrightarrow>
        q_ClusterRecoveryTime (c_Qumomf cfg) \<le> 0 \<or> q_ClusterDiscoveryTime (c_Qumomf cfg) \<le> 0"
    by (auto simp: continuousDiscovery_None_iff built_monitor_def NewMonitor_def)
  with r show ?thesis by blast
qed

theorem accepted_config_runs_witness:
  "\<exists>parts c. register_clusters insertion_sort (\<lambda>_. 0) [(''k'', sample_config)]
       (zero_Config\<lparr>c_Qumomf := (c_Qumomf zero_Config)\<lparr>q_ElectionMode := ''smart''\<rparr>,
         c_Connection := Some default_Connection, c_Clusters := [(''k'', sample_config)]\<rparr>)
       coordinator_New = Some (parts, c) \<and> map fst parts = [''k''] \<and>
     (\<forall>(n, m, f) \<in> set parts. continuousDiscovery 0 [] m = None)"
proof -
  let ?cfg = "zero_Config\<lparr>c_Qumomf := (c_Qumomf zero_Config)\<lparr>q_ElectionMode := ''smart''\<rparr>,
      c_Connection := Some default_Connection, c_Clusters := [(''k'', sample_config)]\<rparr>"
  have "inherit_Cluster ?cfg sample_config = Some sample_config"
    by (simp add: inherit_Cluster_def inherit_Connection_def sample_config_def default_Connection_def Let_def)
  then have "overrideEmptyByGlobalConfigs ?cfg = Some ?cfg"
    by (simp add: overrideEmptyByGlobalConfigs_def)
  moreover have "validate_config ?cfg = Inr ()"
    by (simp add: validate_config_def validateElector_def sample_config_def)
  ultimately have s: "Setup (Inr ''x'') (\<lambda>_ _. Inr ?cfg) = Some (Inr ?cfg)"
    by (simp add: Setup_def)
  have c: "\<exists>g. c_Connection c = Some g \<and> complete_Connection g" if "Inr ?cfg = (Inr c :: config_error + Config)" for c
    using that by (auto simp: complete_Connection_def default_Connection_def)
  from accepted_config_runs[OF s c, of insertion_sort "\<lambda>_. 0"] show ?thesis
    by (auto simp: zero_Config_def)
qed

end
